(* ===== verification/Prelude.thy ===== *)
theory Prelude
  imports Main "HOL-Library.Word"
begin

text \<open>
  The shared prelude of the development: Go's results and effects.

  A Go function of garden-shed that touches the outside world (files, mounts, the image store)
  is a function of the world that returns an outcome and the world it leaves behind.  A Go
  \<open>error\<close> is a value of \<open>go_error\<close>; a run-time panic is a second kind of failure, because the
  code's \<open>if err != nil\<close> tests do not see it.  The combinators below are the statement forms
  the code uses: early return on error (\<open>bindE\<close>), inspecting an error instead of returning it
  (\<open>handleE\<close>), \<open>defer\<close> (\<open>deferE\<close>), and a \<open>for \<dots> range\<close> loop left at the first error
  (\<open>forE\<close>).  Logging is not part of the world.

  The last part holds the facts that nearly every component proves about its operations:
  \<open>keeps I m\<close> (the operation preserves an invariant), \<open>yields I P m\<close> (and its result has a property)
  and \<open>frame v m\<close> (it does not change the part of the world that \<open>v\<close> reads), with rules for every
  statement form in the collections \<open>keeps_rules\<close>, \<open>yields_rules\<close> and \<open>frame_rules\<close>.
\<close>

named_theorems keeps_rules \<open>preservation of an invariant, one rule per statement form\<close>
named_theorems frame_rules \<open>preservation of a view, one rule per statement form\<close>
named_theorems yields_rules \<open>preservation of an invariant with a postcondition, one rule per statement form\<close>
named_theorems calm_rules \<open>absence of panics, one rule per statement form\<close>

section \<open>Errors and outcomes\<close>

text \<open>
  The errors the code tells apart: the ones for which \<open>os.IsNotExist\<close> holds, the end of a stream,
  the quota error it matches by type, and all others, which it only prints or returns.
\<close>

datatype go_error =
    Errorf string
  | NotExist string
  | EOF
  | QuotaExceededErr

text \<open>The text of an error, as \<open>err.Error()\<close> gives it.\<close>

fun err_msg :: "go_error \<Rightarrow> string" where
  "err_msg (Errorf s) = s"
| "err_msg (NotExist p) = p @ '': no such file or directory''"
| "err_msg EOF = ''EOF''"
| "err_msg QuotaExceededErr = ''layer size exceeds image quota''"

fun is_not_exist :: "go_error \<Rightarrow> bool" where
  "is_not_exist (NotExist _) = True"
| "is_not_exist _ = False"

datatype failure = Err go_error | Panic string

type_synonym 'a outcome = "failure + 'a"
type_synonym ('w, 'a) prog = "'w \<Rightarrow> 'a outcome \<times> 'w"

section \<open>Statement forms\<close>

definition ret :: "'a \<Rightarrow> ('w, 'a) prog" where
  "ret x = (\<lambda>w. (Inr x, w))"

definition throw :: "go_error \<Rightarrow> ('w, 'a) prog" where
  "throw e = (\<lambda>w. (Inl (Err e), w))"

definition panic :: "string \<Rightarrow> ('w, 'a) prog" where
  "panic s = (\<lambda>w. (Inl (Panic s), w))"

definition bindE :: "('w, 'a) prog \<Rightarrow> ('a \<Rightarrow> ('w, 'b) prog) \<Rightarrow> ('w, 'b) prog" where
  "bindE m k = (\<lambda>w. case m w of (Inl f, w') \<Rightarrow> (Inl f, w') | (Inr x, w') \<Rightarrow> k x w')"

definition handleE ::
  "('w, 'a) prog \<Rightarrow> (go_error \<Rightarrow> ('w, 'b) prog) \<Rightarrow> ('a \<Rightarrow> ('w, 'b) prog) \<Rightarrow> ('w, 'b) prog" where
  "handleE m h k = (\<lambda>w. case m w of
       (Inl (Err e), w') \<Rightarrow> h e w'
     | (Inl (Panic s), w') \<Rightarrow> (Inl (Panic s), w')
     | (Inr x, w') \<Rightarrow> k x w')"

text \<open>
  \<open>defer d\<close> followed by the rest \<open>m\<close> of the function: \<open>d\<close> runs after \<open>m\<close> however \<open>m\<close> ends, its
  own error is dropped, and a panic of \<open>d\<close> replaces the outcome.
\<close>

definition deferE :: "('w, 'c) prog \<Rightarrow> ('w, 'a) prog \<Rightarrow> ('w, 'a) prog" where
  "deferE d m = (\<lambda>w. case m w of (r, w1) \<Rightarrow>
     (case d w1 of (Inl (Panic s), w2) \<Rightarrow> (Inl (Panic s), w2) | (_, w2) \<Rightarrow> (r, w2)))"

text \<open>A call whose error result is ignored.\<close>

definition ignoreE :: "('w, 'a) prog \<Rightarrow> ('w, unit) prog" where
  "ignoreE m = handleE m (\<lambda>_. ret ()) (\<lambda>_. ret ())"

definition getW :: "('w \<Rightarrow> 'a) \<Rightarrow> ('w, 'a) prog" where
  "getW f = (\<lambda>w. (Inr (f w), w))"

definition modW :: "('w \<Rightarrow> 'w) \<Rightarrow> ('w, unit) prog" where
  "modW f = (\<lambda>w. (Inr (), f w))"

primrec forE :: "'b list \<Rightarrow> ('b \<Rightarrow> ('w, unit) prog) \<Rightarrow> ('w, unit) prog" where
  "forE [] body = ret ()"
| "forE (x # xs) body = bindE (body x) (\<lambda>_. forE xs body)"

lemmas prog_defs = ret_def throw_def panic_def bindE_def handleE_def deferE_def ignoreE_def
  getW_def modW_def

lemma ret_run [simp]: "ret x w = (Inr x, w)"
  by (simp add: ret_def)

lemma throw_run [simp]: "throw e w = (Inl (Err e), w)"
  by (simp add: throw_def)

lemma panic_run [simp]: "panic s w = (Inl (Panic s), w)"
  by (simp add: panic_def)

lemma getW_run [simp]: "getW f w = (Inr (f w), w)"
  by (simp add: getW_def)

lemma modW_run [simp]: "modW f w = (Inr (), f w)"
  by (simp add: modW_def)

text \<open>Running a sequence whose first part is known.\<close>

lemma bindE_Inr: "m w = (Inr x, w') \<Longrightarrow> bindE m k w = k x w'"
  by (simp add: bindE_def)

lemma bindE_Inl: "m w = (Inl f, w') \<Longrightarrow> bindE m k w = (Inl f, w')"
  by (simp add: bindE_def)

lemma handleE_Inr: "m w = (Inr x, w') \<Longrightarrow> handleE m h k w = k x w'"
  by (simp add: handleE_def)

lemma handleE_Err: "m w = (Inl (Err e), w') \<Longrightarrow> handleE m h k w = h e w'"
  by (simp add: handleE_def)

lemma handleE_Panic: "m w = (Inl (Panic s), w') \<Longrightarrow> handleE m h k w = (Inl (Panic s), w')"
  by (simp add: handleE_def)

lemmas run_rules = bindE_Inr bindE_Inl handleE_Inr handleE_Err handleE_Panic

lemma bindE_ret [simp]: "bindE (ret x) k = k x"
  by (rule ext) (simp add: bindE_def)

lemma bindE_throw [simp]: "bindE (throw e) k = throw e"
  by (rule ext) (simp add: bindE_def)

lemma bindE_panic [simp]: "bindE (panic s) k = panic s"
  by (rule ext) (simp add: bindE_def)

lemma bindE_getW_run [simp]: "bindE (getW f) k w = k (f w) w"
  by (simp add: bindE_def)

lemma bindE_modW_run [simp]: "bindE (modW f) k w = k () (f w)"
  by (simp add: bindE_def)

lemma handleE_ret [simp]: "handleE (ret x) h k = k x"
  by (rule ext) (simp add: handleE_def)

lemma handleE_throw [simp]: "handleE (throw e) h k = h e"
  by (rule ext) (simp add: handleE_def)

lemma handleE_rethrow: "handleE m throw k = bindE m k"
  by (rule ext) (auto simp: handleE_def bindE_def throw_def split: prod.splits sum.splits failure.splits)

lemma bindE_assoc: "bindE (bindE m k) l = bindE m (\<lambda>x. bindE (k x) l)"
  by (rule ext) (auto simp: bindE_def split: prod.splits sum.splits)

text \<open>A run that succeeds went through every part; a run that fails failed in one of them.\<close>

lemma bindE_InrE:
  assumes "bindE m k w = (Inr y, w2)"
  obtains x w1 where "m w = (Inr x, w1)" and "k x w1 = (Inr y, w2)"
  using assms by (auto simp: bindE_def split: prod.splits sum.splits)

lemma bindE_InlE:
  assumes "bindE m k w = (Inl f, w2)"
  obtains (first) "m w = (Inl f, w2)"
  | (second) x w1 where "m w = (Inr x, w1)" and "k x w1 = (Inl f, w2)"
  using assms by (auto simp: bindE_def split: prod.splits sum.splits)

lemma handleE_InrE:
  assumes "handleE m h k w = (Inr y, w2)"
  obtains (error) e w1 where "m w = (Inl (Err e), w1)" and "h e w1 = (Inr y, w2)"
  | (success) x w1 where "m w = (Inr x, w1)" and "k x w1 = (Inr y, w2)"
  using assms by (auto simp: handleE_def split: prod.splits sum.splits failure.splits)

lemma deferE_InrE:
  assumes "deferE d m w = (Inr y, w2)"
  obtains w1 r where "m w = (Inr y, w1)" and "d w1 = (r, w2)"
  using assms by (auto simp: deferE_def split: prod.splits sum.splits failure.splits)

section \<open>Invariants and frames\<close>

definition keeps :: "('w \<Rightarrow> bool) \<Rightarrow> ('w, 'a) prog \<Rightarrow> bool" where
  "keeps I m \<longleftrightarrow> (\<forall>w. I w \<longrightarrow> I (snd (m w)))"

definition frame :: "('w \<Rightarrow> 'v) \<Rightarrow> ('w, 'a) prog \<Rightarrow> bool" where
  "frame v m \<longleftrightarrow> (\<forall>w. v (snd (m w)) = v w)"

definition calm :: "('w, 'a) prog \<Rightarrow> bool" where
  "calm m \<longleftrightarrow> (\<forall>w s. fst (m w) \<noteq> Inl (Panic s))"

lemma keepsD: "keeps I m \<Longrightarrow> I w \<Longrightarrow> m w = (r, w') \<Longrightarrow> I w'"
  by (metis keeps_def snd_conv)

lemma frameD: "frame v m \<Longrightarrow> m w = (r, w') \<Longrightarrow> v w' = v w"
  by (metis frame_def snd_conv)

lemma calmD: "calm m \<Longrightarrow> m w \<noteq> (Inl (Panic s), w')"
  by (metis calm_def fst_conv)

lemma deferE_calm:
  assumes "calm d" and "m w = (r, w1)"
  shows "\<exists>w2. deferE d m w = (r, w2)"
proof -
  obtain x w2 where d: "d w1 = (x, w2)" by (cases "d w1")
  with calmD [OF assms(1)] have "x \<noteq> Inl (Panic s)" for s by blast
  with assms(2) d show ?thesis by (auto simp: deferE_def split: sum.split failure.split)
qed

lemma frame_keeps: "frame v m \<Longrightarrow> keeps (\<lambda>w. P (v w)) m"
  by (simp add: frame_def keeps_def)

lemma frame_comp: "frame v m \<Longrightarrow> frame (\<lambda>w. g (v w)) m"
  by (simp add: frame_def)

lemma keeps_ret [keeps_rules, intro]: "keeps I (ret x)"
  by (simp add: keeps_def)

lemma keeps_throw [keeps_rules, intro]: "keeps I (throw e)"
  by (simp add: keeps_def)

lemma keeps_panic [keeps_rules, intro]: "keeps I (panic s)"
  by (simp add: keeps_def)

lemma keeps_getW [keeps_rules, intro]: "keeps I (getW f)"
  by (simp add: keeps_def)

lemma keeps_modW: "(\<And>w. I w \<Longrightarrow> I (f w)) \<Longrightarrow> keeps I (modW f)"
  by (simp add: keeps_def)

lemma keeps_bindE [keeps_rules]:
  "keeps I m \<Longrightarrow> (\<And>x. keeps I (k x)) \<Longrightarrow> keeps I (bindE m k)"
  by (auto simp: keeps_def bindE_def split: prod.splits sum.splits)

text \<open>With what the first part establishes about its result.\<close>

lemma keeps_bind_post:
  assumes "\<And>w r w'. I w \<Longrightarrow> m w = (r, w') \<Longrightarrow> I w' \<and> (\<forall>x. r = Inr x \<longrightarrow> P x)"
    and "\<And>x. P x \<Longrightarrow> keeps I (k x)"
  shows "keeps I (bindE m k)"
  unfolding keeps_def
proof (intro allI impI)
  fix w assume "I w"
  obtain r w1 where m: "m w = (r, w1)" by (cases "m w")
  from assms(1) [OF \<open>I w\<close> m] have "I w1" "\<forall>x. r = Inr x \<longrightarrow> P x" by simp_all
  with m assms(2) show "I (snd (bindE m k w))"
    by (auto simp: bindE_def keeps_def split: sum.split)
qed

lemma keeps_handleE [keeps_rules]:
  "keeps I m \<Longrightarrow> (\<And>e. keeps I (h e)) \<Longrightarrow> (\<And>x. keeps I (k x)) \<Longrightarrow> keeps I (handleE m h k)"
  by (auto simp: keeps_def handleE_def split: prod.splits sum.splits failure.splits)

lemma keeps_deferE [keeps_rules]: "keeps I d \<Longrightarrow> keeps I m \<Longrightarrow> keeps I (deferE d m)"
  by (auto simp: keeps_def deferE_def split: prod.splits sum.splits failure.splits)

lemma keeps_ignoreE [keeps_rules]: "keeps I m \<Longrightarrow> keeps I (ignoreE m)"
  by (simp add: ignoreE_def keeps_handleE keeps_ret)

lemma keeps_if [keeps_rules]: "(b \<Longrightarrow> keeps I m) \<Longrightarrow> (\<not> b \<Longrightarrow> keeps I n) \<Longrightarrow> keeps I (if b then m else n)"
  by simp

lemma keeps_forE [keeps_rules]: "(\<And>x. x \<in> set xs \<Longrightarrow> keeps I (body x)) \<Longrightarrow> keeps I (forE xs body)"
  by (induction xs) (auto intro!: keeps_bindE keeps_ret)

lemma frame_ret [frame_rules, intro]: "frame v (ret x)"
  by (simp add: frame_def)

lemma frame_throw [frame_rules, intro]: "frame v (throw e)"
  by (simp add: frame_def)

lemma frame_panic [frame_rules, intro]: "frame v (panic s)"
  by (simp add: frame_def)

lemma frame_getW [frame_rules, intro]: "frame v (getW f)"
  by (simp add: frame_def)

lemma frame_modW: "(\<And>w. v (f w) = v w) \<Longrightarrow> frame v (modW f)"
  by (simp add: frame_def)

lemma frame_bindE [frame_rules]:
  "frame v m \<Longrightarrow> (\<And>x. frame v (k x)) \<Longrightarrow> frame v (bindE m k)"
  by (auto simp: frame_def bindE_def split: prod.splits sum.splits) (metis snd_conv)+

lemma frame_handleE [frame_rules]:
  "frame v m \<Longrightarrow> (\<And>e. frame v (h e)) \<Longrightarrow> (\<And>x. frame v (k x)) \<Longrightarrow> frame v (handleE m h k)"
  by (auto simp: frame_def handleE_def split: prod.splits sum.splits failure.splits)
     (metis snd_conv)+

lemma frame_deferE [frame_rules]: "frame v d \<Longrightarrow> frame v m \<Longrightarrow> frame v (deferE d m)"
  by (auto simp: frame_def deferE_def split: prod.splits sum.splits failure.splits)
     (metis snd_conv)+

lemma frame_ignoreE [frame_rules]: "frame v m \<Longrightarrow> frame v (ignoreE m)"
  by (simp add: ignoreE_def frame_handleE frame_ret)

lemma frame_if [frame_rules]: "(b \<Longrightarrow> frame v m) \<Longrightarrow> (\<not> b \<Longrightarrow> frame v n) \<Longrightarrow> frame v (if b then m else n)"
  by simp

lemma frame_forE [frame_rules]: "(\<And>x. x \<in> set xs \<Longrightarrow> frame v (body x)) \<Longrightarrow> frame v (forE xs body)"
  by (induction xs) (auto intro!: frame_bindE frame_ret)

lemma calm_ret [calm_rules, intro]: "calm (ret x)"
  by (simp add: calm_def)

lemma calm_throw [calm_rules, intro]: "calm (throw e)"
  by (simp add: calm_def)

lemma calm_getW [calm_rules, intro]: "calm (getW f)"
  by (simp add: calm_def)

lemma calm_modW [calm_rules, intro]: "calm (modW f)"
  by (simp add: calm_def)

lemma calm_bindE [calm_rules]: "calm m \<Longrightarrow> (\<And>x. calm (k x)) \<Longrightarrow> calm (bindE m k)"
  by (auto simp: calm_def bindE_def split: prod.splits sum.splits) (metis fst_conv)+

lemma calm_handleE [calm_rules]:
  "calm m \<Longrightarrow> (\<And>e. calm (h e)) \<Longrightarrow> (\<And>x. calm (k x)) \<Longrightarrow> calm (handleE m h k)"
  by (auto simp: calm_def handleE_def split: prod.splits sum.splits failure.splits)
     (metis fst_conv)+

lemma calm_deferE [calm_rules]: "calm d \<Longrightarrow> calm m \<Longrightarrow> calm (deferE d m)"
  by (auto simp: calm_def deferE_def split: prod.splits sum.splits failure.splits)
     (metis fst_conv)+

lemma calm_ignoreE [calm_rules]: "calm m \<Longrightarrow> calm (ignoreE m)"
  by (simp add: ignoreE_def calm_handleE calm_ret)

lemma calm_if [calm_rules]: "(b \<Longrightarrow> calm m) \<Longrightarrow> (\<not> b \<Longrightarrow> calm n) \<Longrightarrow> calm (if b then m else n)"
  by simp

lemma calm_forE [calm_rules]: "(\<And>x. x \<in> set xs \<Longrightarrow> calm (body x)) \<Longrightarrow> calm (forE xs body)"
  by (induction xs) (auto intro!: calm_bindE calm_ret)

text \<open>Preserving an invariant and establishing a property of the result.\<close>

definition yields :: "('w \<Rightarrow> bool) \<Rightarrow> ('a \<Rightarrow> bool) \<Rightarrow> ('w, 'a) prog \<Rightarrow> bool" where
  "yields I P m \<longleftrightarrow> (\<forall>w r w'. I w \<longrightarrow> m w = (r, w') \<longrightarrow> I w' \<and> (\<forall>x. r = Inr x \<longrightarrow> P x))"

lemma yieldsD:
  assumes "yields I P m" and "I w" and "m w = (r, w')"
  shows "I w'" and "r = Inr x \<Longrightarrow> P x"
  using assms by (auto simp: yields_def)

lemma yields_keeps: "yields I P m \<Longrightarrow> keeps I m"
  unfolding yields_def keeps_def by (metis prod.collapse)

lemma keeps_yields: "keeps I m \<Longrightarrow> yields I (\<lambda>_. True) m"
  by (auto simp: yields_def dest: keepsD)

lemma yields_result:
  assumes "keeps I m" and "\<And>w x w'. m w = (Inr x, w') \<Longrightarrow> P x"
  shows "yields I P m"
  using assms by (auto simp: yields_def dest: keepsD)

lemma yields_ret [yields_rules]: "P x \<Longrightarrow> yields I P (ret x)"
  by (simp add: yields_def)

lemma yields_stop [yields_rules]: "yields I P (throw e)" "yields I P (panic s)"
  by (simp_all add: yields_def)

lemma yields_bindE:
  assumes "yields I P m" and "\<And>x. P x \<Longrightarrow> yields I Q (k x)"
  shows "yields I Q (bindE m k)"
  unfolding yields_def
proof (intro allI impI)
  fix w r w' assume w: "I w" and run: "bindE m k w = (r, w')"
  obtain r1 w1 where m: "m w = (r1, w1)" by (cases "m w")
  note one = yieldsD [OF assms(1) w m]
  show "I w' \<and> (\<forall>x. r = Inr x \<longrightarrow> Q x)"
  proof (cases r1)
    case (Inr x)
    with run m have "k x w1 = (r, w')" by (simp add: bindE_def)
    from yieldsD [OF assms(2) [OF one(2) [OF Inr]] one(1) this] show ?thesis by blast
  qed (use run m one in \<open>auto simp: bindE_def\<close>)
qed

lemma yields_handleE:
  assumes "yields I P m" and "\<And>e. yields I Q (h e)" and "\<And>x. P x \<Longrightarrow> yields I Q (k x)"
  shows "yields I Q (handleE m h k)"
  unfolding yields_def
proof (intro allI impI)
  fix w r w' assume w: "I w" and run: "handleE m h k w = (r, w')"
  obtain r1 w1 where m: "m w = (r1, w1)" by (cases "m w")
  note one = yieldsD [OF assms(1) w m]
  consider e where "r1 = Inl (Err e)" | s where "r1 = Inl (Panic s)" | x where "r1 = Inr x"
    by (metis failure.exhaust sum.exhaust)
  then show "I w' \<and> (\<forall>x. r = Inr x \<longrightarrow> Q x)"
  proof cases
    case (1 e)
    with run m have "h e w1 = (r, w')" by (simp add: handleE_def)
    from yieldsD [OF assms(2) one(1) this] show ?thesis by blast
  next
    case (2 s)
    with run m one(1) show ?thesis by (auto simp: handleE_def)
  next
    case (3 x)
    with run m have "k x w1 = (r, w')" by (simp add: handleE_def)
    from yieldsD [OF assms(3) [OF one(2) [OF 3]] one(1) this] show ?thesis by blast
  qed
qed

lemma yields_bind_keeps [yields_rules]:
  "keeps I m \<Longrightarrow> (\<And>x. yields I Q (k x)) \<Longrightarrow> yields I Q (bindE m k)"
  by (rule yields_bindE [OF keeps_yields])

lemma yields_handle_keeps [yields_rules]:
  "keeps I m \<Longrightarrow> (\<And>e. yields I Q (h e)) \<Longrightarrow> (\<And>x. yields I Q (k x)) \<Longrightarrow> yields I Q (handleE m h k)"
  by (rule yields_handleE [OF keeps_yields])

lemma yields_deferE [yields_rules]:
  assumes "keeps I d" and "yields I P m"
  shows "yields I P (deferE d m)"
  unfolding yields_def
proof (intro allI impI)
  fix w r w' assume w: "I w" and run: "deferE d m w = (r, w')"
  obtain r1 w1 where m: "m w = (r1, w1)" by (cases "m w")
  obtain r2 w2 where d: "d w1 = (r2, w2)" by (cases "d w1")
  note one = yieldsD [OF assms(2) w m]
  have "I w2" by (rule keepsD [OF assms(1) one(1) d])
  with run m d one(2) show "I w' \<and> (\<forall>x. r = Inr x \<longrightarrow> P x)"
    by (auto simp: deferE_def split: sum.splits failure.splits)
qed

lemma yields_if [yields_rules]:
  "(b \<Longrightarrow> yields I P m) \<Longrightarrow> (\<not> b \<Longrightarrow> yields I P n) \<Longrightarrow> yields I P (if b then m else n)"
  by simp

section \<open>Machine integers\<close>

text \<open>
  Go's \<open>int64\<close> and \<open>uint64\<close> are both \<open>64 word\<close>: addition wraps, \<open>sint\<close> and \<open>uint\<close> read them.
  A conversion between the two keeps the bits.
\<close>

type_synonym int64 = "64 word"
type_synonym uint64 = "64 word"

definition max_int64 :: int where
  "max_int64 = 2 ^ 63 - 1"

definition in_int64 :: "int \<Rightarrow> bool" where
  "in_int64 i \<longleftrightarrow> - (2 ^ 63) \<le> i \<and> i \<le> max_int64"

lemma word_of_int_sint_id: "(word_of_int (sint w) :: int64) = w"
  by simp

lemma sint_of_int_id: "in_int64 i \<Longrightarrow> sint (word_of_int i :: int64) = i"
  by (simp add: in_int64_def max_int64_def sint_sbintrunc' signed_take_bit_int_eq_self)

lemma sint_in_int64: "in_int64 (sint (w :: int64))"
  using sint_range_size [of w] by (simp add: in_int64_def max_int64_def word_size)

lemma sint_plus_id: "in_int64 (sint a + sint b) \<Longrightarrow> sint ((a :: int64) + b) = sint a + sint b"
  by (metis sint_of_int_id wi_hom_add word_of_int_sint_id)

lemma sint_minus_id: "in_int64 (sint a - sint b) \<Longrightarrow> sint ((a :: int64) - b) = sint a - sint b"
  by (metis sint_of_int_id wi_hom_sub word_of_int_sint_id)

end
