(* ===== verification/Go_Strings.thy ===== *)
theory Go_Strings
  imports Prelude "HOL-Library.Sublist"
begin

text \<open>
  The parts of Go's \<open>strings\<close>, \<open>strconv\<close> and \<open>fmt\<close> packages that garden-shed calls, on byte
  strings (\<open>string\<close>): \<open>Index\<close>, \<open>Contains\<close>, \<open>Split\<close> and \<open>Join\<close> with a one-byte separator,
  \<open>TrimSpace\<close>, \<open>Replace\<close> of the first occurrence, and the decimal and hexadecimal formats
  \<open>%d\<close> and \<open>%x\<close>.  The lemmas are the round trips and the injectivity facts that the
  components use: splitting undoes joining, decimal numerals are distinct, and a name and a
  number joined by a dash can be taken apart again.
\<close>

section \<open>Searching\<close>

text \<open>\<open>strings.Index(s, sub)\<close>: the least position at which \<open>sub\<close> occurs, if any.\<close>

fun str_index :: "string \<Rightarrow> string \<Rightarrow> nat option" where
  "str_index s sub =
     (if prefix sub s then Some 0
      else case s of [] \<Rightarrow> None | _ # s' \<Rightarrow> map_option Suc (str_index s' sub))"

declare str_index.simps [simp del]

definition str_contains :: "string \<Rightarrow> string \<Rightarrow> bool" where
  "str_contains s sub \<longleftrightarrow> str_index s sub \<noteq> None"

text \<open>\<open>strings.Replace(s, old, new, 1)\<close>.\<close>

definition replace_first :: "string \<Rightarrow> string \<Rightarrow> string \<Rightarrow> string" where
  "replace_first s old new =
     (case str_index s old of
        None \<Rightarrow> s
      | Some i \<Rightarrow> take i s @ new @ drop (i + length old) s)"

lemma str_index_Some:
  "str_index s sub = Some i \<Longrightarrow> i + length sub \<le> length s \<and> take (length sub) (drop i s) = sub"
proof (induction s arbitrary: i)
  case Nil
  then show ?case by (auto simp: str_index.simps [of "[]"] split: if_splits)
next
  case (Cons c s)
  show ?case
  proof (cases "prefix sub (c # s)")
    case True
    with Cons.prems prefix_length_le [OF True] show ?thesis
      by (auto simp: str_index.simps [of "c # s"] prefix_def)
  next
    case False
    with Cons.prems obtain j where "i = Suc j" and "str_index s sub = Some j"
      by (auto simp: str_index.simps [of "c # s"])
    with Cons.IH show ?thesis by simp
  qed
qed

lemma str_index_append: "\<exists>i \<le> length a. str_index (a @ sub @ b) sub = Some i"
proof (induction a)
  case Nil
  show ?case by (subst str_index.simps) simp
next
  case (Cons c a)
  then obtain i where "i \<le> length a" "str_index (a @ sub @ b) sub = Some i" by blast
  then show ?case by (subst str_index.simps) (cases "prefix sub (c # a @ sub @ b)"; simp)
qed

lemma str_contains_append: "str_contains (a @ sub @ b) sub"
  using str_index_append [of a sub b] by (auto simp: str_contains_def)

lemma str_contains_iff: "str_contains s sub \<longleftrightarrow> (\<exists>a b. s = a @ sub @ b)"
proof
  assume "str_contains s sub"
  then obtain i where "str_index s sub = Some i" by (auto simp: str_contains_def)
  then have "s = take i s @ sub @ drop (length sub) (drop i s)"
    using str_index_Some [of s sub i] by (metis append_take_drop_id)
  then show "\<exists>a b. s = a @ sub @ b" by blast
next
  assume "\<exists>a b. s = a @ sub @ b"
  then show "str_contains s sub" using str_contains_append by blast
qed

text \<open>Where the one-byte separator does not occur at all, and where its first occurrence is.\<close>

lemma str_index_char_None: "c \<notin> set s \<Longrightarrow> str_index s [c] = None"
  by (induction s) (auto simp: str_index.simps)

lemma str_index_char_first: "c \<notin> set a \<Longrightarrow> str_index (a @ c # b) [c] = Some (length a)"
  by (induction a) (auto simp: str_index.simps)

lemma str_index_char_Some: "c \<in> set s \<Longrightarrow> \<exists>i. str_index s [c] = Some i"
  by (metis split_list_first str_index_char_first)

section \<open>Splitting and joining\<close>

text \<open>\<open>strings.Split(s, sep)\<close> for a one-byte separator; it never returns an empty list.\<close>

fun split_on :: "char \<Rightarrow> string \<Rightarrow> string list" where
  "split_on c [] = [[]]"
| "split_on c (x # xs) =
     (if x = c then [] # split_on c xs
      else case split_on c xs of [] \<Rightarrow> [[x]] | y # ys \<Rightarrow> (x # y) # ys)"

fun join_with :: "char \<Rightarrow> string list \<Rightarrow> string" where
  "join_with c [] = []"
| "join_with c [s] = s"
| "join_with c (s # t # ts) = s @ c # join_with c (t # ts)"

lemma split_on_nonempty [simp]: "split_on c s \<noteq> []"
  by (cases s) (auto split: list.splits)

lemma join_with_Cons: "xs \<noteq> [] \<Longrightarrow> join_with c (x # xs) = x @ c # join_with c xs"
  by (cases xs) auto

lemma join_split: "join_with c (split_on c s) = s"
proof (induction s)
  case (Cons x s)
  then show ?case
    by (cases "split_on c s") (auto simp: join_with_Cons, cases "tl (split_on c s)", auto)
qed simp

lemma split_on_notin: "c \<notin> set s \<Longrightarrow> split_on c s = [s]"
  by (induction s) auto

lemma split_on_append: "c \<notin> set a \<Longrightarrow> split_on c (a @ c # b) = a # split_on c b"
  by (induction a) auto

lemma split_on_parts: "p \<in> set (split_on c s) \<Longrightarrow> c \<notin> set p"
  by (induction s arbitrary: p) (auto split: list.splits if_splits)

lemma split_on_sub: "p \<in> set (split_on c s) \<Longrightarrow> set p \<subseteq> set s"
  by (induction s arbitrary: p) (auto split: list.splits if_splits, blast+)

lemma split_join:
  "xs \<noteq> [] \<Longrightarrow> (\<And>x. x \<in> set xs \<Longrightarrow> c \<notin> set x) \<Longrightarrow> split_on c (join_with c xs) = xs"
proof (induction xs rule: join_with.induct)
  case (3 c s t ts)
  then show ?case by (simp add: split_on_append)
qed (auto simp: split_on_notin)

section \<open>White space\<close>

text \<open>
  \<open>strings.TrimSpace\<close> on the ASCII white space characters; the multi-byte spaces of Unicode
  do not occur in the image identifiers that the code trims.
\<close>

definition is_space :: "char \<Rightarrow> bool" where
  "is_space c \<longleftrightarrow> c \<in> {CHR '' '', CHR 0x09, CHR 0x0A, CHR 0x0B, CHR 0x0C, CHR 0x0D}"

definition trim_space :: "string \<Rightarrow> string" where
  "trim_space s = rev (dropWhile is_space (rev (dropWhile is_space s)))"

definition newline :: char where
  "newline = CHR 0x0A"

text \<open>A string without white space is unchanged, with or without the newline of \<open>Fprintln\<close>.\<close>

definition no_space :: "string \<Rightarrow> bool" where
  "no_space s \<longleftrightarrow> (\<forall>c \<in> set s. \<not> is_space c)"

lemma dropWhile_no_space: "no_space s \<Longrightarrow> dropWhile is_space s = s"
  by (cases s) (auto simp: no_space_def)

lemma no_space_rev [simp]: "no_space (rev s) = no_space s"
  by (simp add: no_space_def)

lemma is_space_newline [simp]: "is_space newline"
  by (simp add: is_space_def newline_def)

lemma no_space_newline: "no_space s \<Longrightarrow> newline \<notin> set s"
  by (auto simp: no_space_def)

lemma no_space_contains: "no_space s \<Longrightarrow> \<not> str_contains s '' ''"
proof
  assume "no_space s" and "str_contains s '' ''"
  then obtain i where "str_index s '' '' = Some i" by (auto simp: str_contains_def)
  from str_index_Some [OF this] have "CHR '' '' \<in> set (take 1 (drop i s))" by simp
  then have "CHR '' '' \<in> set s" by (meson in_set_dropD in_set_takeD)
  with \<open>no_space s\<close> show False by (auto simp: no_space_def is_space_def)
qed

lemma trim_space_id: "no_space s \<Longrightarrow> trim_space s = s"
  by (simp add: trim_space_def dropWhile_no_space)

lemma trim_space_line: "no_space s \<Longrightarrow> trim_space (s @ [newline]) = s"
  by (cases s) (auto simp: trim_space_def no_space_def dropWhile_no_space [unfolded no_space_def])

lemma trim_space_Nil [simp]: "trim_space [] = []"
  by (simp add: trim_space_def)

section \<open>Decimal and hexadecimal numerals\<close>

definition digit_char :: "nat \<Rightarrow> char" where
  "digit_char d = char_of (48 + d)"

text \<open>The digits of \<open>%d\<close> for a number that is not negative.\<close>

fun show_nat :: "nat \<Rightarrow> string" where
  "show_nat n = (if n < 10 then [digit_char n] else show_nat (n div 10) @ [digit_char (n mod 10)])"

declare show_nat.simps [simp del]

definition show_int :: "int \<Rightarrow> string" where
  "show_int i = (if i < 0 then CHR ''-'' # show_nat (nat (- i)) else show_nat (nat i))"

definition char_digit :: "char \<Rightarrow> nat" where
  "char_digit c = of_char c - 48"

definition is_digit :: "char \<Rightarrow> bool" where
  "is_digit c \<longleftrightarrow> 48 \<le> (of_char c :: nat) \<and> (of_char c :: nat) \<le> 57"

text \<open>Reading a numeral back, as \<open>strconv\<close> does: left to right, ten times the value so far.\<close>

definition read_nat :: "string \<Rightarrow> nat" where
  "read_nat s = foldl (\<lambda>n c. 10 * n + char_digit c) 0 s"

lemma of_char_digit_char: "d < 10 \<Longrightarrow> of_char (digit_char d) = 48 + d"
  by (simp add: digit_char_def)

lemma char_digit_digit_char: "d < 10 \<Longrightarrow> char_digit (digit_char d) = d"
  by (simp add: char_digit_def of_char_digit_char)

lemma is_digit_digit_char: "d < 10 \<Longrightarrow> is_digit (digit_char d)"
  by (simp add: is_digit_def of_char_digit_char)

lemma show_nat_digits: "c \<in> set (show_nat n) \<Longrightarrow> is_digit c"
proof (induction n rule: show_nat.induct)
  case (1 n)
  then show ?case
    by (cases "n < 10") (auto simp: show_nat.simps [of n] is_digit_digit_char)
qed

lemma show_nat_nonempty: "show_nat n \<noteq> []"
  by (simp add: show_nat.simps [of n])

lemma read_show_nat: "read_nat (show_nat n) = n"
proof (induction n rule: show_nat.induct)
  case (1 n)
  then show ?case
    by (cases "n < 10") (auto simp: show_nat.simps [of n] read_nat_def char_digit_digit_char)
qed

lemma show_nat_inject [simp]: "show_nat m = show_nat n \<longleftrightarrow> m = n"
  by (metis read_show_nat)

lemma dash_not_digit: "\<not> is_digit CHR ''-''"
  by (simp add: is_digit_def)

text \<open>
  A string followed by a dash and a numeral determines both: the numeral holds no dash, so it is
  what follows the last one.
\<close>

lemma append_dash_inject:
  assumes "CHR ''-'' \<notin> set x" and "CHR ''-'' \<notin> set y"
    and "p @ CHR ''-'' # x = q @ CHR ''-'' # y"
  shows "p = q \<and> x = y"
proof -
  have "rev x @ CHR ''-'' # rev p = rev y @ CHR ''-'' # rev q"
    using arg_cong [OF assms(3), of rev] by simp
  then have "split_on CHR ''-'' (rev x @ CHR ''-'' # rev p)
      = split_on CHR ''-'' (rev y @ CHR ''-'' # rev q)" by simp
  then have "rev x = rev y" using assms(1,2) by (simp add: split_on_append)
  then show ?thesis using assms(3) by simp
qed

lemma show_nat_no_dash: "CHR ''-'' \<notin> set (show_nat n)"
  using show_nat_digits dash_not_digit by blast

lemma dash_number_inject:
  "p @ CHR ''-'' # show_nat m = q @ CHR ''-'' # show_nat n \<longleftrightarrow> p = q \<and> m = n"
proof
  assume "p @ CHR ''-'' # show_nat m = q @ CHR ''-'' # show_nat n"
  from append_dash_inject [OF show_nat_no_dash show_nat_no_dash this]
  show "p = q \<and> m = n" by simp
qed simp

text \<open>\<open>%x\<close> of a byte, two lower-case digits.\<close>

definition hex_digit :: "nat \<Rightarrow> char" where
  "hex_digit d = (if d < 10 then char_of (48 + d) else char_of (87 + d))"

definition hex_byte :: "8 word \<Rightarrow> string" where
  "hex_byte b = [hex_digit (unat b div 16), hex_digit (unat b mod 16)]"

definition hex_bytes :: "8 word list \<Rightarrow> string" where
  "hex_bytes bs = concat (map hex_byte bs)"

definition is_lower_hex :: "char \<Rightarrow> bool" where
  "is_lower_hex c \<longleftrightarrow> is_digit c \<or> (97 \<le> (of_char c :: nat) \<and> (of_char c :: nat) \<le> 102)"

lemma is_lower_hex_digit: "d < 16 \<Longrightarrow> is_lower_hex (hex_digit d)"
  by (auto simp: is_lower_hex_def hex_digit_def is_digit_def)

lemma hex_digit_inject: "d < 16 \<Longrightarrow> e < 16 \<Longrightarrow> hex_digit d = hex_digit e \<longleftrightarrow> d = e"
proof -
  assume de: "d < 16" "e < 16"
  have v: "(of_char (hex_digit n) :: nat) = (if n < 10 then 48 + n else 87 + n)" if "n < 16" for n
    using that by (simp add: hex_digit_def)
  show ?thesis
  proof
    assume "hex_digit d = hex_digit e"
    then have "(of_char (hex_digit d) :: nat) = of_char (hex_digit e)" by simp
    with de show "d = e" by (simp add: v split: if_splits)
  qed simp
qed

lemma unat_byte_bound: "unat (b :: 8 word) < 256"
proof -
  have "unat b < 2 ^ LENGTH(8)" by (rule unsigned_less)
  then show ?thesis by simp
qed

lemma length_hex_bytes: "length (hex_bytes bs) = 2 * length bs"
  by (induction bs) (auto simp: hex_bytes_def hex_byte_def)

lemma hex_bytes_lower_hex: "c \<in> set (hex_bytes bs) \<Longrightarrow> is_lower_hex c"
  using unat_byte_bound
  by (auto simp: hex_bytes_def hex_byte_def intro!: is_lower_hex_digit)
     (metis less_mult_imp_div_less mult_2_right numeral_Bit0 numeral_times_numeral semiring_norm(12,13))

lemma hex_byte_inject: "hex_byte a = hex_byte b \<longleftrightarrow> a = b"
proof
  assume "hex_byte a = hex_byte b"
  moreover have "unat a div 16 < 16" "unat b div 16 < 16"
    using unat_byte_bound [of a] unat_byte_bound [of b] by auto
  ultimately have "unat a div 16 = unat b div 16 \<and> unat a mod 16 = unat b mod 16"
    by (simp add: hex_byte_def hex_digit_inject)
  then have "unat a = unat b" by (metis div_mult_mod_eq)
  then show "a = b" by (simp add: word_eq_iff_unsigned [where ?'a = nat])
qed simp

lemma hex_bytes_inject: "hex_bytes xs = hex_bytes ys \<Longrightarrow> xs = ys"
proof (induction xs arbitrary: ys)
  case Nil
  then show ?case by (cases ys) (auto simp: hex_bytes_def hex_byte_def)
next
  case (Cons x xs)
  then obtain y ys' where ys: "ys = y # ys'"
    by (cases ys) (auto simp: hex_bytes_def hex_byte_def)
  with Cons.prems have "hex_byte x @ hex_bytes xs = hex_byte y @ hex_bytes ys'"
    by (simp add: hex_bytes_def)
  then have "hex_byte x = hex_byte y \<and> hex_bytes xs = hex_bytes ys'"
    by (simp add: hex_byte_def)
  with Cons.IH ys show ?case by (simp add: hex_byte_inject)
qed

end
