(* ===== verification/Sha256.thy ===== *)
theory Sha256
  imports Go_Strings
begin

text \<open>
  Go's \<open>crypto/sha256\<close>, as far as the image identifiers need it: \<open>sha256.Sum256\<close> of a byte
  string and its lower-case hexadecimal form \<open>fmt.Sprintf("%x", \<dots>)\<close>.  The definitions compute;
  what the components use of them is the format of the result, 64 lower-case hexadecimal digits
  for every input.
\<close>

unbundle bit_operations_syntax

type_synonym byte = "8 word"
type_synonym w32 = "32 word"

definition bytes_of :: "string \<Rightarrow> byte list" where
  "bytes_of s = map (\<lambda>c. word_of_nat (of_char c)) s"

section \<open>The compression function\<close>

definition sha_K :: "w32 list" where
  "sha_K = [
    1116352408, 1899447441, 3049323471, 3921009573, 961987163, 1508970993, 2453635748, 2870763221,
    3624381080, 310598401, 607225278, 1426881987, 1925078388, 2162078206, 2614888103, 3248222580,
    3835390401, 4022224774, 264347078, 604807628, 770255983, 1249150122, 1555081692, 1996064986,
    2554220882, 2821834349, 2952996808, 3210313671, 3336571891, 3584528711, 113926993, 338241895,
    666307205, 773529912, 1294757372, 1396182291, 1695183700, 1986661051, 2177026350, 2456956037,
    2730485921, 2820302411, 3259730800, 3345764771, 3516065817, 3600352804, 4094571909, 275423344,
    430227734, 506948616, 659060556, 883997877, 958139571, 1322822218, 1537002063, 1747873779,
    1955562222, 2024104815, 2227730452, 2361852424, 2428436474, 2756734187, 3204031479, 3329325298]"

text \<open>The eight working variables.\<close>

datatype sha_state = Sha w32 w32 w32 w32 w32 w32 w32 w32

definition sha_init :: sha_state where
  "sha_init = Sha 0x6a09e667 0xbb67ae85 0x3c6ef372 0xa54ff53a
                  0x510e527f 0x9b05688c 0x1f83d9ab 0x5be0cd19"

definition small_sigma0 :: "w32 \<Rightarrow> w32" where
  "small_sigma0 x = word_rotr 7 x XOR word_rotr 18 x XOR drop_bit 3 x"

definition small_sigma1 :: "w32 \<Rightarrow> w32" where
  "small_sigma1 x = word_rotr 17 x XOR word_rotr 19 x XOR drop_bit 10 x"

text \<open>The message schedule, newest word first.\<close>

primrec sha_schedule :: "nat \<Rightarrow> w32 list \<Rightarrow> w32 list" where
  "sha_schedule 0 ws = ws"
| "sha_schedule (Suc n) ws =
     sha_schedule n ((small_sigma1 (ws ! 1) + ws ! 6 + small_sigma0 (ws ! 14) + ws ! 15) # ws)"

fun sha_round :: "sha_state \<Rightarrow> w32 \<times> w32 \<Rightarrow> sha_state" where
  "sha_round (Sha a b c d e f g h) (k, w) =
     (let t1 = h + (word_rotr 6 e XOR word_rotr 11 e XOR word_rotr 25 e)
                 + ((e AND f) XOR ((NOT e) AND g)) + k + w;
          t2 = (word_rotr 2 a XOR word_rotr 13 a XOR word_rotr 22 a)
                 + ((a AND b) XOR (a AND c) XOR (b AND c))
      in Sha (t1 + t2) a b c (d + t1) e f g)"

fun sha_add :: "sha_state \<Rightarrow> sha_state \<Rightarrow> sha_state" where
  "sha_add (Sha a b c d e f g h) (Sha a' b' c' d' e' f' g' h') =
     Sha (a + a') (b + b') (c + c') (d + d') (e + e') (f + f') (g + g') (h + h')"

definition sha_block :: "sha_state \<Rightarrow> w32 list \<Rightarrow> sha_state" where
  "sha_block s ws = sha_add s (foldl sha_round s (zip sha_K (rev (sha_schedule 48 (rev ws)))))"

section \<open>Padding and output\<close>

definition be_bytes :: "64 word \<Rightarrow> byte list" where
  "be_bytes n = map (\<lambda>i. ucast (drop_bit i n)) [56, 48, 40, 32, 24, 16, 8, 0]"

definition sha_pad :: "byte list \<Rightarrow> byte list" where
  "sha_pad bs = bs @ 0x80 # replicate ((119 - length bs mod 64) mod 64) 0 @ be_bytes (8 * word_of_nat (length bs))"

fun be_words :: "byte list \<Rightarrow> w32 list" where
  "be_words (a # b # c # d # bs) =
     (push_bit 24 (ucast a) OR push_bit 16 (ucast b) OR push_bit 8 (ucast c) OR ucast d) # be_words bs"
| "be_words _ = []"

fun sha_blocks :: "sha_state \<Rightarrow> w32 list \<Rightarrow> sha_state" where
  "sha_blocks s ws =
     (if length ws < 16 then s else sha_blocks (sha_block s (take 16 ws)) (drop 16 ws))"

declare sha_blocks.simps [simp del]

definition word_bytes :: "w32 \<Rightarrow> byte list" where
  "word_bytes w = [ucast (drop_bit 24 w), ucast (drop_bit 16 w), ucast (drop_bit 8 w), ucast w]"

fun sha_bytes :: "sha_state \<Rightarrow> byte list" where
  "sha_bytes (Sha a b c d e f g h) = concat (map word_bytes [a, b, c, d, e, f, g, h])"

definition sum256 :: "byte list \<Rightarrow> byte list" where
  "sum256 bs = sha_bytes (sha_blocks sha_init (be_words (sha_pad bs)))"

definition sha256_hex :: "string \<Rightarrow> string" where
  "sha256_hex s = hex_bytes (sum256 (bytes_of s))"

section \<open>The format of the result\<close>

lemma length_sha_bytes: "length (sha_bytes s) = 32"
  by (cases s) (simp add: word_bytes_def)

lemma length_sum256: "length (sum256 bs) = 32"
  by (simp add: sum256_def length_sha_bytes)

lemma length_sha256_hex [simp]: "length (sha256_hex s) = 64"
  by (simp add: sha256_hex_def length_hex_bytes length_sum256)

lemma sha256_hex_lower_hex: "c \<in> set (sha256_hex s) \<Longrightarrow> is_lower_hex c"
  by (simp add: sha256_hex_def hex_bytes_lower_hex)

lemma sha256_hex_nonempty [simp]: "sha256_hex s \<noteq> []"
  using length_sha256_hex [of s] by (metis list.size(3) zero_neq_numeral)

text \<open>The padded message is a whole number of blocks, so no byte of the input is left out.\<close>

lemma pad_length: "64 dvd n + (9 + (119 - n mod 64) mod 64)" for n :: nat
proof -
  define r where "r = n mod 64"
  have "r < 64" by (simp add: r_def)
  then have "64 dvd r + (9 + (119 - r) mod 64)"
    by (cases "r \<le> 55") (auto simp: mod_if)
  moreover have "n = 64 * (n div 64) + r" by (simp add: r_def)
  ultimately show ?thesis
    by (metis dvd_add dvd_triv_left group_cancel.add1 r_def)
qed

lemma length_be_bytes: "length (be_bytes n) = 8"
  by (simp add: be_bytes_def)

lemma length_sha_pad: "64 dvd length (sha_pad bs)"
  using pad_length [of "length bs"] by (simp add: sha_pad_def length_be_bytes add_ac)

text \<open>The one-block test vector of FIPS 180-4.\<close>

lemma sha256_one_block:
  "sha256_hex ''abc'' = ''ba7816bf8f01cfea414140de5dae2223b00361a396177a9cb410ff61f20015ad''"
  by code_simp

end
