(* ===== verification/Layer_Ids.thy ===== *)
theory Layer_Ids
  imports Sha256
begin

text \<open>
  Identifiers: the four kinds of layer ID of \<open>src/layercake/docker.go\<close> and their graph IDs, the
  format check \<open>ValidateID\<close> of the image store, and the content digests of a registry with the
  conversion to a graph ID that \<open>src/repository_fetcher/remote.go\<close> applies.

  The lemmas say which identifiers the image store accepts and when two of them coincide.
\<close>

section \<open>Graph IDs\<close>

text \<open>
  The implementations of the interface \<open>ID\<close>.  A modification time is seconds and nanoseconds
  within the second, as \<open>time.Time\<close> has it; the zero time has no nanoseconds.
\<close>

datatype layer_id =
    ContainerID string
  | DockerImageID string
  | LocalImageID string "int \<times> nat"
  | NamespacedLayerID layer_id string

definition zero_time :: "int \<times> nat" where
  "zero_time = (0, 0)"

definition nanosecond :: "int \<times> nat \<Rightarrow> nat" where
  "nanosecond t = snd t"

definition NamespacedID :: "layer_id \<Rightarrow> string \<Rightarrow> layer_id" where
  "NamespacedID i cacheKey = NamespacedLayerID i cacheKey"

definition shaID :: "string \<Rightarrow> string" where
  "shaID s = (if s = [] then s else sha256_hex s)"

primrec GraphID :: "layer_id \<Rightarrow> string" where
  "GraphID (ContainerID c) = shaID c"
| "GraphID (DockerImageID d) = d"
| "GraphID (LocalImageID p t) = shaID (p @ ''-'' @ show_nat (nanosecond t))"
| "GraphID (NamespacedLayerID i key) = shaID (GraphID i @ ''@'' @ key)"

fun is_namespaced :: "layer_id \<Rightarrow> bool" where
  "is_namespaced (NamespacedLayerID _ _) = True"
| "is_namespaced _ = False"

section \<open>Valid image IDs\<close>

text \<open>The regular expression \<open>^([a-f0-9]{64})$\<close> of the image package.\<close>

definition ValidateID :: "string \<Rightarrow> bool" where
  "ValidateID s \<longleftrightarrow> length s = 64 \<and> list_all is_lower_hex s"

lemma ValidateID_shaID_iff: "ValidateID (shaID s) \<longleftrightarrow> s \<noteq> []"
  by (auto simp: ValidateID_def shaID_def list_all_iff sha256_hex_lower_hex)

lemma ValidateID_nonempty: "ValidateID s \<Longrightarrow> s \<noteq> []"
  by (auto simp: ValidateID_def)

lemma is_lower_hex_code: "is_lower_hex c \<Longrightarrow> 48 \<le> (of_char c :: nat)"
  by (auto simp: is_lower_hex_def is_digit_def)

lemma is_lower_hex_no_space: "is_lower_hex c \<Longrightarrow> \<not> is_space c"
  by (auto simp: is_space_def is_lower_hex_def is_digit_def)

text \<open>A valid ID is a plain file name without white space, which the metadata files rely on.\<close>

lemma ValidateID_plain_chars:
  "ValidateID s \<Longrightarrow> c \<in> set s \<Longrightarrow> c \<noteq> CHR ''/'' \<and> c \<noteq> CHR ''.'' \<and> c \<noteq> CHR ''@'' \<and> c \<noteq> newline"
  by (auto simp: ValidateID_def list_all_iff is_lower_hex_def is_digit_def newline_def)

lemma ValidateID_no_space: "ValidateID s \<Longrightarrow> no_space s"
  by (auto simp: ValidateID_def no_space_def list_all_iff is_lower_hex_no_space)

text \<open>Two valid IDs of which one is a prefix of the other are equal.\<close>

lemma ValidateID_prefix: "ValidateID s \<Longrightarrow> ValidateID t \<Longrightarrow> prefix s t \<Longrightarrow> s = t"
  by (auto simp: ValidateID_def prefix_def)

lemma GraphID_namespaced_valid: "is_namespaced i \<Longrightarrow> ValidateID (GraphID i)"
  by (cases i) (simp_all add: ValidateID_shaID_iff)

lemma GraphID_local_valid: "ValidateID (GraphID (LocalImageID p t))"
  by (simp add: ValidateID_shaID_iff)

lemma GraphID_container_valid: "ValidateID (GraphID (ContainerID c)) \<longleftrightarrow> c \<noteq> []"
  by (simp add: ValidateID_shaID_iff)

text \<open>
  When two IDs have the same graph ID: up to a collision of the hash, which is a hypothesis about
  the two strings at hand, exactly when they were made from the same parts.
\<close>

definition sha_distinct :: "string \<Rightarrow> string \<Rightarrow> bool" where
  "sha_distinct s t \<longleftrightarrow> (s \<noteq> t \<longrightarrow> shaID s \<noteq> shaID t)"

lemma GraphID_namespaced_inject:
  assumes "ValidateID (GraphID i)" and "ValidateID (GraphID j)"
    and "sha_distinct (GraphID i @ ''@'' @ k) (GraphID j @ ''@'' @ l)"
  shows "GraphID (NamespacedID i k) = GraphID (NamespacedID j l) \<longleftrightarrow> GraphID i = GraphID j \<and> k = l"
  using assms by (auto simp: NamespacedID_def sha_distinct_def ValidateID_def)

text \<open>
  The ID of a directory rootfs reads only the nanosecond part of its modification time: a
  directory modified again in another second at the same nanosecond keeps its ID.
\<close>

lemma GraphID_local_inject:
  assumes "sha_distinct (p @ ''-'' @ show_nat (nanosecond t)) (q @ ''-'' @ show_nat (nanosecond u))"
  shows "GraphID (LocalImageID p t) = GraphID (LocalImageID q u) \<longleftrightarrow>
    p = q \<and> nanosecond t = nanosecond u"
proof
  assume "GraphID (LocalImageID p t) = GraphID (LocalImageID q u)"
  with assms have "p @ CHR ''-'' # show_nat (nanosecond t) = q @ CHR ''-'' # show_nat (nanosecond u)"
    by (auto simp: sha_distinct_def)
  then show "p = q \<and> nanosecond t = nanosecond u" by (simp only: dash_number_inject)
qed simp

section \<open>Digests\<close>

text \<open>
  \<open>digest.Digest\<close> is a string \<open>algorithm:hex\<close>; its \<open>Hex\<close> panics on a string without a colon.
\<close>

type_synonym digest = string

definition Digest_Hex :: "digest \<Rightarrow> string outcome" where
  "Digest_Hex d = (case str_index d '':'' of
     None \<Rightarrow> Inl (Panic (''could not find ':' in digest: '' @ d))
   | Some i \<Rightarrow> Inr (drop (i + 1) d))"

definition digest_hex :: "digest \<Rightarrow> string outcome" where
  "digest_hex d = (if d = [] then Inr [] else Digest_Hex d)"

definition liftO :: "'a outcome \<Rightarrow> ('w, 'a) prog" where
  "liftO r = (\<lambda>w. (r, w))"

lemma liftO_run [simp]: "liftO r w = (r, w)"
  by (simp add: liftO_def)

lemma bindE_liftO_Inr [simp]: "bindE (liftO (Inr x)) k = k x"
  by (rule ext) (simp add: bindE_def)

lemma frame_liftO [frame_rules]: "frame v (liftO r)"
  by (simp add: frame_def)

lemma keeps_liftO [keeps_rules]: "keeps I (liftO r)"
  by (simp add: keeps_def)

text \<open>The canonical digest of some bytes, as \<open>StrongID\<close> makes it, and the graph ID it becomes.\<close>

definition canonical_digest :: "string \<Rightarrow> digest" where
  "canonical_digest bytes = ''sha256:'' @ sha256_hex bytes"

lemma digest_hex_sha256: "digest_hex (''sha256:'' @ h) = Inr h"
proof -
  have "str_index (''sha256'' @ CHR '':'' # h) '':'' = Some (length ''sha256'')"
    by (rule str_index_char_first) simp
  then show ?thesis by (simp add: digest_hex_def Digest_Hex_def)
qed

lemma digest_hex_canonical: "\<exists>s. digest_hex (canonical_digest bytes) = Inr s \<and> ValidateID s"
  by (simp add: canonical_digest_def digest_hex_sha256 [simplified])
     (simp add: ValidateID_def list_all_iff sha256_hex_lower_hex)

lemma digest_hex_panics_iff:
  "(\<exists>s. digest_hex d = Inl (Panic s)) \<longleftrightarrow> d \<noteq> [] \<and> CHR '':'' \<notin> set d"
  using str_index_char_None [of "CHR '':''" d] str_index_char_Some [of "CHR '':''" d]
  by (cases "CHR '':'' \<in> set d") (auto simp: digest_hex_def Digest_Hex_def)

section \<open>Validating a digest\<close>

text \<open>
  \<open>Digest.Validate\<close>: anything that contains a tarsum digest is accepted; otherwise the whole
  string must have the form \<open>algorithm:hex\<close> with one of the three SHA-2 algorithms.
\<close>

definition is_lower :: "char \<Rightarrow> bool" where
  "is_lower c \<longleftrightarrow> 97 \<le> (of_char c :: nat) \<and> (of_char c :: nat) \<le> 122"

definition is_upper :: "char \<Rightarrow> bool" where
  "is_upper c \<longleftrightarrow> 65 \<le> (of_char c :: nat) \<and> (of_char c :: nat) \<le> 90"

definition is_alnum :: "char \<Rightarrow> bool" where
  "is_alnum c \<longleftrightarrow> is_lower c \<or> is_upper c \<or> is_digit c"

definition is_hex :: "char \<Rightarrow> bool" where
  "is_hex c \<longleftrightarrow> is_lower_hex c \<or> (65 \<le> (of_char c :: nat) \<and> (of_char c :: nat) \<le> 70)"

text \<open>\<open>\+[a-zA-Z0-9]+:[A-Fa-f0-9]+\<close> at the start of the string.\<close>

definition tarsum_tail :: "string \<Rightarrow> bool" where
  "tarsum_tail s = (case s of
     [] \<Rightarrow> False
   | c # r \<Rightarrow> c = CHR ''+'' \<and> takeWhile is_alnum r \<noteq> [] \<and>
       (case dropWhile is_alnum r of
          x # y # _ \<Rightarrow> x = CHR '':'' \<and> is_hex y | _ \<Rightarrow> False))"

definition tarsum_here :: "string \<Rightarrow> bool" where
  "tarsum_here s \<longleftrightarrow> prefix ''tarsum'' s \<and>
     (let r = drop 6 s in tarsum_tail r \<or>
       (case r of [] \<Rightarrow> False
        | _ # r' \<Rightarrow> takeWhile (\<lambda>c. is_lower c \<or> is_digit c) r' \<noteq> [] \<and>
                   tarsum_tail (dropWhile (\<lambda>c. is_lower c \<or> is_digit c) r')))"

definition ParseTarSum_ok :: "string \<Rightarrow> bool" where
  "ParseTarSum_ok s \<longleftrightarrow> list_ex tarsum_here (suffixes s)"

definition digest_format :: "string \<Rightarrow> bool" where
  "digest_format s \<longleftrightarrow>
     (let a = takeWhile (\<lambda>c. c \<noteq> CHR '':'') s; h = drop (length a + 1) s
      in a \<noteq> [] \<and> h \<noteq> [] \<and> length a < length s \<and> list_all is_hex h \<and>
         list_all (\<lambda>c. is_alnum c \<or> c \<in> {CHR ''-'', CHR ''_'', CHR ''+'', CHR ''.''}) a)"

definition digest_Validate :: "digest \<Rightarrow> bool" where
  "digest_Validate d \<longleftrightarrow> ParseTarSum_ok d \<or>
     digest_format d \<and>
       takeWhile (\<lambda>c. c \<noteq> CHR '':'') d \<in> {''sha256'', ''sha384'', ''sha512''}"

lemma digest_Validate_empty: "\<not> digest_Validate []"
  by (simp add: digest_Validate_def ParseTarSum_ok_def tarsum_here_def digest_format_def)

text \<open>The \<open>Hex\<close> of a digest of the common form does not panic.\<close>

lemma digest_format_hex: "digest_format d \<Longrightarrow> CHR '':'' \<in> set d"
proof (rule ccontr)
  assume "digest_format d" and "CHR '':'' \<notin> set d"
  then have "takeWhile (\<lambda>c. c \<noteq> CHR '':'') d = d" by (auto simp: takeWhile_eq_all_conv)
  with \<open>digest_format d\<close> show False by (simp add: digest_format_def Let_def)
qed

lemma tarsum_tail_colon:
  assumes "tarsum_tail s"
  shows "CHR '':'' \<in> set s"
proof -
  from assms obtain c r y z where "s = c # r" and d: "dropWhile is_alnum r = CHR '':'' # y # z"
    by (auto simp: tarsum_tail_def split: list.splits)
  have "set (dropWhile is_alnum r) \<subseteq> set r" by (auto dest: set_dropWhileD)
  with d \<open>s = c # r\<close> show ?thesis by auto
qed

lemma tarsum_here_colon:
  assumes "tarsum_here s"
  shows "CHR '':'' \<in> set s"
proof -
  have drop: "set (drop 6 s) \<subseteq> set s" by (rule set_drop_subset)
  from assms consider (plain) "tarsum_tail (drop 6 s)"
    | (versioned) c r where "drop 6 s = c # r"
        and "tarsum_tail (dropWhile (\<lambda>c. is_lower c \<or> is_digit c) r)"
    by (auto simp: tarsum_here_def Let_def split: list.splits)
  then show ?thesis
  proof cases
    case plain
    with drop tarsum_tail_colon show ?thesis by blast
  next
    case versioned
    have "set (dropWhile (\<lambda>c. is_lower c \<or> is_digit c) r) \<subseteq> set r"
      by (auto dest: set_dropWhileD)
    with tarsum_tail_colon [OF versioned(2)] drop versioned(1) show ?thesis by auto
  qed
qed

lemma digest_Validate_colon:
  assumes "digest_Validate d"
  shows "CHR '':'' \<in> set d"
proof (cases "ParseTarSum_ok d")
  case True
  then obtain s where "suffix s d" and "tarsum_here s"
    by (auto simp: ParseTarSum_ok_def list_ex_iff)
  then show ?thesis using tarsum_here_colon set_mono_suffix by blast
next
  case False
  with assms show ?thesis by (simp add: digest_Validate_def digest_format_hex)
qed

lemma Digest_Hex_valid:
  assumes "digest_Validate d"
  obtains h where "Digest_Hex d = Inr h"
  using str_index_char_Some [OF digest_Validate_colon [OF assms]] that
  by (auto simp: Digest_Hex_def)

text \<open>\<open>Hex\<close> cuts a valid digest at its first colon.\<close>

lemma digest_hex_splits:
  assumes "digest_Validate d"
  shows "\<exists>a h. digest_hex d = Inr h \<and> d = a @ '':'' @ h \<and> CHR '':'' \<notin> set a"
proof -
  obtain a h where d: "d = a @ CHR '':'' # h" and a: "CHR '':'' \<notin> set a"
    using split_list_first [OF digest_Validate_colon [OF assms]] by blast
  have "str_index d '':'' = Some (length a)" unfolding d by (rule str_index_char_first [OF a])
  then have "digest_hex d = Inr h" by (simp add: digest_hex_def Digest_Hex_def d)
  with d a show ?thesis by auto
qed

lemma canonical_digest_Validate: "digest_Validate (canonical_digest bytes)"
proof -
  have "list_all is_hex (sha256_hex bytes)"
    by (simp add: list_all_iff is_hex_def sha256_hex_lower_hex)
  moreover have "sha256_hex bytes \<noteq> []"
    using length_sha256_hex [of bytes] by (metis list.size(3) zero_neq_numeral)
  ultimately have "digest_format (canonical_digest bytes)"
    by (simp add: digest_format_def canonical_digest_def is_alnum_def is_lower_def is_digit_def)
  moreover have "takeWhile (\<lambda>c. c \<noteq> CHR '':'') (canonical_digest bytes) = ''sha256''"
    by (simp add: canonical_digest_def)
  ultimately show ?thesis by (simp add: digest_Validate_def)
qed

lemma digest_round_trip_hex: "ValidateID (sha256_hex bytes)"
  by (simp add: ValidateID_def list_all_iff sha256_hex_lower_hex)

section \<open>What the IDs promise\<close>

text \<open>
  C29: Generated IDs are valid.  The graph IDs of local images and of namespaced layers always pass
  docker's \<open>ValidateID\<close>; that of a container does exactly when its handle is not empty.
\<close>

theorem GraphID_valid:
  "ValidateID (GraphID (LocalImageID p t)) \<and> ValidateID (GraphID (NamespacedID i key)) \<and>
    (ValidateID (GraphID (ContainerID c)) \<longleftrightarrow> c \<noteq> [])"
  using GraphID_local_valid GraphID_namespaced_valid [of "NamespacedID i key"] GraphID_container_valid
  by (simp add: NamespacedID_def)

text \<open>
  Local images by modification time.  The ID of a local directory depends on its path and only
  on the nanoseconds within the second of its modification time: a change by whole seconds keeps
  the ID.
\<close>

theorem local_id_whole_seconds:
  "GraphID (LocalImageID p (s, n)) = GraphID (LocalImageID p (s + k, n))"
  by (simp add: nanosecond_def)

text \<open>
  C30: Digests round trip.  A digest that \<open>Validate\<close> accepts, tarsums included, splits at its first
  colon: \<open>Hex\<close> does not panic on it, and the algorithm, a colon and the hex part give the digest back.
  The digest that the client computes for a configuration is accepted; its hex part is a valid graph
  ID and gives the digest back behind \<open>sha256:\<close>.
\<close>

theorem digest_round_trip:
  assumes "digest_Validate d"
  shows "(\<exists>a h. digest_hex d = Inr h \<and> d = a @ '':'' @ h \<and> CHR '':'' \<notin> set a) \<and>
    digest_Validate (canonical_digest bytes) \<and>
    (\<exists>h. digest_hex (canonical_digest bytes) = Inr h \<and> ValidateID h \<and> ''sha256:'' @ h = canonical_digest bytes)"
proof -
  have "digest_hex (canonical_digest bytes) = Inr (sha256_hex bytes)"
    unfolding canonical_digest_def by (rule digest_hex_sha256)
  then show ?thesis
    using digest_hex_splits [OF assms] canonical_digest_Validate digest_round_trip_hex
    by (auto simp: canonical_digest_def)
qed

lemma digest_round_trip_witness:
  "\<exists>a h. digest_hex ''tarsum+sha256:ab'' = Inr h \<and> ''tarsum+sha256:ab'' = a @ '':'' @ h \<and> CHR '':'' \<notin> set a"
proof -
  have "digest_Validate ''tarsum+sha256:ab''" by code_simp
  from digest_round_trip [OF this] show ?thesis by blast
qed

end
