(* ===== verification/Quotaed_Reader.thy ===== *)
theory Quotaed_Reader
  imports Layer_Ids
begin

text \<open>
  Byte streams and \<open>src/quotaedreader/quotaed_reader.go\<close>.

  A reader is a state \<open>'r\<close> with a \<open>Read\<close> that is given the length of the buffer and returns the
  bytes it put there and an error, Go's \<open>(n, err)\<close>.  \<open>reader\<close> is a scripted reader: what each call
  can deliver, then either the end or an error; every finite behaviour of an \<open>io.Reader\<close> that
  keeps to its contract is such a script.  \<open>quotaed\<close> is the code's \<open>QuotaedReader\<close> over any
  delegate.  \<open>io_copy\<close> is \<open>io.Copy\<close> with its 32 KiB buffer, with fuel for its loop.

  The locale \<open>byte_reader\<close> is the contract of \<open>io.Reader\<close> that \<open>io.Copy\<close> relies on, with the fact
  that the loop ends proved inside it; both readers are interpretations.
\<close>

section \<open>Readers\<close>

type_synonym 'r reading = "nat \<Rightarrow> ('r, string \<times> go_error option) prog"

datatype chunk = Data string | Fault go_error

type_synonym reader = "chunk list"

fun script_read :: "reader reading" where
  "script_read n [] = (Inr ([], Some EOF), [])"
| "script_read n (Data s # rs) =
     (if length s \<le> n then (Inr (s, None), rs)
      else (Inr (take n s, None), Data (drop n s) # rs))"
| "script_read n (Fault e # rs) = (Inr ([], Some e), Fault e # rs)"

text \<open>The bytes before the first error of a script, and that error.\<close>

fun script_data :: "reader \<Rightarrow> string" where
  "script_data [] = []"
| "script_data (Data s # rs) = s @ script_data rs"
| "script_data (Fault e # rs) = []"

fun script_fault :: "reader \<Rightarrow> go_error option" where
  "script_fault [] = None"
| "script_fault (Data s # rs) = script_fault rs"
| "script_fault (Fault e # rs) = (if e = EOF then None else Some e)"

section \<open>The quotaed reader\<close>

record 'r quotaed =
  DelegateReader :: 'r
  QuotaLeft :: int64

definition New :: "'r \<Rightarrow> int64 \<Rightarrow> 'r quotaed" where
  "New r quotaLeft = \<lparr>DelegateReader = r, QuotaLeft = quotaLeft\<rparr>"

text \<open>
  \<open>p[0 : q.QuotaLeft+1]\<close> is taken when the buffer is longer than what is left; it panics when the
  bound is negative.
\<close>

definition buffer_length :: "nat \<Rightarrow> int64 \<Rightarrow> int" where
  "buffer_length n quotaLeft =
     (if int n > sint quotaLeft then sint (quotaLeft + 1) else int n)"

definition Read :: "'r reading \<Rightarrow> 'r quotaed reading" where
  "Read read n q =
     (if buffer_length n (QuotaLeft q) < 0 then (Inl (Panic ''slice bounds out of range''), q)
      else case read (nat (buffer_length n (QuotaLeft q))) (DelegateReader q) of
        (Inl f, d) \<Rightarrow> (Inl f, q\<lparr>DelegateReader := d\<rparr>)
      | (Inr (s, e), d) \<Rightarrow>
          (let left = QuotaLeft q - word_of_int (int (length s));
               q' = q\<lparr>DelegateReader := d, QuotaLeft := left\<rparr>
           in if sint left < 0 then (Inr (s, Some QuotaExceededErr), q') else (Inr (s, e), q')))"

section \<open>Copying a stream\<close>

text \<open>
  \<open>io.Copy(dst, src)\<close>: \<open>wr acc s\<close> is the error, if any, of writing \<open>s\<close> when \<open>acc\<close> was written
  before.  The result is the bytes written and the error; \<open>None\<close> is a loop that ran out of fuel.
\<close>

definition copy_buffer :: nat where
  "copy_buffer = 32768"

fun io_copy ::
  "'r reading \<Rightarrow> (string \<Rightarrow> string \<Rightarrow> go_error option) \<Rightarrow> nat \<Rightarrow> string \<Rightarrow> 'r \<Rightarrow>
    ((string \<times> go_error option) outcome \<times> 'r) option" where
  "io_copy read wr 0 acc r = None"
| "io_copy read wr (Suc fuel) acc r =
     (case read copy_buffer r of
        (Inl f, r') \<Rightarrow> Some (Inl f, r')
      | (Inr (s, e), r') \<Rightarrow>
          (case (if s = [] then None else wr acc s) of
             Some we \<Rightarrow> Some (Inr (acc, Some we), r')
           | None \<Rightarrow>
               (case e of
                  None \<Rightarrow> io_copy read wr fuel (acc @ s) r'
                | Some err \<Rightarrow>
                    Some (Inr (acc @ s, if err = EOF then None else Some err), r'))))"

declare io_copy.simps(2) [simp del]

abbreviation no_write_error :: "string \<Rightarrow> string \<Rightarrow> go_error option" where
  "no_write_error \<equiv> (\<lambda>_ _. None)"

text \<open>
  The contract of \<open>io.Reader\<close>: no more bytes than fit, no panic, and progress unless an error is
  reported, in a measure \<open>todo\<close> of what is still to come.  The length of a buffer is an \<open>int\<close>.
\<close>

definition is_length :: "nat \<Rightarrow> bool" where
  "is_length n \<longleftrightarrow> int n \<le> max_int64"

lemma is_length_copy_buffer: "is_length copy_buffer"
  by (simp add: is_length_def copy_buffer_def max_int64_def)

locale byte_reader =
  fixes read :: "'r reading"
    and todo :: "'r \<Rightarrow> nat"
    and ok :: "'r \<Rightarrow> bool"
  assumes read_bound: "ok r \<Longrightarrow> is_length n \<Longrightarrow> read n r = (Inr (s, e), r') \<Longrightarrow> length s \<le> n"
    and read_ok: "ok r \<Longrightarrow> is_length n \<Longrightarrow> read n r = (x, r') \<Longrightarrow>
          (\<exists>s e. x = Inr (s, e) \<and> (e = None \<longrightarrow> ok r'))"
    and read_progress: "ok r \<Longrightarrow> is_length n \<Longrightarrow> 0 < n \<Longrightarrow> read n r = (Inr (s, None), r') \<Longrightarrow>
          todo r' < todo r"
begin

lemma read_cases:
  assumes "ok r" and "is_length n"
  obtains s e r' where "read n r = (Inr (s, e), r')" and "length s \<le> n"
    and "e = None \<Longrightarrow> ok r'" and "e = None \<Longrightarrow> 0 < n \<Longrightarrow> todo r' < todo r"
proof -
  obtain x r' where x: "read n r = (x, r')" by (cases "read n r")
  from read_ok [OF assms x] obtain s e where se: "x = Inr (s, e)" "e = None \<Longrightarrow> ok r'" by blast
  show ?thesis
  proof (rule that)
    show "read n r = (Inr (s, e), r')" using x se by simp
    then show "length s \<le> n" by (rule read_bound [OF assms])
    show "e = None \<Longrightarrow> ok r'" by (rule se(2))
    show "e = None \<Longrightarrow> 0 < n \<Longrightarrow> todo r' < todo r"
      using read_progress [OF assms] x se(1) by blast
  qed
qed

text \<open>Enough fuel is one more than the measure; the copy then returns and does not panic.\<close>

lemma copy_returns:
  "ok r \<Longrightarrow> todo r < fuel \<Longrightarrow> \<exists>t e r'. io_copy read wr fuel acc r = Some (Inr (t, e), r')"
proof (induction fuel arbitrary: acc r)
  case 0
  then show ?case by simp
next
  case (Suc fuel)
  obtain s e r' where r: "read copy_buffer r = (Inr (s, e), r')"
    and ok': "e = None \<Longrightarrow> ok r'" and less: "e = None \<Longrightarrow> 0 < copy_buffer \<Longrightarrow> todo r' < todo r"
    using read_cases [OF Suc.prems(1) is_length_copy_buffer] by metis
  have "0 < copy_buffer" by (simp add: copy_buffer_def)
  then have "e = None \<Longrightarrow> ok r' \<and> todo r' < fuel" using ok' less Suc.prems(2) by auto
  then show ?case using Suc.IH
    by (cases e; cases "if s = [] then None else wr acc s") (auto simp: io_copy.simps(2) r)
qed

end

section \<open>The scripted reader keeps the contract\<close>

primrec script_todo :: "reader \<Rightarrow> nat" where
  "script_todo [] = 0"
| "script_todo (c # cs) = Suc ((case c of Data s \<Rightarrow> length s | Fault _ \<Rightarrow> 0) + script_todo cs)"

lemma script_read_bound: "script_read n r = (Inr (s, e), r') \<Longrightarrow> length s \<le> n"
  by (cases "(n, r)" rule: script_read.cases) (auto split: if_splits)

lemma script_read_ok: "\<exists>s e r'. script_read n r = (Inr (s, e), r')"
  by (cases "(n, r)" rule: script_read.cases) auto

lemma script_read_progress:
  "0 < n \<Longrightarrow> script_read n r = (Inr (s, None), r') \<Longrightarrow> script_todo r' < script_todo r"
  by (cases "(n, r)" rule: script_read.cases) (auto split: if_splits)

interpretation scripted: byte_reader script_read script_todo "\<lambda>_. True"
proof unfold_locales
  fix n r s e r'
  show "script_read n r = (Inr (s, e), r') \<Longrightarrow> length s \<le> n" by (rule script_read_bound)
  show "0 < n \<Longrightarrow> script_read n r = (Inr (s, None), r') \<Longrightarrow> script_todo r' < script_todo r"
    by (rule script_read_progress)
next
  fix n r x r'
  assume "script_read n r = (x, r')"
  then show "\<exists>s e. x = Inr (s, e) \<and> (e = None \<longrightarrow> True)"
    using script_read_ok [of n r] by auto
qed

text \<open>One read of a script: what it delivers is the front of the data, and the rest stays.\<close>

lemma script_read_None:
  assumes "script_read n r = (Inr (s, None), r')"
  shows "script_data r = s @ script_data r' \<and> script_fault r = script_fault r'"
  using assms by (cases "(n, r)" rule: script_read.cases) (auto split: if_splits)

lemma script_read_Some:
  assumes "script_read n r = (Inr (s, Some e), r')"
  shows "s = [] \<and> script_data r = [] \<and> script_fault r = (if e = EOF then None else Some e)"
  using assms by (cases "(n, r)" rule: script_read.cases) (auto split: if_splits)

text \<open>A copy of the script alone delivers all its data, then its error.\<close>

lemma script_copy:
  "script_todo r < fuel \<Longrightarrow> \<exists>r'. io_copy script_read no_write_error fuel acc r
     = Some (Inr (acc @ script_data r, script_fault r), r')"
proof (induction fuel arbitrary: acc r)
  case (Suc fuel)
  obtain s e r' where r: "script_read copy_buffer r = (Inr (s, e), r')"
    using script_read_ok by blast
  show ?case
  proof (cases e)
    case None
    with r Suc.prems have "script_todo r' < fuel"
      using script_read_progress [of copy_buffer r s r'] by (simp add: copy_buffer_def)
    from Suc.IH [OF this, of "acc @ s"] script_read_None [OF r [unfolded None]] show ?thesis
      by (auto simp: io_copy.simps(2) r None)
  next
    case (Some err)
    with script_read_Some [OF r [unfolded Some]] show ?thesis by (simp add: io_copy.simps(2) r)
  qed
qed simp

section \<open>The quotaed reader keeps the contract\<close>

text \<open>
  What is left never falls below -1 if it starts there: a read takes at most one byte too many,
  and then reports the error.
\<close>

lemma sint_succ: "sint left < max_int64 \<Longrightarrow> sint ((left :: int64) + 1) = sint left + 1"
  using sint_in_int64 [of left] sint_plus_id [of left 1] by (auto simp: in_int64_def)

lemma buffer_length_eq:
  "is_length n \<Longrightarrow> buffer_length n left = (if int n > sint left then sint left + 1 else int n)"
  by (auto simp: buffer_length_def is_length_def intro!: sint_succ)

lemma left_after_read:
  assumes "is_length n" and "- 1 \<le> sint left" and "int k \<le> buffer_length n left"
  shows "sint (left - word_of_int (int k)) = sint left - int k" and "int k \<le> sint left + 1"
proof -
  show k: "int k \<le> sint left + 1"
    using assms by (auto simp: buffer_length_eq split: if_splits)
  have "int k \<le> max_int64"
    using assms sint_in_int64 [of left]
    by (auto simp: buffer_length_eq is_length_def in_int64_def split: if_splits)
  then have "sint (word_of_int (int k) :: int64) = int k"
    by (intro sint_of_int_id) (simp add: in_int64_def max_int64_def)
  moreover have "in_int64 (sint left - int k)"
    using k assms(2) sint_in_int64 [of left] by (auto simp: in_int64_def max_int64_def)
  ultimately show "sint (left - word_of_int (int k)) = sint left - int k"
    by (subst sint_minus_id) auto
qed

text \<open>One read of a quotaed reader, from one read of its delegate.\<close>

lemma Read_step:
  assumes n: "is_length n" and left: "- 1 \<le> sint (QuotaLeft q)"
    and r: "read (nat (buffer_length n (QuotaLeft q))) (DelegateReader q) = (Inr (s, e), d)"
    and s: "length s \<le> nat (buffer_length n (QuotaLeft q))"
  defines "q' \<equiv> q\<lparr>DelegateReader := d, QuotaLeft := QuotaLeft q - word_of_int (int (length s))\<rparr>"
  shows "Read read n q = (Inr (s, if int (length s) = sint (QuotaLeft q) + 1
                                  then Some QuotaExceededErr else e), q')"
    and "sint (QuotaLeft q') = sint (QuotaLeft q) - int (length s)"
    and "int (length s) \<le> sint (QuotaLeft q) + 1"
proof -
  have nn: "0 \<le> buffer_length n (QuotaLeft q)" using n left by (simp add: buffer_length_eq)
  then have len: "int (length s) \<le> buffer_length n (QuotaLeft q)" using s by linarith
  from left_after_read [OF n left len]
  show v: "sint (QuotaLeft q') = sint (QuotaLeft q) - int (length s)"
    and b: "int (length s) \<le> sint (QuotaLeft q) + 1" by (auto simp: q'_def)
  show "Read read n q = (Inr (s, if int (length s) = sint (QuotaLeft q) + 1
                                  then Some QuotaExceededErr else e), q')"
    using nn v b by (auto simp: Read_def r q'_def Let_def)
qed

context byte_reader
begin

lemma quotaed_byte_reader:
  "byte_reader (Read read) (\<lambda>q. todo (DelegateReader q))
     (\<lambda>q. - 1 \<le> sint (QuotaLeft q) \<and> ok (DelegateReader q))"
proof -
  have step: "\<exists>s e q'. Read read n q = (Inr (s, e), q') \<and> length s \<le> n
      \<and> (e = None \<longrightarrow> - 1 \<le> sint (QuotaLeft q') \<and> ok (DelegateReader q'))
      \<and> (e = None \<longrightarrow> 0 < n \<longrightarrow> todo (DelegateReader q') < todo (DelegateReader q))"
    if n: "is_length n" and q: "- 1 \<le> sint (QuotaLeft q)" and ok: "ok (DelegateReader q)" for n q
  proof -
    let ?m = "nat (buffer_length n (QuotaLeft q))"
    have m: "?m \<le> n" "is_length ?m"
      using n q by (auto simp: buffer_length_eq is_length_def)
    obtain s e d where r: "read ?m (DelegateReader q) = (Inr (s, e), d)" and s: "length s \<le> ?m"
      and ok': "e = None \<Longrightarrow> ok d"
      and less: "e = None \<Longrightarrow> 0 < ?m \<Longrightarrow> todo d < todo (DelegateReader q)"
      using read_cases [OF ok m(2)] by metis
    note rd = Read_step [where n = n and q = q and read = read, OF n q r s]
    have "0 < ?m" if "int (length s) \<noteq> sint (QuotaLeft q) + 1" "0 < n"
      using that rd(3) n by (auto simp: buffer_length_eq)
    with rd s m ok' less show ?thesis by auto
  qed
  show ?thesis
    by unfold_locales (use step in fastforce)+
qed

end

interpretation quotaed_script: byte_reader "Read script_read" "\<lambda>q. script_todo (DelegateReader q)"
    "\<lambda>q. - 1 \<le> sint (QuotaLeft q) \<and> True"
  by (rule scripted.quotaed_byte_reader)

section \<open>What a quotaed copy delivers\<close>

text \<open>
  With at least the data's length left the quota is invisible; otherwise exactly one byte more
  than the quota is delivered, and then the quota error.
\<close>

definition quotaed_result :: "reader \<Rightarrow> int64 \<Rightarrow> string \<times> go_error option" where
  "quotaed_result r left =
     (if int (length (script_data r)) > sint left
      then (take (nat (sint left + 1)) (script_data r), Some QuotaExceededErr)
      else (script_data r, script_fault r))"

lemma quotaed_result_append:
  assumes "script_data r = s @ script_data d" and "script_fault r = script_fault d"
    and "sint left' = sint left - int (length s)" and "int (length s) \<le> sint left"
  shows "quotaed_result r left = (s @ fst (quotaed_result d left'), snd (quotaed_result d left'))"
proof -
  have "nat (sint left + 1) - length s = nat (sint left' + 1)" using assms(3,4) by linarith
  with assms show ?thesis by (auto simp: quotaed_result_def)
qed

lemma quotaed_script_copy:
  assumes "script_todo (DelegateReader q) < fuel" and "- 1 \<le> sint (QuotaLeft q)"
    and "quotaed_result (DelegateReader q) (QuotaLeft q) = (t, e)"
  shows "\<exists>q'. io_copy (Read script_read) no_write_error fuel acc q = Some (Inr (acc @ t, e), q')"
  using assms
proof (induction fuel arbitrary: acc q t)
  case (Suc fuel)
  let ?r = "DelegateReader q" and ?left = "QuotaLeft q"
  let ?m = "nat (buffer_length copy_buffer ?left)"
  obtain s err d where r: "script_read ?m ?r = (Inr (s, err), d)"
    using script_read_ok by blast
  note s = script_read_bound [OF r]
  let ?q' = "q\<lparr>DelegateReader := d, QuotaLeft := ?left - word_of_int (int (length s))\<rparr>"
  note rd = Read_step [where n = copy_buffer and q = q and read = script_read,
      OF is_length_copy_buffer Suc.prems(2) r s]
  consider (over) "int (length s) = sint ?left + 1"
    | (last) x where "int (length s) \<le> sint ?left" "err = Some x"
    | (more) "int (length s) \<le> sint ?left" "err = None"
    using rd(3) by (cases err) force+
  then show ?case
  proof cases
    case over
    have "script_data ?r = s @ (if err = None then script_data d else [])"
      using script_read_None [of ?m ?r s d] script_read_Some [of ?m ?r s _ d] r by (cases err) auto
    with Suc.prems(3) over have "t = s" "e = Some QuotaExceededErr"
      by (auto simp: quotaed_result_def split: if_splits)
    then show ?thesis using rd(1) over by (simp add: io_copy.simps(2))
  next
    case last
    with script_read_Some [OF r [unfolded last(2)]] Suc.prems(3) rd(1) show ?thesis
      by (auto simp: io_copy.simps(2) quotaed_result_def split: if_splits)
  next
    case more
    note d = script_read_None [OF r [unfolded more(2)]]
    have "0 < buffer_length copy_buffer ?left"
      by (subst buffer_length_eq [OF is_length_copy_buffer]) (use more(1) in \<open>auto simp: copy_buffer_def\<close>)
    then have "0 < ?m" by simp
    then have "script_todo d < fuel"
      using script_read_progress [OF _ r [unfolded more(2)]] Suc.prems(1) by simp
    moreover have "- 1 \<le> sint (QuotaLeft ?q')" using more(1) rd(2) by simp
    moreover obtain t' where t: "quotaed_result d (QuotaLeft ?q') = (t', e)" "t = s @ t'"
      using Suc.prems(3) d rd(2) more(1)
        quotaed_result_append [of ?r s d "QuotaLeft ?q'" ?left]
      by (cases "quotaed_result d (QuotaLeft ?q')") auto
    ultimately have "\<exists>q''. io_copy (Read script_read) no_write_error fuel (acc @ s) ?q'
          = Some (Inr (acc @ t, e), q'')"
      using Suc.IH [of ?q' t' "acc @ s"] by simp
    then show ?thesis using rd(1) more by (auto simp: io_copy.simps(2))
  qed
qed simp

section \<open>What a quota lets through\<close>

text \<open>
  C20: Copying through a quota.  \<open>io.Copy\<close> from a \<open>QuotaedReader\<close> returns; a stream of at most
  \<open>quotaLeft\<close> bytes comes out whole with its own end, and of a longer one exactly \<open>quotaLeft + 1\<close>
  bytes are read before the copy ends with the quota error.
\<close>

theorem quota_copy:
  assumes "- 1 \<le> sint quotaLeft" and "script_todo r < fuel"
  shows "\<exists>q. io_copy (Read script_read) no_write_error fuel [] (New r quotaLeft) = Some (Inr
    (if int (length (script_data r)) > sint quotaLeft
     then (take (nat (sint quotaLeft + 1)) (script_data r), Some QuotaExceededErr)
     else (script_data r, script_fault r)), q)"
  using quotaed_script_copy [of "New r quotaLeft" fuel _ _ "[]"] assms
  by (auto simp: New_def quotaed_result_def split: if_splits)

lemma quota_copy_witness:
  "\<exists>q. io_copy (Read script_read) no_write_error 99 [] (New [Data ''abc'', Data ''de''] 3) =
    Some (Inr (''abcd'', Some QuotaExceededErr), q)"
  using quota_copy [of 3 "[Data ''abc'', Data ''de'']" 99] by simp

text \<open>
  C21: One read through a quota.  Whatever the reader below returns within the buffer it is given, a
  read takes its length off the quota without wrap-around, hands out at most one byte more than the
  quota left, and reports the quota error exactly when that one byte was read.
\<close>

theorem quota_read:
  assumes "is_length n" and "- 1 \<le> sint (QuotaLeft q)"
    and "read (nat (buffer_length n (QuotaLeft q))) (DelegateReader q) = (Inr (s, e), d)"
    and "length s \<le> nat (buffer_length n (QuotaLeft q))"
  shows "\<exists>q'. Read read n q =
      (Inr (s, if int (length s) = sint (QuotaLeft q) + 1 then Some QuotaExceededErr else e), q') \<and>
    DelegateReader q' = d \<and> sint (QuotaLeft q') = sint (QuotaLeft q) - int (length s) \<and>
    int (length s) \<le> sint (QuotaLeft q) + 1 \<and> length s \<le> n"
proof -
  note step = Read_step [where read = read, OF assms]
  have "length s \<le> n"
    using assms(1,2,4) by (auto simp: buffer_length_eq split: if_splits)
  with step show ?thesis by simp
qed

lemma quota_read_witness:
  "\<exists>q'. Read script_read 10 (New [Data ''abc''] 2) = (Inr (''abc'', Some QuotaExceededErr), q')"
  using quota_read [of 10 "New [Data ''abc''] 2" script_read "''abc''" None "[]"]
  by (auto simp: New_def is_length_def max_int64_def buffer_length_def)

end
