(* ===== verification/Os_Files.thy ===== *)
theory Os_Files
  imports Go_Strings
begin

text \<open>
  The parts of Go's \<open>os\<close>, \<open>io/ioutil\<close> and \<open>path/filepath\<close> packages that garden-shed calls.

  A file system is a map from cleaned path names to inodes; a path argument is cleaned before it
  is looked up, as the kernel would resolve it.  Symbolic links are followed in the last
  component only (at most forty times, as Linux does); permissions are not checked.  Every
  operation first consults \<open>os_fault\<close>, an arbitrary table of errors, so that an operation can
  also fail for reasons outside the model (a full disk, a read-only mount): a theorem that does
  not speak about \<open>os_fault\<close> holds for every such table.

  The world is an extensible record: \<open>os_state\<close> holds the files, and later theories add the
  image store, the driver's state and so on behind it.
\<close>

section \<open>Path names\<close>

abbreviation slash :: char where
  "slash \<equiv> CHR ''/''"

text \<open>\<open>filepath.Clean\<close>, component by component; \<open>st\<close> holds the output so far, reversed.\<close>

fun clean_comps :: "bool \<Rightarrow> string list \<Rightarrow> string list \<Rightarrow> string list" where
  "clean_comps r st [] = rev st"
| "clean_comps r st (c # cs) =
     (if c = [] \<or> c = ''.'' then clean_comps r st cs
      else if c = ''..'' then
        (case st of
           [] \<Rightarrow> if r then clean_comps r [] cs else clean_comps r [c] cs
         | t # st' \<Rightarrow> if t = ''..'' then clean_comps r (c # st) cs else clean_comps r st' cs)
      else clean_comps r (c # st) cs)"

definition is_abs :: "string \<Rightarrow> bool" where
  "is_abs p \<longleftrightarrow> prefix ''/'' p"

definition abs_path :: "string list \<Rightarrow> string" where
  "abs_path cs = slash # join_with slash cs"

definition path_clean :: "string \<Rightarrow> string" where
  "path_clean p =
     (if p = [] then ''.''
      else let cs = clean_comps (is_abs p) [] (split_on slash p)
           in if is_abs p then abs_path cs else if cs = [] then ''.'' else join_with slash cs)"

text \<open>\<open>filepath.Join\<close>: leading empty elements are ignored, the rest is joined and cleaned.\<close>

definition path_join :: "string list \<Rightarrow> string" where
  "path_join es =
     (case dropWhile (\<lambda>e. e = []) es of [] \<Rightarrow> [] | es' \<Rightarrow> path_clean (join_with slash es'))"

text \<open>\<open>filepath.Dir\<close> and \<open>path.Base\<close>.\<close>

definition path_dir :: "string \<Rightarrow> string" where
  "path_dir p = path_clean (rev (dropWhile (\<lambda>c. c \<noteq> slash) (rev p)))"

definition path_base :: "string \<Rightarrow> string" where
  "path_base p =
     (if p = [] then ''.''
      else let q = dropWhile (\<lambda>c. c = slash) (rev p)
           in if q = [] then ''/'' else rev (takeWhile (\<lambda>c. c \<noteq> slash) q))"

text \<open>A component that \<open>Clean\<close> leaves alone, and a path that it leaves alone.\<close>

definition plain_name :: "string \<Rightarrow> bool" where
  "plain_name n \<longleftrightarrow> n \<noteq> [] \<and> n \<noteq> ''.'' \<and> n \<noteq> ''..'' \<and> slash \<notin> set n"

definition clean_abs :: "string \<Rightarrow> bool" where
  "clean_abs p \<longleftrightarrow> is_abs p \<and> path_clean p = p"

lemma clean_comps_plain:
  "list_all plain_name cs \<Longrightarrow> clean_comps r st cs = rev st @ cs"
  by (induction cs arbitrary: st) (auto simp: plain_name_def)

lemma clean_comps_result:
  "(\<And>c. c \<in> set cs \<Longrightarrow> slash \<notin> set c) \<Longrightarrow> list_all plain_name st \<Longrightarrow>
    list_all plain_name (clean_comps True st cs)"
  by (induction "True" st cs rule: clean_comps.induct)
     (auto simp: plain_name_def split: list.splits)

lemma is_abs_abs_path [simp]: "is_abs (abs_path cs)"
  by (simp add: is_abs_def abs_path_def)

lemma split_abs_path:
  "list_all plain_name cs \<Longrightarrow> split_on slash (abs_path cs) = [] # (if cs = [] then [[]] else cs)"
  by (auto simp: abs_path_def plain_name_def list_all_iff split_join)

lemma path_clean_abs_path: "list_all plain_name cs \<Longrightarrow> path_clean (abs_path cs) = abs_path cs"
  by (simp add: path_clean_def split_abs_path clean_comps_plain)
     (simp add: abs_path_def)

lemma clean_abs_abs_path: "list_all plain_name cs \<Longrightarrow> clean_abs (abs_path cs)"
  by (simp add: clean_abs_def path_clean_abs_path)

lemma clean_abs_comps:
  assumes "clean_abs p"
  obtains cs where "p = abs_path cs" and "list_all plain_name cs"
proof
  let ?cs = "clean_comps True [] (split_on slash p)"
  show "list_all plain_name ?cs"
    by (rule clean_comps_result) (auto dest: split_on_parts)
  have "p \<noteq> []" using assms by (auto simp: clean_abs_def is_abs_def)
  then have "path_clean p = abs_path ?cs"
    using assms by (simp add: path_clean_def clean_abs_def)
  then show "p = abs_path ?cs" using assms by (simp add: clean_abs_def)
qed

lemma abs_path_inject:
  "list_all plain_name cs \<Longrightarrow> list_all plain_name ds \<Longrightarrow> abs_path cs = abs_path ds \<longleftrightarrow> cs = ds"
proof
  assume cd: "list_all plain_name cs" "list_all plain_name ds" and eq: "abs_path cs = abs_path ds"
  from arg_cong [OF eq, of "split_on slash"] cd
  show "cs = ds"
    by (auto simp: split_abs_path plain_name_def split: if_splits)
qed simp

lemma join_with_append: "xs \<noteq> [] \<Longrightarrow> ys \<noteq> [] \<Longrightarrow>
    join_with c (xs @ ys) = join_with c xs @ c # join_with c ys"
  by (induction xs rule: join_with.induct) (auto simp: join_with_Cons)

lemma split_on_concat: "split_on c (a @ c # b) = split_on c a @ split_on c b"
proof (induction a)
  case (Cons x a)
  then show ?case by (cases "split_on c a") auto
qed simp

lemma path_join_plain:
  assumes "list_all plain_name cs" and "plain_name n"
  shows "path_join [abs_path cs, n] = abs_path (cs @ [n])"
proof -
  have ns: "slash \<notin> set n" using assms(2) by (simp add: plain_name_def)
  have "split_on slash (abs_path cs @ slash # n) = [] # (if cs = [] then [[]] else cs) @ [n]"
    using assms(1) by (simp only: split_on_concat split_abs_path) (simp add: split_on_notin ns)
  moreover have "clean_comps True [] (cs @ [n]) = cs @ [n]"
    using assms by (simp add: clean_comps_plain)
  moreover have "is_abs (abs_path cs @ slash # n)" and "abs_path cs \<noteq> []"
    by (simp_all add: is_abs_def abs_path_def)
  ultimately show ?thesis
    using assms(2) by (auto simp: path_join_def path_clean_def plain_name_def)
qed

lemma path_join_plain2:
  assumes "list_all plain_name cs" and "plain_name m" and "plain_name n"
  shows "path_join [abs_path cs, m, n] = abs_path (cs @ [m, n])"
proof -
  have ns: "slash \<notin> set n" "slash \<notin> set m" using assms(2,3) by (simp_all add: plain_name_def)
  have "split_on slash (abs_path cs @ slash # m @ slash # n)
      = [] # (if cs = [] then [[]] else cs) @ [m, n]"
    using assms(1) by (simp only: split_on_concat split_abs_path) (simp add: split_on_notin ns)
  moreover have "clean_comps True [] (cs @ [m, n]) = cs @ [m, n]"
    using assms by (simp add: clean_comps_plain)
  moreover have "is_abs (abs_path cs @ slash # m @ slash # n)" and "abs_path cs \<noteq> []"
    by (simp_all add: is_abs_def abs_path_def)
  ultimately show ?thesis
    using assms(2,3) by (auto simp: path_join_def path_clean_def plain_name_def)
qed

lemma join_with_map: "xs \<noteq> [] \<Longrightarrow> split_on slash (join_with slash (abs_path cs # xs)) =
    split_on slash (abs_path cs) @ split_on slash (join_with slash xs)"
  by (simp add: join_with_Cons split_on_concat)

lemma path_join_all:
  assumes "list_all plain_name cs" and "list_all plain_name ns" and "ns \<noteq> []"
  shows "path_join (abs_path cs # ns) = abs_path (cs @ ns)"
proof -
  have "split_on slash (join_with slash ns) = ns"
    using assms(2,3) by (intro split_join) (auto simp: plain_name_def list_all_iff)
  then have "split_on slash (join_with slash (abs_path cs # ns)) =
      [] # (if cs = [] then [[]] else cs) @ ns"
    using assms by (simp add: join_with_map split_abs_path)
  moreover have "clean_comps True [] (cs @ ns) = cs @ ns"
    using assms by (simp add: clean_comps_plain)
  moreover have "is_abs (join_with slash (abs_path cs # ns))" and "abs_path cs \<noteq> []"
    using assms(3) by (simp_all add: join_with_Cons is_abs_def abs_path_def)
  moreover have "join_with slash (abs_path cs # ns) \<noteq> []"
    using assms(3) by (simp add: join_with_Cons abs_path_def)
  ultimately show ?thesis
    by (auto simp: path_join_def path_clean_def)
qed

text \<open>Joining plain names to a clean directory is injective in the name.\<close>

lemma path_join_inject:
  assumes "clean_abs d" and "plain_name m" and "plain_name n"
  shows "path_join [d, m] = path_join [d, n] \<longleftrightarrow> m = n"
proof -
  obtain cs where d: "d = abs_path cs" "list_all plain_name cs"
    using assms(1) by (rule clean_abs_comps)
  then show ?thesis using assms(2,3) by (simp add: path_join_plain abs_path_inject)
qed

lemma clean_abs_join: "clean_abs d \<Longrightarrow> plain_name n \<Longrightarrow> clean_abs (path_join [d, n])"
  by (erule clean_abs_comps) (simp add: path_join_plain clean_abs_abs_path)

lemma path_join_neq_dir: "clean_abs d \<Longrightarrow> plain_name n \<Longrightarrow> path_join [d, n] \<noteq> d"
  by (erule clean_abs_comps) (simp add: path_join_plain abs_path_inject)

lemma clean_abs_clean [simp]: "clean_abs p \<Longrightarrow> path_clean p = p"
  by (simp add: clean_abs_def)

lemma dropWhile_neq_append: "c \<notin> set xs \<Longrightarrow> dropWhile (\<lambda>x. x \<noteq> c) (xs @ c # ys) = c # ys"
  by (induction xs) auto

lemma path_dir_join:
  assumes "clean_abs d" and "plain_name n"
  shows "path_dir (path_join [d, n]) = d"
proof -
  obtain cs where d: "d = abs_path cs" "list_all plain_name cs"
    using assms(1) by (rule clean_abs_comps)
  have ns: "slash \<notin> set n" using assms(2) by (simp add: plain_name_def)
  show ?thesis
  proof (cases "cs = []")
    case True
    have "path_join [d, n] = slash # n"
      using True d assms(2) by (simp add: path_join_plain) (simp add: abs_path_def)
    moreover have "dropWhile (\<lambda>c. c \<noteq> slash) (rev n @ [slash]) = [slash]"
      using ns by (simp add: dropWhile_neq_append)
    ultimately have "path_dir (path_join [d, n]) = path_clean [slash]"
      by (simp add: path_dir_def)
    then show ?thesis using True d
      by (simp add: path_clean_def abs_path_def is_abs_def)
  next
    case False
    have "path_join [d, n] = abs_path cs @ slash # n"
      using d assms(2) False by (simp add: path_join_plain) (simp add: abs_path_def join_with_append)
    moreover have "dropWhile (\<lambda>c. c \<noteq> slash) (rev n @ slash # rev (abs_path cs))
        = slash # rev (abs_path cs)"
      using ns by (simp add: dropWhile_neq_append)
    ultimately have "path_dir (path_join [d, n]) = path_clean (abs_path cs @ slash # [])"
      by (simp add: path_dir_def)
    also have "\<dots> = abs_path cs"
    proof -
      have "split_on slash (abs_path cs @ slash # []) = [] # (cs @ [[]])"
        using d(2) False by (simp only: split_on_concat split_abs_path) simp
      moreover have "clean_comps True [] (cs @ [[]]) = cs"
      proof -
        have "clean_comps True st (cs @ [[]]) = rev st @ cs" for st
          using d(2) by (induction cs arbitrary: st) (auto simp: plain_name_def)
        then show ?thesis by simp
      qed
      moreover have "is_abs (abs_path cs @ slash # [])"
        by (simp add: is_abs_def abs_path_def)
      ultimately show ?thesis by (simp add: path_clean_def)
    qed
    finally show ?thesis using d by simp
  qed
qed

section \<open>Files\<close>

datatype file_kind = Regular string | Directory | Symlink string

text \<open>\<open>mtime\<close> is a number of seconds and the nanoseconds within the second.\<close>

record inode =
  kind :: file_kind
  mode :: "12 word"
  owner :: "int \<times> int"
  mtime :: "int \<times> nat"

datatype os_op =
  OpStat | OpLstat | OpReadlink | OpRead | OpOpen | OpWrite | OpRemove | OpRemoveAll | OpMkdirAll
| OpRename | OpTruncate | OpLchown | OpChmod

record os_state =
  files :: "string \<rightharpoonup> inode"
  os_fault :: "os_op \<Rightarrow> string \<Rightarrow> go_error option"

definition new_inode :: "file_kind \<Rightarrow> inode" where
  "new_inode k = \<lparr>kind = k, mode = 493, owner = (0, 0), mtime = (0, 0)\<rparr>"

definition no_faults :: "'z os_state_scheme \<Rightarrow> bool" where
  "no_faults w \<longleftrightarrow> (\<forall>oper p. os_fault w oper p = None)"

definition os_check :: "os_op \<Rightarrow> string \<Rightarrow> ('z os_state_scheme, unit) prog" where
  "os_check oper p = (\<lambda>w. case os_fault w oper (path_clean p) of
     None \<Rightarrow> (Inr (), w) | Some e \<Rightarrow> (Inl (Err e), w))"

definition put_file :: "string \<Rightarrow> inode option \<Rightarrow> 'z os_state_scheme \<Rightarrow> 'z os_state_scheme" where
  "put_file p i w = w\<lparr>files := (files w)(p := i)\<rparr>"

text \<open>Following a symbolic link in the last component; \<open>None\<close> is too many links.\<close>

definition link_target :: "string \<Rightarrow> string \<Rightarrow> string" where
  "link_target p t = (if is_abs t then path_clean t else path_join [path_dir p, t])"

fun follow :: "nat \<Rightarrow> (string \<rightharpoonup> inode) \<Rightarrow> string \<Rightarrow> string option" where
  "follow 0 fs p = None"
| "follow (Suc n) fs p =
     (case fs p of
        None \<Rightarrow> Some p
      | Some i \<Rightarrow> (case kind i of Symlink t \<Rightarrow> follow n fs (link_target p t) | _ \<Rightarrow> Some p))"

definition real_path :: "string \<Rightarrow> ('z os_state_scheme, string) prog" where
  "real_path p = (\<lambda>w. case follow 40 (files w) (path_clean p) of
     None \<Rightarrow> (Inl (Err (Errorf (p @ '': too many levels of symbolic links''))), w)
   | Some q \<Rightarrow> (Inr q, w))"

definition os_lstat :: "string \<Rightarrow> ('z os_state_scheme, inode) prog" where
  "os_lstat p = bindE (os_check OpLstat p) (\<lambda>_. \<lambda>w.
     case files w (path_clean p) of
       None \<Rightarrow> (Inl (Err (NotExist p)), w) | Some i \<Rightarrow> (Inr i, w))"

definition os_stat :: "string \<Rightarrow> ('z os_state_scheme, inode) prog" where
  "os_stat p = bindE (os_check OpStat p) (\<lambda>_. bindE (real_path p) (\<lambda>q. \<lambda>w.
     case files w q of None \<Rightarrow> (Inl (Err (NotExist p)), w) | Some i \<Rightarrow> (Inr i, w)))"

definition os_readlink :: "string \<Rightarrow> ('z os_state_scheme, string) prog" where
  "os_readlink p = bindE (os_check OpReadlink p) (\<lambda>_. \<lambda>w.
     case files w (path_clean p) of
       None \<Rightarrow> (Inl (Err (NotExist p)), w)
     | Some i \<Rightarrow> (case kind i of
          Symlink t \<Rightarrow> (Inr t, w)
        | _ \<Rightarrow> (Inl (Err (Errorf (''readlink '' @ p @ '': invalid argument''))), w)))"

definition read_file :: "string \<Rightarrow> ('z os_state_scheme, string) prog" where
  "read_file p = bindE (os_check OpRead p) (\<lambda>_. bindE (real_path p) (\<lambda>q. \<lambda>w.
     case files w q of
       None \<Rightarrow> (Inl (Err (NotExist p)), w)
     | Some i \<Rightarrow> (case kind i of
          Regular s \<Rightarrow> (Inr s, w)
        | _ \<Rightarrow> (Inl (Err (Errorf (''read '' @ p @ '': is a directory''))), w))))"

definition is_dir_at :: "(string \<rightharpoonup> inode) \<Rightarrow> string \<Rightarrow> bool" where
  "is_dir_at fs p \<longleftrightarrow> p = ''/'' \<or> p = ''.'' \<or>
     (case fs p of Some i \<Rightarrow> kind i = Directory | None \<Rightarrow> False)"

text \<open>\<open>q\<close> lies below the directory \<open>p\<close>.\<close>

definition below :: "string \<Rightarrow> string \<Rightarrow> bool" where
  "below p q \<longleftrightarrow> prefix (p @ ''/'') q"

text \<open>
  \<open>os.Remove\<close> takes away a file, a symbolic link or an empty directory.  Whether a directory is
  empty is a property of all paths below it, since the files of a world are a function.
\<close>

definition empty_dir :: "(string \<rightharpoonup> inode) \<Rightarrow> string \<Rightarrow> bool" where
  "empty_dir fs p \<longleftrightarrow> (\<forall>q. below p q \<longrightarrow> fs q = None)"

definition os_remove :: "string \<Rightarrow> ('z os_state_scheme, unit) prog" where
  "os_remove p = bindE (os_check OpRemove p) (\<lambda>_. \<lambda>w.
     case files w (path_clean p) of
       None \<Rightarrow> (Inl (Err (NotExist p)), w)
     | Some i \<Rightarrow>
         if kind i = Directory \<and> \<not> empty_dir (files w) (path_clean p) then
           (Inl (Err (Errorf (''remove '' @ p @ '': directory not empty''))), w)
         else (Inr (), put_file (path_clean p) None w))"

definition remove_all :: "string \<Rightarrow> ('z os_state_scheme, unit) prog" where
  "remove_all p = bindE (os_check OpRemoveAll p) (\<lambda>_.
     modW (\<lambda>w. w\<lparr>files := (\<lambda>q. if q = path_clean p \<or> below (path_clean p) q then None
                             else files w q)\<rparr>))"

text \<open>The directories that lead to a path, the outermost first.\<close>

definition path_prefixes :: "string \<Rightarrow> string list" where
  "path_prefixes p =
     (if is_abs p then map abs_path (tl (prefixes (tl (split_on slash p))))
      else map (join_with slash) (tl (prefixes (split_on slash p))))"

definition mkdir1 :: "string \<Rightarrow> ('z os_state_scheme, unit) prog" where
  "mkdir1 q = (\<lambda>w. case files w q of
     None \<Rightarrow> (Inr (), put_file q (Some (new_inode Directory)) w)
   | Some i \<Rightarrow> if kind i = Directory then (Inr (), w)
               else (Inl (Err (Errorf (''mkdir '' @ q @ '': not a directory''))), w))"

definition mkdir_all :: "string \<Rightarrow> ('z os_state_scheme, unit) prog" where
  "mkdir_all p = bindE (os_check OpMkdirAll p) (\<lambda>_. forE (path_prefixes (path_clean p)) mkdir1)"

text \<open>
  \<open>os.OpenFile\<close> with \<open>O_CREATE | O_RDWR | O_APPEND\<close>; the handle is the path of the file.  A
  write to the handle appends.
\<close>

definition open_append :: "string \<Rightarrow> ('z os_state_scheme, string) prog" where
  "open_append p = bindE (os_check OpOpen p) (\<lambda>_. bindE (real_path p) (\<lambda>q. \<lambda>w.
     case files w q of
       None \<Rightarrow> if is_dir_at (files w) (path_dir q)
               then (Inr q, put_file q (Some (new_inode (Regular []))) w)
               else (Inl (Err (NotExist p)), w)
     | Some i \<Rightarrow> (case kind i of
          Regular _ \<Rightarrow> (Inr q, w)
        | _ \<Rightarrow> (Inl (Err (Errorf (''open '' @ p @ '': is a directory''))), w))))"

definition write_handle :: "string \<Rightarrow> string \<Rightarrow> ('z os_state_scheme, unit) prog" where
  "write_handle q s = bindE (os_check OpWrite q) (\<lambda>_. modW (\<lambda>w.
     case files w q of
       Some i \<Rightarrow> (case kind i of
          Regular t \<Rightarrow> put_file q (Some (i\<lparr>kind := Regular (t @ s)\<rparr>)) w | _ \<Rightarrow> w)
     | None \<Rightarrow> w))"

text \<open>\<open>os.Create\<close>: an existing file is emptied; the handle is the path of the file.\<close>

definition os_create :: "string \<Rightarrow> ('z os_state_scheme, string) prog" where
  "os_create p = bindE (os_check OpOpen p) (\<lambda>_. bindE (real_path p) (\<lambda>q. \<lambda>w.
     case files w q of
       None \<Rightarrow> if is_dir_at (files w) (path_dir q)
               then (Inr q, put_file q (Some (new_inode (Regular []))) w)
               else (Inl (Err (NotExist p)), w)
     | Some i \<Rightarrow> (case kind i of
          Regular _ \<Rightarrow> (Inr q, put_file q (Some (i\<lparr>kind := Regular []\<rparr>)) w)
        | _ \<Rightarrow> (Inl (Err (Errorf (''open '' @ p @ '': is a directory''))), w))))"

text \<open>\<open>os.Truncate\<close>: the file is cut or filled up with zero bytes.\<close>

definition os_truncate :: "string \<Rightarrow> int64 \<Rightarrow> ('z os_state_scheme, unit) prog" where
  "os_truncate p sz = bindE (os_check OpTruncate p) (\<lambda>_. bindE (real_path p) (\<lambda>q. \<lambda>w.
     case files w q of
       None \<Rightarrow> (Inl (Err (NotExist p)), w)
     | Some i \<Rightarrow> (case kind i of
          Regular s \<Rightarrow>
            if sint sz < 0 then (Inl (Err (Errorf (''truncate '' @ p @ '': invalid argument''))), w)
            else (Inr (), put_file q (Some (i\<lparr>kind := Regular
                   (take (nat (sint sz)) s @ replicate (nat (sint sz) - length s) (CHR 0x00))\<rparr>)) w)
        | _ \<Rightarrow> (Inl (Err (Errorf (''truncate '' @ p @ '': is a directory''))), w))))"

text \<open>
  \<open>os.Rename\<close> moves a file, or a directory with everything below it, as \<open>rename(2)\<close> does: the
  directory of the new path has to exist, a directory cannot be moved below itself, it takes the
  place of an empty directory only, and no file takes the place of a directory.
\<close>

definition rename_refused :: "(string \<rightharpoonup> inode) \<Rightarrow> string \<Rightarrow> string \<Rightarrow> go_error option" where
  "rename_refused fs a b =
     (let refused = (\<lambda>why. Some (Errorf (''rename '' @ a @ '' '' @ b @ '': '' @ why))) in
      case fs a of
        None \<Rightarrow> Some (NotExist a)
      | Some i \<Rightarrow>
          if \<not> is_dir_at fs (path_dir b)
          then (if fs (path_dir b) = None then Some (NotExist b) else refused ''not a directory'')
          else if below a b then refused ''invalid argument''
          else (case fs b of
            None \<Rightarrow> None
          | Some j \<Rightarrow>
              if a = b then None
              else if kind j = Directory
              then (if kind i \<noteq> Directory then refused ''is a directory''
                    else if \<not> empty_dir fs b then refused ''directory not empty''
                    else None)
              else if kind i = Directory then refused ''not a directory''
              else None))"

definition os_rename :: "string \<Rightarrow> string \<Rightarrow> ('z os_state_scheme, unit) prog" where
  "os_rename p q = bindE (os_check OpRename p) (\<lambda>_. \<lambda>w.
     let a = path_clean p; b = path_clean q in
     case rename_refused (files w) a b of
       Some e \<Rightarrow> (Inl (Err e), w)
     | None \<Rightarrow> (Inr (), w\<lparr>files := (\<lambda>r. if r = b \<or> below b r then files w (a @ drop (length b) r)
                                  else if r = a \<or> below a r then None else files w r)\<rparr>))"

section \<open>Frames and invariants of the file operations\<close>

text \<open>
  None of the operations panics, and none touches anything but the files: every view of the
  rest of the world is a frame.
\<close>

definition beyond_files :: "'z os_state_scheme \<Rightarrow> (os_op \<Rightarrow> string \<Rightarrow> go_error option) \<times> 'z" where
  "beyond_files w = (os_fault w, os_state.more w)"

lemma beyond_files_put [simp]: "beyond_files (put_file p i w) = beyond_files w"
  by (simp add: beyond_files_def put_file_def)

lemma beyond_files_update [simp]: "beyond_files (w\<lparr>files := f\<rparr>) = beyond_files w"
  by (simp add: beyond_files_def)

lemma files_put_file [simp]: "files (put_file p i w) = (files w)(p := i)"
  by (simp add: put_file_def)

lemma os_fault_put_file [simp]: "os_fault (put_file p i w) = os_fault w"
  by (simp add: put_file_def)

text \<open>The operations that only look do not change the world at all.\<close>

definition reads_only :: "('w, 'a) prog \<Rightarrow> bool" where
  "reads_only m \<longleftrightarrow> (\<forall>w. snd (m w) = w)"

lemma reads_only_frame: "reads_only m \<Longrightarrow> frame v m"
  by (simp add: reads_only_def frame_def)

lemma reads_onlyD: "reads_only m \<Longrightarrow> m w = (r, w') \<Longrightarrow> w' = w"
  by (metis reads_only_def snd_conv)

lemma reads_only_bindE: "reads_only m \<Longrightarrow> (\<And>x. reads_only (k x)) \<Longrightarrow> reads_only (bindE m k)"
  by (auto simp: reads_only_def bindE_def split: prod.splits sum.splits) (metis snd_conv)+

lemma reads_only_handleE:
  "reads_only m \<Longrightarrow> (\<And>e. reads_only (h e)) \<Longrightarrow> (\<And>x. reads_only (k x)) \<Longrightarrow> reads_only (handleE m h k)"
  by (auto simp: reads_only_def handleE_def split: prod.splits sum.splits failure.splits)
     (metis snd_conv)+

lemma reads_only_basic [intro]:
  "reads_only (ret x)" "reads_only (throw e)" "reads_only (panic s)" "reads_only (getW f)"
  by (simp_all add: reads_only_def)

lemma reads_only_check: "reads_only (os_check oper p)"
  by (auto simp: reads_only_def os_check_def split: option.splits)

lemma reads_only_real_path: "reads_only (real_path p)"
  by (auto simp: reads_only_def real_path_def split: option.splits)

lemma reads_only_os:
  "reads_only (os_lstat p)" "reads_only (os_stat p)" "reads_only (os_readlink p)"
  "reads_only (read_file p)"
  unfolding os_lstat_def os_stat_def os_readlink_def read_file_def
  by (intro reads_only_bindE reads_only_check reads_only_real_path;
      simp add: reads_only_def split: option.splits file_kind.splits)+

text \<open>An operation that only looks, and whose result depends on a view \<open>v\<close> of the world only.\<close>

definition looks_at :: "('w \<Rightarrow> 'v) \<Rightarrow> ('w, 'a) prog \<Rightarrow> bool" where
  "looks_at v m \<longleftrightarrow> (\<forall>w w'. v w = v w' \<longrightarrow> (\<exists>r. m w = (r, w) \<and> m w' = (r, w')))"

lemma looks_atE:
  assumes "looks_at v m" and "v w = v w'"
  obtains r where "m w = (r, w)" and "m w' = (r, w')"
  using assms by (auto simp: looks_at_def)

lemma looks_at_run: "looks_at v m \<Longrightarrow> m w = (fst (m w), w)"
  by (erule looks_atE [where w = w and w' = w]) simp_all

lemma looks_at_same: "looks_at v m \<Longrightarrow> v w = v w' \<Longrightarrow> fst (m w) = fst (m w')"
  by (erule (1) looks_atE) simp

lemma looks_at_reads_only: "looks_at v m \<Longrightarrow> reads_only m"
  unfolding reads_only_def using looks_at_run by (metis snd_conv)

lemma looks_at_basic [intro]:
  "looks_at v (ret x)" "looks_at v (throw e)" "looks_at v (panic s)"
  by (simp_all add: looks_at_def)

lemma looks_at_getW:
  assumes "\<And>w w'. v w = v w' \<Longrightarrow> f w = f w'"
  shows "looks_at v (getW f)"
  unfolding looks_at_def getW_def using assms by blast

lemma looks_at_bindE:
  assumes "looks_at v m" and "\<And>x. looks_at v (k x)"
  shows "looks_at v (bindE m k)"
  unfolding looks_at_def
proof (intro allI impI)
  fix w w'
  assume v: "v w = v w'"
  obtain r where r: "m w = (r, w)" "m w' = (r, w')" by (rule looks_atE [OF assms(1) v])
  show "\<exists>r. bindE m k w = (r, w) \<and> bindE m k w' = (r, w')"
  proof (cases r)
    case (Inr x)
    obtain r' where "k x w = (r', w)" "k x w' = (r', w')" by (rule looks_atE [OF assms(2) v])
    with r Inr show ?thesis by (simp add: bindE_def)
  qed (simp add: bindE_def r)
qed

lemma looks_at_handleE:
  assumes "looks_at v m" and "\<And>e. looks_at v (h e)" and "\<And>x. looks_at v (k x)"
  shows "looks_at v (handleE m h k)"
  unfolding looks_at_def
proof (intro allI impI)
  fix w w'
  assume v: "v w = v w'"
  obtain r where r: "m w = (r, w)" "m w' = (r, w')" by (rule looks_atE [OF assms(1) v])
  have "\<exists>r. h e w = (r, w) \<and> h e w' = (r, w')" for e
    by (rule looks_atE [OF assms(2) v]) blast
  moreover have "\<exists>r. k x w = (r, w) \<and> k x w' = (r, w')" for x
    by (rule looks_atE [OF assms(3) v]) blast
  ultimately show "\<exists>r. handleE m h k w = (r, w) \<and> handleE m h k w' = (r, w')"
    by (cases r) (auto simp: handleE_def r split: failure.splits)
qed

lemma looks_at_check:
  assumes "\<And>w w'. v w = v w' \<Longrightarrow> os_fault w = os_fault w'"
  shows "looks_at v (os_check oper p)"
  unfolding looks_at_def
proof (intro allI impI)
  fix w w'
  assume "v w = v w'"
  from assms [OF this] show "\<exists>r. os_check oper p w = (r, w) \<and> os_check oper p w' = (r, w')"
    by (simp add: os_check_def split: option.split)
qed

lemma frame_os_check [frame_rules]: "frame v (os_check oper p)"
  by (rule reads_only_frame [OF reads_only_check])

lemma frame_real_path [frame_rules]: "frame v (real_path p)"
  by (rule reads_only_frame [OF reads_only_real_path])

lemmas frame_os_reads [frame_rules] = reads_only_os [THEN reads_only_frame]

lemma frame_mkdir1 [frame_rules]: "frame beyond_files (mkdir1 q)"
  by (auto simp: frame_def mkdir1_def split: option.splits)

lemma frame_os_remove [frame_rules]: "frame beyond_files (os_remove p)"
  unfolding os_remove_def
  by (rule frame_bindE [OF frame_os_check]) (auto simp: frame_def split: option.splits)

lemma frame_remove_all [frame_rules]: "frame beyond_files (remove_all p)"
  unfolding remove_all_def
  by (rule frame_bindE [OF frame_os_check]) (auto simp: frame_def)

lemma frame_mkdir_all [frame_rules]: "frame beyond_files (mkdir_all p)"
  unfolding mkdir_all_def by (intro frame_bindE frame_os_check frame_forE frame_mkdir1)

lemma frame_open_append [frame_rules]: "frame beyond_files (open_append p)"
  unfolding open_append_def
  by (rule frame_bindE [OF frame_os_check], rule frame_bindE [OF frame_real_path])
     (auto simp: frame_def split: option.splits file_kind.splits)

lemma frame_write_handle [frame_rules]: "frame beyond_files (write_handle q s)"
  unfolding write_handle_def
  by (rule frame_bindE [OF frame_os_check])
     (auto simp: frame_def split: option.splits file_kind.splits)

lemma frame_os_create [frame_rules]: "frame beyond_files (os_create p)"
  unfolding os_create_def
  by (rule frame_bindE [OF frame_os_check], rule frame_bindE [OF frame_real_path])
     (auto simp: frame_def split: option.splits file_kind.splits)

lemma frame_os_truncate [frame_rules]: "frame beyond_files (os_truncate p sz)"
  unfolding os_truncate_def
  by (rule frame_bindE [OF frame_os_check], rule frame_bindE [OF frame_real_path])
     (auto simp: frame_def split: option.splits file_kind.splits)

lemma frame_os_rename [frame_rules]: "frame beyond_files (os_rename p q)"
  unfolding os_rename_def
  by (rule frame_bindE [OF frame_os_check]) (auto simp: frame_def Let_def split: option.split)

lemma calm_os_more [calm_rules]:
  "calm (os_create p)" "calm (os_truncate p sz)" "calm (os_rename p q)"
  unfolding os_create_def os_truncate_def os_rename_def os_check_def real_path_def
  by (auto simp: calm_def bindE_def Let_def split: option.splits file_kind.splits prod.splits sum.splits)

lemma calm_os [calm_rules]:
  "calm (os_check oper p)" "calm (real_path p)" "calm (os_lstat p)" "calm (os_stat p)"
  "calm (os_readlink p)" "calm (read_file p)" "calm (os_remove p)" "calm (remove_all p)"
  "calm (mkdir1 p)" "calm (open_append p)" "calm (write_handle p s)"
  unfolding os_lstat_def os_stat_def os_readlink_def read_file_def os_remove_def remove_all_def
    mkdir1_def open_append_def write_handle_def os_check_def real_path_def
  by (auto simp: calm_def bindE_def split: option.splits file_kind.splits prod.splits sum.splits)

lemma calm_mkdir_all [calm_rules]: "calm (mkdir_all p)"
  unfolding mkdir_all_def by (intro calm_rules)

section \<open>What the operations do to one file\<close>

text \<open>
  The content of the regular file at a clean path, and the operations on a path that is no
  symbolic link, when nothing outside the model fails.
\<close>

definition content :: "'z os_state_scheme \<Rightarrow> string \<Rightarrow> string option" where
  "content w p = (case files w p of
     Some i \<Rightarrow> (case kind i of Regular s \<Rightarrow> Some s | _ \<Rightarrow> None) | None \<Rightarrow> None)"

lemma content_present: "content w p = Some s \<Longrightarrow> files w p \<noteq> None"
  by (cases "files w p") (simp_all add: content_def)

definition not_link :: "'z os_state_scheme \<Rightarrow> string \<Rightarrow> bool" where
  "not_link w p \<longleftrightarrow> (case files w p of
     Some i \<Rightarrow> (case kind i of Symlink _ \<Rightarrow> False | _ \<Rightarrow> True) | None \<Rightarrow> True)"

lemma os_check_ok [simp]: "no_faults w \<Longrightarrow> os_check oper p w = (Inr (), w)"
  by (simp add: os_check_def no_faults_def)

lemma real_path_ok: "clean_abs p \<Longrightarrow> not_link w p \<Longrightarrow> real_path p w = (Inr p, w)"
proof -
  assume "clean_abs p" "not_link w p"
  then have "follow 40 (files w) p = Some p"
    using follow.simps(2) [of 39 "files w" p]
    by (auto simp: not_link_def split: option.splits file_kind.splits)
  with \<open>clean_abs p\<close> show ?thesis by (simp add: real_path_def)
qed

lemma os_stat_ok:
  "no_faults w \<Longrightarrow> clean_abs p \<Longrightarrow> not_link w p \<Longrightarrow>
    os_stat p w = (case files w p of
       None \<Rightarrow> (Inl (Err (NotExist p)), w) | Some i \<Rightarrow> (Inr i, w))"
  by (simp add: os_stat_def bindE_def real_path_ok)

lemma read_file_ok:
  "no_faults w \<Longrightarrow> clean_abs p \<Longrightarrow> content w p = Some s \<Longrightarrow> read_file p w = (Inr s, w)"
  by (simp add: read_file_def bindE_def real_path_ok not_link_def content_def
      split: option.splits file_kind.splits)

lemma read_file_missing:
  "no_faults w \<Longrightarrow> clean_abs p \<Longrightarrow> files w p = None \<Longrightarrow>
    read_file p w = (Inl (Err (NotExist p)), w)"
  by (simp add: read_file_def bindE_def real_path_ok not_link_def)

lemma os_remove_ok:
  "no_faults w \<Longrightarrow> clean_abs p \<Longrightarrow> content w p = Some s \<Longrightarrow>
    os_remove p w = (Inr (), put_file p None w)"
  by (auto simp: os_remove_def bindE_def content_def split: option.splits file_kind.splits)

lemma os_remove_missing:
  "no_faults w \<Longrightarrow> clean_abs p \<Longrightarrow> files w p = None \<Longrightarrow>
    os_remove p w = (Inl (Err (NotExist p)), w)"
  by (simp add: os_remove_def bindE_def)

lemma open_append_ok:
  assumes "no_faults w" and "clean_abs p" and "content w p = Some s"
  shows "open_append p w = (Inr p, w)"
  using assms
  by (auto simp: open_append_def bindE_def real_path_ok not_link_def content_def
      split: option.splits file_kind.splits)

lemma open_append_new:
  assumes "no_faults w" and "clean_abs p" and "files w p = None"
    and "is_dir_at (files w) (path_dir p)"
  shows "open_append p w = (Inr p, put_file p (Some (new_inode (Regular []))) w)"
  using assms by (simp add: open_append_def bindE_def real_path_ok not_link_def)

lemma write_handle_ok:
  "no_faults w \<Longrightarrow> files w p = Some i \<Longrightarrow> kind i = Regular t \<Longrightarrow>
    write_handle p s w = (Inr (), put_file p (Some (i\<lparr>kind := Regular (t @ s)\<rparr>)) w)"
  by (simp add: write_handle_def bindE_def)

lemma no_faults_put_file [simp]: "no_faults (put_file p i w) = no_faults w"
  by (simp add: no_faults_def)

lemma kind_new_inode [simp]: "kind (new_inode k) = k"
  by (simp add: new_inode_def)

lemma content_put_file:
  "content (put_file p i w) q = (if q = p then
     (case i of Some j \<Rightarrow> (case kind j of Regular s \<Rightarrow> Some s | _ \<Rightarrow> None) | None \<Rightarrow> None)
     else content w q)"
  by (simp add: content_def)

section \<open>Making directories\<close>

text \<open>
  A directory is ready when every part of its path is free or a directory; \<open>MkdirAll\<close> then fills
  in the missing parts and changes nothing else.
\<close>

definition free_or_dir :: "'z os_state_scheme \<Rightarrow> string \<Rightarrow> bool" where
  "free_or_dir w q \<longleftrightarrow> (case files w q of None \<Rightarrow> True | Some i \<Rightarrow> kind i = Directory)"

definition dir_ready :: "string \<Rightarrow> 'z os_state_scheme \<Rightarrow> bool" where
  "dir_ready d w \<longleftrightarrow> (\<forall>q \<in> set (path_prefixes d). free_or_dir w q)"

definition fill_dirs :: "string list \<Rightarrow> 'z os_state_scheme \<Rightarrow> 'z os_state_scheme" where
  "fill_dirs qs w = w\<lparr>files := (\<lambda>q. if q \<in> set qs \<and> files w q = None
     then Some (new_inode Directory) else files w q)\<rparr>"

lemma mkdirs_ok:
  "\<forall>q \<in> set qs. free_or_dir w q \<Longrightarrow> forE qs mkdir1 w = (Inr (), fill_dirs qs w)"
proof (induction qs arbitrary: w)
  case (Cons q qs)
  have step: "mkdir1 q w = (Inr (), fill_dirs [q] w)"
  proof (cases "files w q")
    case None
    then have "(files w)(q \<mapsto> new_inode Directory) = files (fill_dirs [q] w)"
      by (auto simp: fill_dirs_def fun_eq_iff)
    with None show ?thesis by (simp add: mkdir1_def fill_dirs_def put_file_def)
  next
    case (Some i)
    then have "files (fill_dirs [q] w) = files w" by (auto simp: fill_dirs_def fun_eq_iff)
    then have "fill_dirs [q] w = w" by (simp add: fill_dirs_def)
    with Some Cons.prems show ?thesis by (simp add: mkdir1_def free_or_dir_def)
  qed
  have "\<forall>q' \<in> set qs. free_or_dir (fill_dirs [q] w) q'"
    using Cons.prems by (auto simp: free_or_dir_def fill_dirs_def split: option.splits)
  moreover have "fill_dirs qs (fill_dirs [q] w) = fill_dirs (q # qs) w"
    by (auto simp: fill_dirs_def fun_eq_iff intro!: arg_cong [where f = "\<lambda>f. w\<lparr>files := f\<rparr>"])
  ultimately show ?case using Cons.IH [of "fill_dirs [q] w"] step by (simp add: bindE_def)
qed (simp add: fill_dirs_def)

lemma mkdir_all_ok:
  assumes "no_faults w" and "clean_abs d" and "dir_ready d w"
  shows "mkdir_all d w = (Inr (), fill_dirs (path_prefixes d) w)"
  using mkdirs_ok assms by (simp add: mkdir_all_def bindE_def dir_ready_def)

lemma path_prefixes_abs:
  assumes "list_all plain_name cs" and "cs \<noteq> []"
  shows "q \<in> set (path_prefixes (abs_path cs)) \<longleftrightarrow> (\<exists>c. c \<noteq> [] \<and> prefix c cs \<and> q = abs_path c)"
proof -
  have "set (tl (prefixes cs)) = {c. c \<noteq> [] \<and> prefix c cs}"
  proof -
    obtain x xs where "cs = x # xs" using assms(2) by (cases cs) auto
    then show ?thesis by (auto simp: prefix_Cons)
  qed
  with assms show ?thesis
    by (auto simp: path_prefixes_def split_abs_path)
qed

lemma path_prefixes_short:
  assumes "list_all plain_name cs" and "cs \<noteq> []" and "list_all plain_name ds"
    and "length cs < length ds"
  shows "abs_path ds \<notin> set (path_prefixes (abs_path cs))"
proof
  assume "abs_path ds \<in> set (path_prefixes (abs_path cs))"
  then obtain c where c: "prefix c cs" "abs_path ds = abs_path c"
    using path_prefixes_abs [OF assms(1,2)] by auto
  moreover have "list_all plain_name c" using c(1) assms(1) by (auto simp: prefix_def)
  ultimately have "ds = c" using abs_path_inject [OF assms(3)] by simp
  with c(1) assms(4) show False using prefix_length_le by fastforce
qed

lemma fill_dirs_files [simp]:
  "q \<notin> set qs \<Longrightarrow> files (fill_dirs qs w) q = files w q"
  "beyond_files (fill_dirs qs w) = beyond_files w"
  "no_faults (fill_dirs qs w) = no_faults w"
  by (simp_all add: fill_dirs_def no_faults_def)

lemma fill_dirs_free_or_dir: "free_or_dir (fill_dirs qs w) q = free_or_dir w q"
  by (simp add: free_or_dir_def fill_dirs_def split: option.split)

lemma fill_dirs_made:
  assumes "dir_ready d w" and "list_all plain_name cs" and "cs \<noteq> []" and "d = abs_path cs"
  shows "is_dir_at (files (fill_dirs (path_prefixes d) w)) d"
proof -
  have "d \<in> set (path_prefixes d)" using assms(2-4) by (auto simp: path_prefixes_abs)
  with assms(1) show ?thesis
    by (auto simp: is_dir_at_def fill_dirs_def dir_ready_def free_or_dir_def split: option.splits)
qed

lemma below_abs_path:
  assumes "list_all plain_name cs" and "cs \<noteq> []" and "list_all plain_name ds"
    and "below (abs_path cs) (abs_path ds)"
  shows "prefix cs ds \<and> length cs < length ds"
proof -
  obtain r where r: "abs_path ds = abs_path cs @ slash # r"
    using assms(4) by (auto simp: below_def prefix_def)
  have "ds \<noteq> []" using assms(2) r by (cases cs) (auto simp: abs_path_def)
  then have "ds = cs @ split_on slash r"
    using arg_cong [OF r, of "split_on slash"] assms(2) split_abs_path [OF assms(1)]
      split_abs_path [OF assms(3)] by (simp add: split_on_concat)
  then show ?thesis by (cases "split_on slash r") auto
qed

text \<open>
  A step that changes the file \<open>f\<close> and may fill in the directories leading to \<open>d\<close>, but leaves
  all else alone.
\<close>

definition touches :: "string \<Rightarrow> string \<Rightarrow> 'z os_state_scheme \<Rightarrow> 'z os_state_scheme \<Rightarrow> bool" where
  "touches d f w w' \<longleftrightarrow> beyond_files w' = beyond_files w \<and>
     (\<forall>q. q \<noteq> f \<longrightarrow> \<not> below f q \<longrightarrow> q \<notin> set (path_prefixes d) \<longrightarrow> files w' q = files w q) \<and>
     (\<forall>q. q \<noteq> f \<longrightarrow> free_or_dir w q \<longrightarrow> free_or_dir w' q)"

lemma touches_refl: "touches d f w w"
  by (simp add: touches_def)

lemma touches_trans: "touches d f w w1 \<Longrightarrow> touches d f w1 w2 \<Longrightarrow> touches d f w w2"
  by (simp add: touches_def)

lemma touches_no_faults: "touches d f w w' \<Longrightarrow> no_faults w' = no_faults w"
  by (simp add: touches_def beyond_files_def no_faults_def)

lemma touches_dir_ready: "touches d f w w' \<Longrightarrow> f \<notin> set (path_prefixes e) \<Longrightarrow> dir_ready e w \<Longrightarrow> dir_ready e w'"
  by (auto simp: touches_def dir_ready_def)

lemma touches_file:
  "touches d f w w' \<Longrightarrow> q \<noteq> f \<Longrightarrow> \<not> below f q \<Longrightarrow> q \<notin> set (path_prefixes d) \<Longrightarrow> files w' q = files w q"
  by (simp add: touches_def)

lemma touches_fill_dirs: "touches d f w (fill_dirs (path_prefixes d) w)"
  by (simp add: touches_def fill_dirs_free_or_dir)

lemma touches_put_file: "touches d f w (put_file f i w)"
  by (simp add: touches_def free_or_dir_def)

lemma touches_remove_all:
  assumes "no_faults w" and "clean_abs f"
  shows "\<exists>w'. remove_all f w = (Inr (), w') \<and> touches d f w w' \<and> files w' f = None"
  using assms by (auto simp: remove_all_def bindE_def touches_def free_or_dir_def)

text \<open>Appending to a file that exists or can be made.\<close>

definition text_at :: "'z os_state_scheme \<Rightarrow> string \<Rightarrow> string \<Rightarrow> bool" where
  "text_at w f s \<longleftrightarrow> content w f = Some s \<or> files w f = None \<and> s = []"

lemma append_ok:
  assumes "no_faults w" and "clean_abs f" and "is_dir_at (files w) (path_dir f)" and "text_at w f s"
  shows "\<exists>w'. bindE (open_append f) (\<lambda>h. write_handle h t) w = (Inr (), w') \<and>
    touches d f w w' \<and> content w' f = Some (s @ t)"
proof -
  have wr: "\<exists>w'. write_handle f t w1 = (Inr (), w') \<and> touches d f w1 w' \<and> content w' f = Some (s @ t)"
    if nf: "no_faults w1" and c: "content w1 f = Some s" for w1
  proof -
    from c obtain i where i: "files w1 f = Some i" "kind i = Regular s"
      by (auto simp: content_def split: option.splits file_kind.splits)
    from write_handle_ok [OF nf i, of t] show ?thesis
      by (simp add: touches_put_file content_put_file)
  qed
  show ?thesis
  proof (cases "files w f")
    case None
    with assms(4) have s: "s = []" by (simp add: text_at_def content_def)
    let ?w = "put_file f (Some (new_inode (Regular []))) w"
    from open_append_new [OF assms(1,2) None assms(3)] have "open_append f w = (Inr f, ?w)" .
    moreover obtain w' where "write_handle f t ?w = (Inr (), w')" "touches d f ?w w'"
      "content w' f = Some (s @ t)"
      using wr [of ?w] assms(1) s by (auto simp: content_put_file)
    ultimately show ?thesis
      using touches_trans [OF touches_put_file] by (auto simp: bindE_def)
  next
    case (Some i)
    with assms(4) have c: "content w f = Some s" by (simp add: text_at_def)
    from wr [OF assms(1) c] open_append_ok [OF assms(1,2) c] show ?thesis
      by (auto simp: bindE_def)
  qed
qed

end
