(* ===== verification/Cake.thy ===== *)
theory Cake
  imports Quotaed_Reader Os_Files
begin

text \<open>
  The interface \<open>Cake\<close> of \<open>src/layercake/cake.go\<close>: the layered image store that every part of
  garden-shed works on.

  An implementation is a record of its methods, each a program over a world \<open>'w\<close>; a type that
  embeds a \<open>Cake\<close> and overrides methods is a record update.  The locale \<open>layer_store\<close> is the
  contract that the clients (the cleaner, the sizer, the fetchers) rely on: it speaks about
  \<open>layers\<close>, the images present in the world by graph ID, in the worlds that satisfy \<open>good\<close>.
\<close>

section \<open>Images\<close>

text \<open>
  The fields of docker's \<open>image.Image\<close> that the code reads or writes.  The volumes of a
  configuration are the keys of a Go map, listed in the order in which a range over it runs.
\<close>

record img_config =
  Env :: "string list"
  Volumes :: "string list"

record image =
  ID :: string
  Parent :: string
  Container :: string
  Config :: "img_config option"
  Size :: int64
  ParentID :: digest

definition empty_image :: image where
  "empty_image = \<lparr>ID = [], Parent = [], Container = [], Config = None, Size = 0, ParentID = []\<rparr>"

text \<open>The layer data handed to the store: a plain stream, or one behind a quota.\<close>

datatype layer_stream = Plain reader | Limited "reader quotaed"

section \<open>The interface\<close>

record 'w cake =
  DriverName :: string
  Create :: "layer_id \<Rightarrow> layer_id \<Rightarrow> string \<Rightarrow> ('w, unit) prog"
  Register :: "image \<Rightarrow> reader option \<Rightarrow> ('w, unit) prog"
  RegisterWithQuota :: "image \<Rightarrow> reader option \<Rightarrow> int64 \<Rightarrow> ('w, unit) prog"
  Get :: "layer_id \<Rightarrow> ('w, image) prog"
  Unmount :: "layer_id \<Rightarrow> ('w, unit) prog"
  Remove :: "layer_id \<Rightarrow> ('w, unit) prog"
  Path :: "layer_id \<Rightarrow> ('w, string) prog"
  QuotaedPath :: "layer_id \<Rightarrow> int64 \<Rightarrow> ('w, string) prog"
  IsLeaf :: "layer_id \<Rightarrow> ('w, bool) prog"
  GetAllLeaves :: "('w, layer_id list) prog"
  All :: "('w, image list) prog"

section \<open>Layers as a finite map\<close>

text \<open>A leaf is a layer that no layer has as its parent.\<close>

definition leaf :: "(string \<rightharpoonup> image) \<Rightarrow> string \<Rightarrow> bool" where
  "leaf L i \<longleftrightarrow> i \<in> dom L \<and> (\<forall>j img. L j = Some img \<longrightarrow> Parent img \<noteq> i)"

text \<open>\<open>L'\<close> keeps the parent of everything it keeps.\<close>

definition keeps_parents :: "(string \<rightharpoonup> image) \<Rightarrow> (string \<rightharpoonup> image) \<Rightarrow> bool" where
  "keeps_parents L L' \<longleftrightarrow>
     (\<forall>j img. L' j = Some img \<longrightarrow> Parent img \<in> dom L \<longrightarrow> Parent img \<in> dom L')"

lemma leaf_dom: "leaf L i \<Longrightarrow> i \<in> dom L"
  by (simp add: leaf_def)

text \<open>Taking a layer away makes no layer but its parent a leaf, and keeps all other leaves.\<close>

lemma leaf_remove:
  assumes "leaf (L(i := None)) j"
  shows "leaf L j \<or> (\<exists>img. L i = Some img \<and> Parent img = j)"
  using assms by (auto simp: leaf_def split: if_splits)

lemma leaf_remove_other: "leaf L j \<Longrightarrow> j \<noteq> i \<Longrightarrow> leaf (L(i := None)) j"
  by (auto simp: leaf_def split: if_splits)

lemma keeps_parents_remove: "leaf L i \<Longrightarrow> keeps_parents L (L(i := None))"
  by (auto simp: keeps_parents_def leaf_def split: if_splits)

lemma keeps_parents_refl [simp]: "keeps_parents L L"
  by (simp add: keeps_parents_def)

lemma keeps_parents_trans:
  assumes "keeps_parents L M" and "keeps_parents M N" and "N \<subseteq>\<^sub>m M"
  shows "keeps_parents L N"
  unfolding keeps_parents_def
proof (intro allI impI)
  fix j img
  assume j: "N j = Some img" "Parent img \<in> dom L"
  with assms(3) have "M j = Some img" by (metis domI map_le_def)
  with assms(1) j(2) have "Parent img \<in> dom M" by (simp add: keeps_parents_def)
  with assms(2) j(1) show "Parent img \<in> dom N" by (simp add: keeps_parents_def)
qed

lemma map_le_remove: "L(i := None) \<subseteq>\<^sub>m L"
  by (simp add: map_le_def)

lemma card_remove_less: "finite (dom L) \<Longrightarrow> i \<in> dom L \<Longrightarrow> card (dom (L(i := None))) < card (dom L)"
  using card_Diff1_less [of "dom L" i] by (simp add: dom_fun_upd)

section \<open>The contract of a layer store\<close>

locale layer_store =
  fixes cake :: "'w cake"
    and layers :: "'w \<Rightarrow> (string \<rightharpoonup> image)"
    and good :: "'w \<Rightarrow> bool"
  assumes finite_layers: "good w \<Longrightarrow> finite (dom (layers w))"
    and valid_layers: "good w \<Longrightarrow> layers w s = Some img \<Longrightarrow> ValidateID s \<and> ID img = s"
    and Get_present: "good w \<Longrightarrow> layers w (GraphID i) = Some img \<Longrightarrow> Get cake i w = (Inr img, w)"
    and Get_absent: "good w \<Longrightarrow> ValidateID (GraphID i) \<Longrightarrow> layers w (GraphID i) = None \<Longrightarrow>
          \<exists>e. Get cake i w = (Inl (Err e), w)"
    and IsLeaf_exact: "good w \<Longrightarrow> IsLeaf cake i w = (Inr (leaf (layers w) (GraphID i)), w)"
    and GetAllLeaves_exact: "good w \<Longrightarrow> \<exists>ids. GetAllLeaves cake w = (Inr ids, w) \<and>
          distinct (map GraphID ids) \<and> set (map GraphID ids) = {s. leaf (layers w) s}"
    and Remove_effect: "good w \<Longrightarrow> ValidateID (GraphID i) \<Longrightarrow> Remove cake i w = (r, w') \<Longrightarrow>
          good w' \<and> (case r of
             Inr _ \<Rightarrow> layers w' = (layers w)(GraphID i := None)
           | Inl (Err _) \<Rightarrow> layers w' = layers w \<or> layers w' = (layers w)(GraphID i := None)
           | Inl (Panic _) \<Rightarrow> False)"
begin

lemma Get_cases:
  assumes "good w" and "ValidateID (GraphID i)"
  obtains (present) img where "layers w (GraphID i) = Some img" and "Get cake i w = (Inr img, w)"
    and "ID img = GraphID i"
  | (absent) e where "layers w (GraphID i) = None" and "Get cake i w = (Inl (Err e), w)"
proof (cases "layers w (GraphID i)")
  case None
  then show ?thesis using Get_absent [OF assms None] absent by blast
next
  case (Some img)
  then show ?thesis using Get_present [OF assms(1) Some] valid_layers [OF assms(1) Some] present by blast
qed

lemma Remove_cases:
  assumes "good w" and "ValidateID (GraphID i)" and "Remove cake i w = (r, w')"
  obtains (removed) "r = Inr ()" and "good w'" and "layers w' = (layers w)(GraphID i := None)"
  | (failed) e where "r = Inl (Err e)" and "good w'"
      and "layers w' = layers w \<or> layers w' = (layers w)(GraphID i := None)"
  using Remove_effect [OF assms] by (auto split: sum.splits failure.splits)

text \<open>The contract for a stronger invariant, which removing a layer has to keep.\<close>

lemma strengthen:
  assumes "\<And>i w r w'. good w \<Longrightarrow> P w \<Longrightarrow> ValidateID (GraphID i) \<Longrightarrow> Remove cake i w = (r, w') \<Longrightarrow> P w'"
  shows "layer_store cake layers (\<lambda>w. good w \<and> P w)"
proof
  fix w i r w'
  assume "good w \<and> P w" "ValidateID (GraphID i)" "Remove cake i w = (r, w')"
  then show "(good w' \<and> P w') \<and> (case r of
      Inr _ \<Rightarrow> layers w' = (layers w)(GraphID i := None)
    | Inl (Err _) \<Rightarrow> layers w' = layers w \<or> layers w' = (layers w)(GraphID i := None)
    | Inl (Panic _) \<Rightarrow> False)"
    using Remove_effect assms by blast
qed (use finite_layers valid_layers Get_present Get_absent IsLeaf_exact GetAllLeaves_exact in auto)

end

section \<open>The contract of a store that grows\<close>

text \<open>A program that leaves the layers as they are, keeps the invariant and does not panic.\<close>

definition steady :: "('w \<Rightarrow> bool) \<Rightarrow> ('w \<Rightarrow> 'v) \<Rightarrow> ('w, 'a) prog \<Rightarrow> bool" where
  "steady good view m \<longleftrightarrow> (\<forall>w r w'. good w \<longrightarrow> m w = (r, w') \<longrightarrow>
     good w' \<and> view w' = view w \<and> (\<forall>s. r \<noteq> Inl (Panic s)))"

lemma steadyD:
  assumes "steady good view m" and "good w" and "m w = (r, w')"
  shows "good w'" and "view w' = view w" and "r \<noteq> Inl (Panic s)"
  using assms by (auto simp: steady_def)

lemma steady_basic [intro]: "steady good view (ret x)" "steady good view (throw e)"
  by (simp_all add: steady_def)

lemma steady_bindE:
  assumes "steady good view m" and "\<And>x. steady good view (k x)"
  shows "steady good view (bindE m k)"
  unfolding steady_def
proof (intro allI impI)
  fix w r w'
  assume g: "good w" and run: "bindE m k w = (r, w')"
  obtain r1 w1 where m: "m w = (r1, w1)" by (cases "m w")
  note one = steadyD [OF assms(1) g m]
  show "good w' \<and> view w' = view w \<and> (\<forall>s. r \<noteq> Inl (Panic s))"
  proof (cases r1)
    case (Inl f)
    with run m one show ?thesis by (auto simp: bindE_def)
  next
    case (Inr x)
    with run m have k: "k x w1 = (r, w')" by (simp add: bindE_def)
    from steadyD [OF assms(2) one(1) k] one show ?thesis by auto
  qed
qed

lemma steady_handleE:
  assumes "steady good view m" and "\<And>e. steady good view (h e)" and "\<And>x. steady good view (k x)"
  shows "steady good view (handleE m h k)"
  unfolding steady_def
proof (intro allI impI)
  fix w r w'
  assume g: "good w" and run: "handleE m h k w = (r, w')"
  obtain r1 w1 where m: "m w = (r1, w1)" by (cases "m w")
  note one = steadyD [OF assms(1) g m]
  consider e where "r1 = Inl (Err e)" | x where "r1 = Inr x"
    using one(3) by (metis failure.exhaust sum.exhaust)
  then show "good w' \<and> view w' = view w \<and> (\<forall>s. r \<noteq> Inl (Panic s))"
  proof cases
    case (1 e)
    with run m have "h e w1 = (r, w')" by (simp add: handleE_def)
    from steadyD [OF assms(2) one(1) this] one show ?thesis by auto
  next
    case (2 x)
    with run m have "k x w1 = (r, w')" by (simp add: handleE_def)
    from steadyD [OF assms(3) one(1) this] one show ?thesis by auto
  qed
qed

lemma steady_forE:
  "(\<And>x. x \<in> set xs \<Longrightarrow> steady good view (body x)) \<Longrightarrow> steady good view (forE xs body)"
  by (induction xs) (auto intro: steady_bindE)

text \<open>The image that \<open>Create\<close> registers.\<close>

definition new_layer :: "layer_id \<Rightarrow> layer_id \<Rightarrow> string \<Rightarrow> image" where
  "new_layer i p c = empty_image\<lparr>ID := GraphID i, Parent := GraphID p, Container := c\<rparr>"

lemma new_layer_simps [simp]:
  "ID (new_layer i p c) = GraphID i" "Parent (new_layer i p c) = GraphID p"
  "Container (new_layer i p c) = c" "Size (new_layer i p c) = 0"
  by (simp_all add: new_layer_def empty_image_def)

text \<open>
  Registering never replaces: a call for an ID that is registered succeeds and changes nothing.  A
  new ID enters with the image it was registered with, its size measured by the store.
\<close>

definition entered :: "image \<Rightarrow> (string \<rightharpoonup> image) \<Rightarrow> unit outcome \<Rightarrow> (string \<rightharpoonup> image) \<Rightarrow> bool" where
  "entered img L r L' \<longleftrightarrow> (case r of
       Inr _ \<Rightarrow> if ID img \<in> dom L then L' = L
               else (\<exists>sz. 0 \<le> sint sz \<and> L' = L(ID img \<mapsto> img\<lparr>Size := sz\<rparr>))
     | Inl (Err _) \<Rightarrow> ID img \<notin> dom L \<and> L' = L
     | Inl (Panic _) \<Rightarrow> False)"

definition add_layer :: "image \<Rightarrow> (string \<rightharpoonup> image) \<Rightarrow> (string \<rightharpoonup> image)" where
  "add_layer img L = (if ID img \<in> dom L then L else L(ID img \<mapsto> img))"

definition created :: "image \<Rightarrow> (string \<rightharpoonup> image) \<Rightarrow> unit outcome \<Rightarrow> (string \<rightharpoonup> image) \<Rightarrow> bool" where
  "created img L r L' \<longleftrightarrow> (case r of
       Inr _ \<Rightarrow> L' = add_layer img L
     | Inl (Err _) \<Rightarrow> ID img \<notin> dom L \<and> L' = L
     | Inl (Panic _) \<Rightarrow> False)"

text \<open>
  Creating a namespaced copy goes through several steps; when one fails, the layer may stay
  registered without its parent.
\<close>

definition copied :: "layer_id \<Rightarrow> layer_id \<Rightarrow> (string \<rightharpoonup> image) \<Rightarrow> unit outcome \<Rightarrow> (string \<rightharpoonup> image) \<Rightarrow> bool" where
  "copied i p L r L' \<longleftrightarrow> (case r of
       Inr _ \<Rightarrow> L' = L(GraphID i \<mapsto> new_layer i p [])
     | Inl (Err _) \<Rightarrow> L' = L \<or> L' = L(GraphID i \<mapsto> new_layer i (DockerImageID []) [])
     | Inl (Panic _) \<Rightarrow> False)"

text \<open>Layers are added at some IDs that were free; everything that was there stays as it was.\<close>

definition grows :: "string set \<Rightarrow> (string \<rightharpoonup> image) \<Rightarrow> (string \<rightharpoonup> image) \<Rightarrow> bool" where
  "grows S L L' \<longleftrightarrow> (\<forall>j. L' j = L j \<or> j \<in> S \<and> L j = None)"

lemma grows_refl [simp]: "grows S L L"
  by (simp add: grows_def)

lemma grows_trans: "grows S L L1 \<Longrightarrow> grows T L1 L2 \<Longrightarrow> grows (S \<union> T) L L2"
  unfolding grows_def by (metis UnCI)

lemma grows_add_layer: "ID img \<in> S \<Longrightarrow> grows S L (add_layer img L)"
  by (auto simp: grows_def add_layer_def)

lemma dom_add_layer: "ID img \<in> dom (add_layer img L)"
  by (auto simp: add_layer_def)

lemma grows_upd: "i \<in> S \<Longrightarrow> L i = None \<Longrightarrow> grows S L (L(i := x))"
  by (simp add: grows_def)

lemma grows_created: "created img L r L' \<Longrightarrow> grows {ID img} L L'"
  by (auto simp: created_def grows_add_layer split: sum.splits failure.splits)

lemma grows_entered: "entered img L r L' \<Longrightarrow> grows {ID img} L L'"
  by (auto simp: entered_def grows_def split: sum.splits failure.splits if_splits)

lemma grows_copied: "copied i p L r L' \<Longrightarrow> GraphID i \<notin> dom L \<Longrightarrow> grows {GraphID i} L L'"
  by (auto simp: copied_def grows_def split: sum.splits failure.splits if_splits)

lemma steady_keeps: "steady good view m \<Longrightarrow> keeps (\<lambda>w. good w \<and> view w = v) m"
  unfolding keeps_def by (metis prod.collapse steadyD(1,2))

text \<open>
  What the creator of container layers relies on.  \<open>mount_point\<close> are the paths that the store gives
  out for its layers.
\<close>

locale creating_store = layer_store +
  fixes mount_point :: "string \<Rightarrow> bool"
  assumes Create_plain: "good w \<Longrightarrow> \<not> is_namespaced i \<Longrightarrow> ValidateID (GraphID i) \<Longrightarrow>
        GraphID p = [] \<or> ValidateID (GraphID p) \<Longrightarrow> Create cake i p c w = (r, w') \<Longrightarrow>
        good w' \<and> created (new_layer i p c) (layers w) r (layers w')"
    and Create_copy: "good w \<Longrightarrow> is_namespaced i \<Longrightarrow> GraphID i \<notin> dom (layers w) \<Longrightarrow>
        ValidateID (GraphID i) \<Longrightarrow> ValidateID (GraphID p) \<Longrightarrow> Create cake i p c w = (r, w') \<Longrightarrow>
        good w' \<and> copied i p (layers w) r (layers w')"
    and Register_effect: "good w \<Longrightarrow> ValidateID (ID img) \<Longrightarrow> Parent img = [] \<or> ValidateID (Parent img) \<Longrightarrow>
        ParentID img = [] \<Longrightarrow> Register cake img data w = (r, w') \<Longrightarrow>
        good w' \<and> entered img (layers w) r (layers w')"
    and RegisterWithQuota_effect: "good w \<Longrightarrow> ValidateID (ID img) \<Longrightarrow> Parent img = [] \<or> ValidateID (Parent img) \<Longrightarrow>
        ParentID img = [] \<Longrightarrow> RegisterWithQuota cake img data quota w = (r, w') \<Longrightarrow>
        good w' \<and> entered img (layers w) r (layers w')"
    and Path_steady: "ValidateID (GraphID i) \<Longrightarrow> steady good layers (Path cake i)"
    and Path_result: "ValidateID (GraphID i) \<Longrightarrow> Path cake i w = (Inr dir, w') \<Longrightarrow> mount_point dir"
    and QuotaedPath_steady: "ValidateID (GraphID i) \<Longrightarrow> steady good layers (QuotaedPath cake i quota)"
    and QuotaedPath_result: "ValidateID (GraphID i) \<Longrightarrow> QuotaedPath cake i quota w = (Inr dir, w') \<Longrightarrow>
        mount_point dir"
    and Unmount_steady: "ValidateID (GraphID i) \<Longrightarrow> steady good layers (Unmount cake i)"

end
