(* ===== verification/Dist_Client.thy ===== *)
theory Dist_Client
  imports Cake
begin

text \<open>
  The registry client, \<open>src/distclient/client.go\<close> and \<open>insecure_registry_list.go\<close>.

  The HTTP client, the registry's API client and the JSON codec are libraries: the record \<open>http\<close>
  holds the calls that the code makes, over a world of any type.  What is modelled is what the
  code does with them: which scheme it falls back to and when, which registries may be
  insecure, and how the two lists of a manifest become a chain of layers.
\<close>

section \<open>Layers and manifests\<close>

record layer =
  BlobSum :: digest
  StrongID :: digest
  ParentStrongID :: digest
  Image :: image

type_synonym manifest = "layer list"

record 'w conn =
  GetManifest :: "string \<Rightarrow> ('w, manifest) prog"
  GetBlobReader :: "digest \<Rightarrow> ('w, reader) prog"

text \<open>
  \<open>toLayers\<close>: \<open>parse\<close> is \<open>json.Unmarshal\<close> into an image, \<open>makeConfig\<close> is \<open>image.MakeImageConfig\<close>
  (the empty configuration when it fails, whose error the code drops) and the strong ID is the
  SHA-256 digest of the configuration.  The lists run from the top layer down; the walk runs up
  from the last one.  The history must be as long as the list of layers: an index beyond its end
  panics.
\<close>

definition make_layer ::
  "(string \<Rightarrow> go_error + image) \<Rightarrow> (string \<Rightarrow> digest \<Rightarrow> digest \<Rightarrow> go_error + string) \<Rightarrow>
    digest \<Rightarrow> string \<Rightarrow> digest \<Rightarrow> layer outcome" where
  "make_layer parse makeConfig blobSum v1Compatibility parent =
     (case parse v1Compatibility of
        Inl e \<Rightarrow> Inl (Err e)
      | Inr img \<Rightarrow>
          let config = (case makeConfig v1Compatibility blobSum parent of Inl _ \<Rightarrow> [] | Inr c \<Rightarrow> c)
          in Inr \<lparr>BlobSum = blobSum, StrongID = canonical_digest config,
                  ParentStrongID = parent, Image = img\<rparr>)"

fun to_layers_up ::
  "(string \<Rightarrow> go_error + image) \<Rightarrow> (string \<Rightarrow> digest \<Rightarrow> digest \<Rightarrow> go_error + string) \<Rightarrow>
    nat \<Rightarrow> digest list \<Rightarrow> string list \<Rightarrow> digest \<Rightarrow> layer list \<Rightarrow> layer list outcome" where
  "to_layers_up parse makeConfig 0 fsl history parent r = Inr r"
| "to_layers_up parse makeConfig (Suc i) fsl history parent r =
     (if length history \<le> i then Inl (Panic ''index out of range'')
      else case make_layer parse makeConfig (fsl ! i) (history ! i) parent of
        Inl f \<Rightarrow> Inl f
      | Inr l \<Rightarrow> to_layers_up parse makeConfig i fsl history (StrongID l) (r @ [l]))"

definition toLayers ::
  "(string \<Rightarrow> go_error + image) \<Rightarrow> (string \<Rightarrow> digest \<Rightarrow> digest \<Rightarrow> go_error + string) \<Rightarrow>
    digest list \<Rightarrow> string list \<Rightarrow> manifest outcome" where
  "toLayers parse makeConfig fsl history = to_layers_up parse makeConfig (length fsl) fsl history [] []"

text \<open>
  The client of a repository on a registry, \<open>distribution.Repository\<close>, is a library: its manifest
  service, which gives the two lists of a tag's manifest, and its blobs.  A connection wraps it.
\<close>

record 'w repository =
  Manifests :: "('w, string \<Rightarrow> ('w, digest list \<times> string list) prog) prog"
  BlobsOpen :: "digest \<Rightarrow> ('w, reader) prog"

definition conn_GetManifest ::
  "(string \<Rightarrow> go_error + image) \<Rightarrow> (string \<Rightarrow> digest \<Rightarrow> digest \<Rightarrow> go_error + string) \<Rightarrow>
    'w repository \<Rightarrow> string \<Rightarrow> ('w, manifest) prog" where
  "conn_GetManifest parse makeConfig client tag =
     bindE (Manifests client) (\<lambda>GetByTag.
     bindE (GetByTag tag) (\<lambda>(FSLayers, History).
     liftO (toLayers parse makeConfig FSLayers History)))"

definition conn_GetBlobReader :: "'w repository \<Rightarrow> digest \<Rightarrow> ('w, reader) prog" where
  "conn_GetBlobReader client d = BlobsOpen client d"

definition conn_of ::
  "(string \<Rightarrow> go_error + image) \<Rightarrow> (string \<Rightarrow> digest \<Rightarrow> digest \<Rightarrow> go_error + string) \<Rightarrow>
    'w repository \<Rightarrow> 'w conn" where
  "conn_of parse makeConfig client = \<lparr>GetManifest = conn_GetManifest parse makeConfig client,
     GetBlobReader = conn_GetBlobReader client\<rparr>"

text \<open>A chain: every layer names the one before it as its parent, the first none.\<close>

fun chained :: "digest \<Rightarrow> layer list \<Rightarrow> bool" where
  "chained parent [] = True"
| "chained parent (l # ls) \<longleftrightarrow> ParentStrongID l = parent \<and> chained (StrongID l) ls"

definition last_id :: "digest \<Rightarrow> layer list \<Rightarrow> digest" where
  "last_id parent ls = (if ls = [] then parent else StrongID (last ls))"

lemma chained_append:
  "chained parent (ls @ [l]) \<longleftrightarrow> chained parent ls \<and> ParentStrongID l = last_id parent ls"
  by (induction ls arbitrary: parent) (auto simp: last_id_def)

lemma make_layer_Inr:
  "make_layer parse makeConfig b h p = Inr l \<Longrightarrow>
    BlobSum l = b \<and> ParentStrongID l = p \<and> (\<exists>c. StrongID l = canonical_digest c)"
  by (auto simp: make_layer_def Let_def split: sum.splits)

lemma to_layers_up_Inr:
  "to_layers_up parse makeConfig n fsl history parent r = Inr ls \<Longrightarrow> n \<le> length fsl \<Longrightarrow>
    parent = last_id [] r \<Longrightarrow> chained [] r \<Longrightarrow>
    \<forall>l \<in> set r. \<exists>c. StrongID l = canonical_digest c \<Longrightarrow>
    map BlobSum ls = map BlobSum r @ rev (take n fsl) \<and> chained [] ls \<and>
    (\<forall>l \<in> set ls. \<exists>c. StrongID l = canonical_digest c)"
proof (induction n arbitrary: parent r)
  case (Suc n)
  from Suc.prems(1) obtain l where l: "make_layer parse makeConfig (fsl ! n) (history ! n) parent = Inr l"
    and rest: "to_layers_up parse makeConfig n fsl history (StrongID l) (r @ [l]) = Inr ls"
    by (auto split: if_splits sum.splits)
  note ml = make_layer_Inr [OF l]
  have "chained [] (r @ [l])" using ml Suc.prems(3,4) by (simp add: chained_append)
  moreover have "StrongID l = last_id [] (r @ [l])" by (simp add: last_id_def)
  ultimately show ?case
    using Suc.IH [OF rest] Suc.prems(2,5) ml by (auto simp: take_Suc_conv_app_nth)
qed simp

lemma to_layers_up_no_panic:
  "n \<le> length history \<Longrightarrow> to_layers_up parse makeConfig n fsl history parent r \<noteq> Inl (Panic s)"
  by (induction n arbitrary: parent r)
     (auto simp: make_layer_def Let_def split: sum.splits)

section \<open>Insecure registries\<close>

text \<open>
  \<open>net.ParseIP\<close> and \<open>net.ParseCIDR\<close> for IPv4.  The host is cut at its first colon before it is
  parsed, so it is never an IPv6 address; an IPv6 entry of the list contains no such host and is
  not parsed here (networks of IPv4-mapped IPv6 addresses are not modelled).
\<close>

type_synonym ip = "nat list"

record ip_net =
  netIP :: ip
  netMask :: ip

text \<open>Dotted decimal: four numbers below 256.\<close>

definition parse_octet :: "string \<Rightarrow> nat option" where
  "parse_octet s = (if s \<noteq> [] \<and> list_all is_digit s
     then (let n = read_nat s in if n < 256 then Some n else None) else None)"

definition ParseIPv4 :: "string \<Rightarrow> ip option" where
  "ParseIPv4 s = (let ps = map parse_octet (split_on CHR ''.'' s) in
     if length ps = 4 \<and> None \<notin> set ps then Some (map the ps) else None)"

text \<open>The mask of \<open>n\<close> leading ones, octet by octet.\<close>

definition mask_octet :: "nat \<Rightarrow> nat" where
  "mask_octet n = 256 - 2 ^ (8 - min 8 n)"

definition CIDRMask :: "nat \<Rightarrow> ip" where
  "CIDRMask n = map (\<lambda>i. mask_octet (n - 8 * i)) [0..<4]"

definition mask_ip :: "ip \<Rightarrow> ip \<Rightarrow> ip" where
  "mask_ip a m = map2 (\<lambda>x y. unsigned (and (word_of_nat x :: 8 word) (word_of_nat y))) a m"

definition ParseCIDRv4 :: "string \<Rightarrow> ip_net option" where
  "ParseCIDRv4 s = (case str_index s ''/'' of
     None \<Rightarrow> None
   | Some i \<Rightarrow>
       let m = drop (i + 1) s in
       (case ParseIPv4 (take i s) of
          None \<Rightarrow> None
        | Some a \<Rightarrow>
            if m \<noteq> [] \<and> list_all is_digit m \<and> read_nat m \<le> 32
            then Some \<lparr>netIP = mask_ip a (CIDRMask (read_nat m)), netMask = CIDRMask (read_nat m)\<rparr>
            else None))"

definition net_Contains :: "ip_net \<Rightarrow> ip option \<Rightarrow> bool" where
  "net_Contains n a = (case a of
     None \<Rightarrow> False
   | Some a \<Rightarrow> length a = length (netIP n) \<and> mask_ip a (netMask n) = mask_ip (netIP n) (netMask n))"

text \<open>
  The list of the code: exact entries, and networks that contain the host's address without its
  port.
\<close>

definition checkCIDR :: "string \<Rightarrow> string \<Rightarrow> bool" where
  "checkCIDR entry element = (case ParseCIDRv4 entry of
     None \<Rightarrow> False
   | Some network \<Rightarrow> net_Contains network (ParseIPv4 (hd (split_on CHR '':'' element))))"

fun list_contains :: "string list \<Rightarrow> string \<Rightarrow> bool" where
  "list_contains [] element = False"
| "list_contains (e # es) element =
     (if e = element then True else if checkCIDR e element then True else list_contains es element)"

definition AllowInsecure :: "string list \<Rightarrow> string \<Rightarrow> bool" where
  "AllowInsecure l host = list_contains l host"

lemma AllowInsecure_iff:
  "AllowInsecure l host \<longleftrightarrow> (\<exists>e \<in> set l. e = host \<or> checkCIDR e host)"
  unfolding AllowInsecure_def by (induction l) auto

section \<open>Connecting\<close>

text \<open>
  What a \<open>http.RoundTripper\<close> is made of: whether its TLS configuration skips the verification of
  certificates, the responses that the challenge manager of its authorizer was given, the
  credentials, and the repository that the token handler asks to pull from.  (The proxy, the
  timeouts and the keep-alive of the dialer are constants.)
\<close>

record 'resp round_tripper =
  InsecureSkipVerify :: bool
  challenges :: "'resp list"
  credentials :: "string \<times> string"
  pullScope :: string

text \<open>
  The libraries: a ping of a URL (with or without TLS verification) gives a response or an
  error, \<open>addResponse\<close> hands a response to the challenge manager, \<open>newRepository\<close> makes the
  client for a repository on a host over a transport, and the two codecs of \<open>toLayers\<close>.
\<close>

record ('w, 'resp) http =
  newRequest :: "string \<Rightarrow> go_error + string"
  ping :: "bool \<Rightarrow> string \<Rightarrow> ('w, 'resp) prog"
  addResponse :: "'resp \<Rightarrow> ('w, unit) prog"
  newRepository :: "string \<Rightarrow> string \<Rightarrow> 'resp round_tripper \<Rightarrow> ('w, 'w repository) prog"
  unmarshal_image :: "string \<Rightarrow> go_error + image"
  MakeImageConfig :: "string \<Rightarrow> digest \<Rightarrow> digest \<Rightarrow> go_error + string"

definition lift_result :: "go_error + 'a \<Rightarrow> ('w, 'a) prog" where
  "lift_result r = (case r of Inl e \<Rightarrow> throw e | Inr x \<Rightarrow> ret x)"

definition newTransport ::
  "('w, 'resp) http \<Rightarrow> string list \<Rightarrow> string \<Rightarrow> string \<Rightarrow> string \<Rightarrow> string \<Rightarrow>
    ('w, string \<times> 'resp round_tripper) prog" where
  "newTransport lib insecureRegistries host repo username password =
     (let skipVerify = AllowInsecure insecureRegistries host;
          transport = (\<lambda>responses. \<lparr>InsecureSkipVerify = skipVerify, challenges = responses,
            credentials = (username, password), pullScope = repo\<rparr>) in
      bindE (lift_result (newRequest lib (''https://'' @ host @ ''/v2/''))) (\<lambda>req.
      handleE (ping lib skipVerify req)
        (\<lambda>e. if \<not> AllowInsecure insecureRegistries host then throw e
             else bindE (lift_result (newRequest lib (''http://'' @ host @ ''/v2/''))) (\<lambda>req2.
               bindE (ping lib skipVerify req2) (\<lambda>_. ret (''http://'' @ host, transport []))))
        (\<lambda>resp. bindE (addResponse lib resp) (\<lambda>_. ret (''https://'' @ host, transport [resp])))))"

definition Dial ::
  "('w, 'resp) http \<Rightarrow> string list \<Rightarrow> string \<Rightarrow> string \<Rightarrow> string \<Rightarrow> string \<Rightarrow> ('w, 'w conn) prog" where
  "Dial lib insecureRegistries host repo username password =
     bindE (newTransport lib insecureRegistries host repo username password) (\<lambda>(url, transport).
     bindE (newRepository lib repo url transport) (\<lambda>client.
     ret (conn_of (unmarshal_image lib) (MakeImageConfig lib) client)))"

section \<open>What a manifest becomes\<close>

text \<open>
  C27: The layers of a manifest.  Layers come out base first, in the reverse of the manifest's order,
  each with the digest of the blob it was listed with; the first has no parent and every other one
  has the layer before it as its parent; every ID is the SHA-256 digest of a configuration.  When
  there is a history entry for every layer, there is no panic.
\<close>

theorem toLayers_chain:
  shows "(case toLayers parse makeConfig fsl history of
      Inr ls \<Rightarrow> map BlobSum ls = rev fsl \<and> chained [] ls \<and> (\<forall>l \<in> set ls. \<exists>c. StrongID l = canonical_digest c)
    | Inl (Err _) \<Rightarrow> True
    | Inl (Panic _) \<Rightarrow> length history < length fsl)"
proof (cases "toLayers parse makeConfig fsl history")
  case (Inl f)
  show ?thesis
  proof (cases f)
    case (Panic s)
    then have "\<not> length fsl \<le> length history"
      using Inl to_layers_up_no_panic [of "length fsl" history] unfolding toLayers_def by blast
    with Inl Panic show ?thesis by simp
  qed (simp add: Inl)
next
  case (Inr ls)
  from to_layers_up_Inr [OF Inr [unfolded toLayers_def]] Inr show ?thesis
    by (simp add: last_id_def)
qed

lemma toLayers_chain_witness:
  "\<exists>ls. toLayers (\<lambda>_. Inr empty_image) (\<lambda>s d p. Inr s) [''sha256:b'', ''sha256:a''] [''2'', ''1''] = Inr ls \<and>
     map BlobSum ls = [''sha256:a'', ''sha256:b''] \<and> chained [] ls"
proof -
  obtain ls where ls: "toLayers (\<lambda>_. Inr empty_image) (\<lambda>s d p. Inr s) [''sha256:b'', ''sha256:a''] [''2'', ''1''] = Inr ls"
    by (simp add: toLayers_def make_layer_def numeral_2_eq_2)
  with toLayers_chain [where parse = "\<lambda>_. Inr empty_image" and makeConfig = "\<lambda>s d p. Inr s"
    and fsl = "[''sha256:b'', ''sha256:a'']" and history = "[''2'', ''1'']"]
  show ?thesis by simp
qed

section \<open>Which registries are reached without TLS\<close>

text \<open>
  C28: A registry that is not listed is spoken to over verified TLS only.  When the host is neither in
  the list nor in a network of it, \<open>Dial\<close> is exactly this: one ping of the https address with the
  verification of certificates switched on, and, if that succeeds, a client for the https address
  whose transport verifies certificates, too.  Nothing is asked over http or without verification,
  also when the ping fails: its error is returned.
\<close>

theorem Dial_secure:
  assumes "\<forall>e \<in> set l. e \<noteq> host \<and> \<not> checkCIDR e host"
  shows "Dial lib l host repo username password =
    bindE (lift_result (newRequest lib (''https://'' @ host @ ''/v2/''))) (\<lambda>req.
    bindE (ping lib False req) (\<lambda>resp.
    bindE (addResponse lib resp) (\<lambda>_.
    bindE (newRepository lib repo (''https://'' @ host) \<lparr>InsecureSkipVerify = False, challenges = [resp],
      credentials = (username, password), pullScope = repo\<rparr>) (\<lambda>client.
    ret (conn_of (unmarshal_image lib) (MakeImageConfig lib) client)))))"
proof -
  have "\<not> AllowInsecure l host" using assms by (auto simp: AllowInsecure_iff)
  then show ?thesis
    by (simp add: Dial_def newTransport_def Let_def handleE_rethrow bindE_assoc)
qed

text \<open>A library whose pings fail, in a world that is the list of the pings that were sent.\<close>

definition failing_http :: "((bool \<times> string) list, unit) http" where
  "failing_http = \<lparr>newRequest = Inr, ping = \<lambda>skip url w. (Inl (Err EOF), w @ [(skip, url)]),
     addResponse = \<lambda>_. ret (), newRepository = \<lambda>_ _ _. throw EOF,
     unmarshal_image = \<lambda>_. Inl EOF, MakeImageConfig = \<lambda>_ _ _. Inl EOF\<rparr>"

lemma Dial_secure_witness:
  "snd (Dial failing_http [''10.0.0.0/8'', ''localhost''] ''docker.io'' ''library/busybox'' [] [] []) =
     [(False, ''https://docker.io/v2/'')] \<and>
   snd (Dial failing_http [''10.0.0.0/8'', ''localhost''] ''10.1.2.3'' ''busybox'' [] [] []) =
     [(True, ''https://10.1.2.3/v2/''), (True, ''http://10.1.2.3/v2/'')]"
proof -
  have l: "\<forall>e \<in> set [''10.0.0.0/8'', ''localhost'']. e \<noteq> ''docker.io'' \<and> \<not> checkCIDR e ''docker.io''"
    by code_simp
  have k: "AllowInsecure [''10.0.0.0/8'', ''localhost''] ''10.1.2.3''" by code_simp
  from Dial_secure [OF l, of failing_http "''library/busybox''" "[]" "[]"] show ?thesis
    using k by (simp add: failing_http_def lift_result_def bindE_def Dial_def newTransport_def handleE_def)
qed

end
