(* ===== verification/Urls.thy ===== *)
theory Urls
  imports Go_Strings
begin

text \<open>
  The part of Go's \<open>net/url\<close> that garden-shed uses: \<open>Parse\<close> and the fields scheme, host, path and
  fragment, and \<open>String\<close> for error messages.  Not modelled: the character checks on hosts and user
  names (a host is taken as it stands, what precedes the last at-sign of an authority is
  dropped), queries beyond cutting them off, and the escaping done by \<open>String\<close>.
\<close>

record url =
  Scheme :: string
  Host :: string
  UrlPath :: string
  Fragment :: string

definition empty_url :: url where
  "empty_url = \<lparr>Scheme = [], Host = [], UrlPath = [], Fragment = []\<rparr>"

text \<open>\<open>split(s, c, true)\<close>: the parts before and after the first \<open>c\<close>, both without it.\<close>

definition cut :: "char \<Rightarrow> string \<Rightarrow> string \<times> string" where
  "cut c s = (takeWhile (\<lambda>x. x \<noteq> c) s, tl (dropWhile (\<lambda>x. x \<noteq> c) s))"

definition is_letter :: "char \<Rightarrow> bool" where
  "is_letter c \<longleftrightarrow> (let n = of_char c :: nat in 65 \<le> n \<and> n \<le> 90 \<or> 97 \<le> n \<and> n \<le> 122)"

definition lower :: "char \<Rightarrow> char" where
  "lower c = (let n = of_char c :: nat in if 65 \<le> n \<and> n \<le> 90 then char_of (n + 32) else c)"

text \<open>\<open>getscheme\<close>; \<open>acc\<close> is what was read, reversed.\<close>

fun getscheme :: "string \<Rightarrow> string \<Rightarrow> string \<Rightarrow> go_error + string \<times> string" where
  "getscheme raw acc [] = Inr ([], raw)"
| "getscheme raw acc (c # cs) =
     (if is_letter c then getscheme raw (c # acc) cs
      else if is_digit c \<or> c \<in> {CHR ''+'', CHR ''-'', CHR ''.''} then
        (if acc = [] then Inr ([], raw) else getscheme raw (c # acc) cs)
      else if c = CHR '':'' then
        (if acc = [] then Inl (Errorf ''missing protocol scheme'') else Inr (rev acc, cs))
      else Inr ([], raw))"

definition hex_value :: "char \<Rightarrow> nat option" where
  "hex_value c = (let n = of_char c :: nat in
     if is_digit c then Some (n - 48)
     else if 97 \<le> n \<and> n \<le> 102 then Some (n - 87)
     else if 65 \<le> n \<and> n \<le> 70 then Some (n - 55) else None)"

fun unescape :: "string \<Rightarrow> go_error + string" where
  "unescape [] = Inr []"
| "unescape (c # cs) =
     (if c = CHR ''%'' then
        (case cs of
           a # b # r \<Rightarrow>
             (case (hex_value a, hex_value b) of
                (Some x, Some y) \<Rightarrow> map_sum id (Cons (char_of (16 * x + y))) (unescape r)
              | _ \<Rightarrow> Inl (Errorf ''invalid URL escape''))
         | _ \<Rightarrow> Inl (Errorf ''invalid URL escape''))
      else map_sum id (Cons c) (unescape cs))"

definition drop_user :: "string \<Rightarrow> string" where
  "drop_user s = rev (takeWhile (\<lambda>c. c \<noteq> CHR ''@'') (rev s))"

definition parse_rest :: "string \<Rightarrow> string \<Rightarrow> go_error + url" where
  "parse_rest scheme rest0 =
     (let rest = fst (cut CHR ''?'' rest0) in
      if \<not> prefix ''/'' rest \<and> scheme \<noteq> [] then Inr (empty_url\<lparr>Scheme := scheme\<rparr>)
      else if \<not> prefix ''/'' rest \<and> CHR '':'' \<in> set (fst (cut CHR ''/'' rest)) then
        Inl (Errorf ''first path segment in URL cannot contain colon'')
      else
        let auth = prefix ''//'' rest \<and> (scheme \<noteq> [] \<or> \<not> prefix ''///'' rest);
            host = (if auth then takeWhile (\<lambda>c. c \<noteq> CHR ''/'') (drop 2 rest) else []);
            path = (if auth then dropWhile (\<lambda>c. c \<noteq> CHR ''/'') (drop 2 rest) else rest)
        in map_sum id (\<lambda>p. empty_url\<lparr>Scheme := scheme, Host := drop_user host, UrlPath := p\<rparr>)
             (unescape path))"

definition url_Parse :: "string \<Rightarrow> go_error + url" where
  "url_Parse raw =
     (case getscheme (fst (cut CHR ''#'' raw)) [] (fst (cut CHR ''#'' raw)) of
        Inl e \<Rightarrow> Inl e
      | Inr (scheme, rest) \<Rightarrow>
          (case parse_rest (map lower scheme) rest of
             Inl e \<Rightarrow> Inl e
           | Inr u \<Rightarrow> map_sum id (\<lambda>f. u\<lparr>Fragment := f\<rparr>) (unescape (snd (cut CHR ''#'' raw)))))"

definition url_String :: "url \<Rightarrow> string" where
  "url_String u =
     (if Scheme u \<noteq> [] then Scheme u @ '':'' else []) @
     (if (Scheme u \<noteq> [] \<or> Host u \<noteq> []) \<and> (Host u \<noteq> [] \<or> UrlPath u \<noteq> []) then ''//'' @ Host u else []) @
     UrlPath u @ (if Fragment u \<noteq> [] then ''#'' @ Fragment u else [])"

lemma url_Parse_examples:
  "url_Parse ''docker://registry:5000/busybox#1.0'' =
     Inr \<lparr>Scheme = ''docker'', Host = ''registry:5000'', UrlPath = ''/busybox'', Fragment = ''1.0''\<rparr>"
  "url_Parse ''docker:///cloudfoundry/preexisting_users'' =
     Inr \<lparr>Scheme = ''docker'', Host = [], UrlPath = ''/cloudfoundry/preexisting_users'', Fragment = []\<rparr>"
  "url_Parse ''/some/path'' = Inr \<lparr>Scheme = [], Host = [], UrlPath = ''/some/path'', Fragment = []\<rparr>"
  by code_simp+

end
