(* ===== verification/Fetching.thy ===== *)
theory Fetching
  imports Dist_Client Urls
begin

text \<open>
  Fetching root file systems: \<open>src/repository_fetcher\<close>.

  \<open>Verify\<close> (\<open>verify.go\<close>) copies a stream into a temporary file and checks its digest; \<open>Remote\<close>
  (\<open>remote.go\<close>) fetches the layers of a manifest that the cake does not have; \<open>Local\<close>
  (\<open>local.go\<close>) imports a directory; \<open>CompositeFetcher\<close> (\<open>composite.go\<close>) chooses between them and
  \<open>Retryable\<close> (\<open>retryable.go\<close>) tries three times; \<open>ImageRetainer\<close> (\<open>image_retainer.go\<close>) turns
  image URLs into held graph IDs.  The lock around a layer's download is the subject of the
  theory \<open>Fetch_Lock\<close>; one fetch is a sequential program here.
\<close>

section \<open>Temporary files\<close>

text \<open>
  \<open>ioutil.TempFile\<close>: the first of the random names \<open>rnd 0, rnd 1, \<dots>\<close> that is free, with the
  library's bound of 10000 tries.  The file is created empty.
\<close>

fun temp_name :: "(nat \<Rightarrow> string) \<Rightarrow> (string \<rightharpoonup> inode) \<Rightarrow> string \<Rightarrow> nat \<Rightarrow> nat \<Rightarrow> string option" where
  "temp_name rnd fs p 0 i = None"
| "temp_name rnd fs p (Suc n) i =
     (if fs (p @ rnd i) = None then Some (p @ rnd i) else temp_name rnd fs p n (Suc i))"

definition temp_file :: "(nat \<Rightarrow> string) \<Rightarrow> string \<Rightarrow> string \<Rightarrow> ('z os_state_scheme, string) prog" where
  "temp_file rnd dir pat =
     (let p = path_join [dir, pat] in
      bindE (os_check OpOpen p) (\<lambda>_. \<lambda>w.
      if \<not> is_dir_at (files w) dir then (Inl (Err (NotExist p)), w)
      else case temp_name rnd (files w) p 10000 0 of
        None \<Rightarrow> (Inl (Err (Errorf (''open '' @ p @ '': file exists''))), w)
      | Some q \<Rightarrow> (Inr q, put_file q (Some (new_inode (Regular []))) w)))"

lemma temp_name_free: "temp_name rnd fs p n i = Some q \<Longrightarrow> fs q = None"
  by (induction n arbitrary: i) (auto split: if_splits)

lemma temp_file_InrE:
  assumes "temp_file rnd d pat w = (Inr q, w')"
  shows "is_dir_at (files w) d \<and> files w q = None \<and>
    temp_name rnd (files w) (path_join [d, pat]) 10000 0 = Some q \<and>
    w' = put_file q (Some (new_inode (Regular []))) w"
  using assms temp_name_free
  by (auto simp: temp_file_def Let_def bindE_def os_check_def split: option.splits if_splits)

lemma temp_file_InlE:
  assumes "temp_file rnd d pat w = (Inl f, w')"
  shows "w' = w \<and> (\<exists>e. f = Err e)"
  using assms
  by (auto simp: temp_file_def Let_def bindE_def os_check_def split: option.splits if_splits)

lemma temp_name_form: "temp_name rnd fs p n i = Some q \<Longrightarrow> \<exists>j. q = p @ rnd j"
  by (induction n arbitrary: i) (auto split: if_splits)

text \<open>The random part of a name is a non-empty string of digits, as the library makes it.\<close>

definition random_digits :: "(nat \<Rightarrow> string) \<Rightarrow> bool" where
  "random_digits rnd \<longleftrightarrow> (\<forall>i. list_all is_digit (rnd i))"

lemma random_no_slash: "random_digits rnd \<Longrightarrow> slash \<notin> set (rnd j)"
proof -
  have "\<not> is_digit slash" by (simp add: is_digit_def)
  then show "random_digits rnd \<Longrightarrow> slash \<notin> set (rnd j)"
    unfolding random_digits_def list_all_iff by blast
qed

section \<open>Verifying a stream\<close>

text \<open>
  \<open>digest.NewDigestVerifier\<close>: the digest is validated; SHA-256 is computed here, other algorithms
  (SHA-384, SHA-512 and tarsums) are the parameter \<open>other\<close>.
\<close>

definition NewDigestVerifier ::
  "(digest \<Rightarrow> go_error + (string \<Rightarrow> bool)) \<Rightarrow> digest \<Rightarrow> go_error + (string \<Rightarrow> bool)" where
  "NewDigestVerifier other d =
     (if \<not> digest_Validate d then Inl (Errorf ''invalid checksum digest format'')
      else if takeWhile (\<lambda>c. c \<noteq> CHR '':'') d = ''sha256''
      then Inr (\<lambda>data. d = canonical_digest data)
      else other d)"

text \<open>
  All bytes of a stream, with the fuel that \<open>Quotaed_Reader\<close> proves to be enough, and the error
  that ended it.
\<close>

definition copy_stream ::
  "(string \<Rightarrow> string \<Rightarrow> go_error option) \<Rightarrow> layer_stream \<Rightarrow> (string \<times> go_error option) outcome option" where
  "copy_stream wr s = (case s of
     Plain r \<Rightarrow> map_option fst (io_copy script_read wr (Suc (script_todo r)) [] r)
   | Limited q \<Rightarrow> map_option fst (io_copy (Read script_read) wr (Suc (script_todo (DelegateReader q))) [] q))"

record verified =
  vFile :: string
  vData :: reader
  vSize :: int64

definition Verify ::
  "(nat \<Rightarrow> string) \<Rightarrow> (digest \<Rightarrow> go_error + (string \<Rightarrow> bool)) \<Rightarrow> layer_stream \<Rightarrow> digest \<Rightarrow>
    ('z os_state_scheme, verified) prog" where
  "Verify rnd other r d =
     (case NewDigestVerifier other d of
        Inl e \<Rightarrow> throw e
      | Inr verifies \<Rightarrow>
          bindE (temp_file rnd ''/tmp'' ''unverified-layer'') (\<lambda>tmp. \<lambda>w.
          (case copy_stream (\<lambda>_ _. os_fault w OpWrite tmp) r of
             None \<Rightarrow> (Inl (Panic ''out of fuel''), w)
           | Some (Inl f) \<Rightarrow> (Inl f, w)
           | Some (Inr (s, err)) \<Rightarrow>
               let w' = put_file tmp (Some (new_inode (Regular s))) w in
               (case err of
                  Some e \<Rightarrow> (Inl (Err e), w')
                | None \<Rightarrow>
                    if \<not> verifies s then (Inl (Err (Errorf ''digest verification failed'')), w')
                    else (Inr \<lparr>vFile = tmp, vData = [Data s], vSize = word_of_int (int (length s))\<rparr>, w')))))"

definition deleteCloser_Close :: "verified \<Rightarrow> ('z os_state_scheme, unit) prog" where
  "deleteCloser_Close v = os_remove (vFile v)"

lemma copy_stream_plain:
  "copy_stream no_write_error (Plain r) = Some (Inr (script_data r, script_fault r))"
  using script_copy [of r "Suc (script_todo r)" "[]"] by (auto simp: copy_stream_def)

lemma copy_stream_limited:
  assumes "- 1 \<le> sint (QuotaLeft q)"
  shows "copy_stream no_write_error (Limited q) =
    Some (Inr (quotaed_result (DelegateReader q) (QuotaLeft q)))"
proof -
  obtain t e where te: "quotaed_result (DelegateReader q) (QuotaLeft q) = (t, e)"
    by (cases "quotaed_result (DelegateReader q) (QuotaLeft q)")
  from quotaed_script_copy [OF _ assms te, of "Suc (script_todo (DelegateReader q))" "[]"]
  show ?thesis by (auto simp: copy_stream_def te)
qed

text \<open>The quota of a blob: a negative one is none (\<open>remote.go\<close>).\<close>

definition applyQuota :: "reader \<Rightarrow> int64 \<Rightarrow> layer_stream" where
  "applyQuota r quota = (if sint quota < 0 then Plain r else Limited (New r quota))"

text \<open>The copy always returns.\<close>

lemma copy_stream_returns:
  assumes "case s of Plain _ \<Rightarrow> True | Limited q \<Rightarrow> - 1 \<le> sint (QuotaLeft q)"
  shows "\<exists>t e. copy_stream wr s = Some (Inr (t, e))"
proof (cases s)
  case (Plain r)
  with scripted.copy_returns [of r "Suc (script_todo r)" wr "[]"] show ?thesis
    by (auto simp: copy_stream_def)
next
  case (Limited q)
  with quotaed_script.copy_returns [of q "Suc (script_todo (DelegateReader q))" wr "[]"] assms show ?thesis
    by (auto simp: copy_stream_def)
qed

text \<open>
  C18: Verification returns.  However long the stream and however it is cut into pieces, within a
  quota or without one, \<open>Verify\<close> comes to an end with data or with an error: the loop of \<open>io.Copy\<close>
  never uses up its fuel, and nothing panics.
\<close>

theorem Verify_returns:
  "\<exists>y w'. Verify rnd other (applyQuota r quota) d w = (y, w') \<and> (\<forall>p. y \<noteq> Inl (Panic p))"
proof -
  have copied: "\<exists>t e. copy_stream wr (applyQuota r quota) = Some (Inr (t, e))" for wr
    by (rule copy_stream_returns) (auto simp: applyQuota_def New_def)
  have temp: "\<exists>y w1. temp_file rnd dir pat w = (y, w1) \<and> (\<forall>p. y \<noteq> Inl (Panic p))" for dir pat
    by (cases "temp_file rnd dir pat w") (auto dest: temp_file_InlE)
  obtain y w1 where "temp_file rnd ''/tmp'' ''unverified-layer'' w = (y, w1)" "\<forall>p. y \<noteq> Inl (Panic p)"
    using temp by blast
  with copied [of "\<lambda>_ _. os_fault w1 OpWrite (projr y)"] show ?thesis
    by (auto simp: Verify_def bindE_def throw_def Let_def split: sum.splits failure.splits option.splits)
qed

section \<open>Images and fetchers\<close>

record fetched =
  ImageID :: string
  ImgEnv :: "string list"
  ImgVolumes :: "string list"
  ImgSize :: int64

text \<open>The interface \<open>RepositoryFetcher\<close>.\<close>

record 'w fetcher =
  Fetch :: "url \<Rightarrow> string \<Rightarrow> string \<Rightarrow> int64 \<Rightarrow> ('w, fetched) prog"
  FetchID :: "url \<Rightarrow> ('w, layer_id) prog"

section \<open>Remote images\<close>

record 'w remote =
  DefaultHost :: string
  DialTo :: "string \<Rightarrow> string \<Rightarrow> string \<Rightarrow> string \<Rightarrow> ('w, 'w conn) prog"
  RemoteCake :: "'w cake"
  Verifier :: "layer_stream \<Rightarrow> digest \<Rightarrow> ('w, verified) prog"

definition remote_host :: "string \<Rightarrow> url \<Rightarrow> string" where
  "remote_host defaultHost u = (if Host u = [] then defaultHost else Host u)"

text \<open>The repository: the path without its first byte, below \<open>library\<close> for official images.\<close>

definition remote_repo :: "string \<Rightarrow> url \<Rightarrow> string outcome" where
  "remote_repo host u =
     (if UrlPath u = [] then Inl (Panic ''slice bounds out of range'')
      else let path = tl (UrlPath u) in
        Inr (if host = ''registry-1.docker.io'' \<and> str_index path ''/'' = None
             then ''library/'' @ path else path))"

definition remote_tag :: "url \<Rightarrow> string" where
  "remote_tag u = (if Fragment u = [] then ''latest'' else Fragment u)"

definition remote_manifest ::
  "'w remote \<Rightarrow> url \<Rightarrow> string \<Rightarrow> string \<Rightarrow> ('w, 'w conn \<times> manifest) prog" where
  "remote_manifest r u username password =
     (let host = remote_host (DefaultHost r) u in
      bindE (liftO (remote_repo host u)) (\<lambda>path.
      bindE (DialTo r host path username password) (\<lambda>conn.
      bindE (handleE (GetManifest conn (remote_tag u))
        (\<lambda>e. throw (Errorf (''get manifest for tag '' @ Fragment u @ '' on repo '' @ url_String u @ '': '' @ err_msg e)))
        ret) (\<lambda>m. ret (conn, m)))))"

definition fetchLayer ::
  "'z os_state_scheme remote \<Rightarrow> 'z os_state_scheme conn \<Rightarrow> layer \<Rightarrow> int64 \<Rightarrow>
    ('z os_state_scheme, int64) prog" where
  "fetchLayer r conn l quota =
     bindE (liftO (digest_hex (StrongID l))) (\<lambda>h.
     handleE (Get (RemoteCake r) (DockerImageID h))
       (\<lambda>_.
         bindE (GetBlobReader conn (BlobSum l)) (\<lambda>blob.
         bindE (Verifier r (applyQuota blob quota) (BlobSum l)) (\<lambda>v.
         deferE (deleteCloser_Close v) (
         bindE (liftO (digest_hex (ParentStrongID l))) (\<lambda>p.
         handleE (RegisterWithQuota (RemoteCake r)
             (empty_image\<lparr>ID := h, Parent := p, Size := vSize v\<rparr>) (Some (vData v)) quota)
           (\<lambda>e. if str_contains (err_msg e) ''unexpected EOF''
                then throw (Errorf (err_msg e @ ''. Possible cause: '' @ err_msg QuotaExceededErr))
                else throw e)
           (\<lambda>_. ret (vSize v)))))))
       (\<lambda>img. ret (Size img)))"

text \<open>The sum of the sizes in the manifest, which wraps as \<open>int64\<close> does.\<close>

definition declared_size :: "manifest \<Rightarrow> int64" where
  "declared_size m = foldl (\<lambda>t l. t + Size (Image l)) 0 m"

definition config_env :: "layer \<Rightarrow> string list" where
  "config_env l = (case Config (Image l) of None \<Rightarrow> [] | Some c \<Rightarrow> Env c)"

definition config_vols :: "layer \<Rightarrow> string list" where
  "config_vols l = (case Config (Image l) of None \<Rightarrow> [] | Some c \<Rightarrow> Volumes c)"

primrec fetchLayers ::
  "'z os_state_scheme remote \<Rightarrow> 'z os_state_scheme conn \<Rightarrow> layer list \<Rightarrow> int64 \<Rightarrow>
    string list \<Rightarrow> string list \<Rightarrow> ('z os_state_scheme, string list \<times> string list) prog" where
  "fetchLayers r conn [] quota env vols = ret (env, vols)"
| "fetchLayers r conn (l # ls) quota env vols =
     bindE (fetchLayer r conn l quota) (\<lambda>sz.
       fetchLayers r conn ls (quota - sz) (env @ config_env l) (vols @ config_vols l))"

text \<open>The graph ID of the last layer; a manifest without layers panics.\<close>

definition last_layer_id :: "manifest \<Rightarrow> string outcome" where
  "last_layer_id m = (if m = [] then Inl (Panic ''index out of range'') else digest_hex (StrongID (last m)))"

definition Remote_Fetch ::
  "'z os_state_scheme remote \<Rightarrow> url \<Rightarrow> string \<Rightarrow> string \<Rightarrow> int64 \<Rightarrow> ('z os_state_scheme, fetched) prog" where
  "Remote_Fetch r u username password diskQuota =
     bindE (remote_manifest r u username password) (\<lambda>(conn, m).
     if sint diskQuota > 0 \<and> sint (declared_size m) > sint diskQuota
     then throw (Errorf ''quota exceeded'')
     else
     bindE (fetchLayers r conn m (if sint diskQuota \<le> 0 then - 1 else diskQuota) [] []) (\<lambda>(env, vols).
     bindE (liftO (last_layer_id m)) (\<lambda>i.
     ret \<lparr>ImageID = i, ImgEnv = env, ImgVolumes = vols, ImgSize = declared_size m\<rparr>)))"

definition Remote_FetchID :: "'w remote \<Rightarrow> url \<Rightarrow> ('w, layer_id) prog" where
  "Remote_FetchID r u =
     bindE (remote_manifest r u [] []) (\<lambda>(conn, m).
     bindE (liftO (last_layer_id m)) (\<lambda>i. ret (DockerImageID i)))"

section \<open>Local directories\<close>

text \<open>\<open>resolve\<close> follows one symbolic link, and only at the end of the path.\<close>

definition resolve :: "string \<Rightarrow> ('z os_state_scheme, string) prog" where
  "resolve path =
     bindE (handleE (os_lstat path)
       (\<lambda>e. throw (Errorf (''repository_fetcher: stat file: '' @ err_msg e))) ret) (\<lambda>info.
     case kind info of
       Symlink _ \<Rightarrow> handleE (os_readlink path)
         (\<lambda>e. throw (Errorf (''repository_fetcher: read link: '' @ err_msg e))) ret
     | _ \<Rightarrow> ret path)"

text \<open>When \<open>resolve\<close> fails it returns the empty path, which is the path of the ID.\<close>

definition ProvideID :: "string \<Rightarrow> ('z os_state_scheme, layer_id) prog" where
  "ProvideID path =
     handleE (resolve path) (\<lambda>_. ret (LocalImageID [] zero_time)) (\<lambda>p.
     handleE (os_lstat p) (\<lambda>_. ret (LocalImageID p zero_time)) (\<lambda>info.
     ret (LocalImageID p (mtime info))))"

record 'w local_fetcher =
  LocalCake :: "'w cake"
  DefaultRootFSPath :: string
  IDProvider :: "string \<Rightarrow> ('w, layer_id) prog"
  archive_Tar :: "string \<Rightarrow> ('w, reader) prog"

definition local_fetch ::
  "'z os_state_scheme local_fetcher \<Rightarrow> string \<Rightarrow> ('z os_state_scheme, string) prog" where
  "local_fetch l path0 =
     bindE (resolve path0) (\<lambda>path.
     bindE (IDProvider l path) (\<lambda>i.
     handleE (Get (LocalCake l) i)
       (\<lambda>_.
         bindE (handleE (archive_Tar l path)
           (\<lambda>e. throw (Errorf (''repository_fetcher: fetch local rootfs: untar rootfs: '' @ err_msg e))) ret) (\<lambda>tar.
         bindE (handleE (Register (LocalCake l) (empty_image\<lparr>ID := GraphID i\<rparr>) (Some tar))
           (\<lambda>e. throw (Errorf (''repository_fetcher: fetch local rootfs: register rootfs: '' @ err_msg e))) ret) (\<lambda>_.
         ret (GraphID i))))
       (\<lambda>_. ret (GraphID i))))"

definition Local_Fetch ::
  "'z os_state_scheme local_fetcher \<Rightarrow> url \<Rightarrow> string \<Rightarrow> string \<Rightarrow> int64 \<Rightarrow>
    ('z os_state_scheme, fetched) prog" where
  "Local_Fetch l u username password diskQuota =
     (let path = (if UrlPath u = [] then DefaultRootFSPath l else UrlPath u) in
      if path = [] then throw (Errorf ''RootFSPath: is a required parameter, since no default rootfs was provided to the server.'')
      else bindE (local_fetch l path) (\<lambda>i.
        ret \<lparr>ImageID = i, ImgEnv = [], ImgVolumes = [], ImgSize = 0\<rparr>))"

definition Local_FetchID :: "'w local_fetcher \<Rightarrow> url \<Rightarrow> ('w, layer_id) prog" where
  "Local_FetchID l u = IDProvider l (UrlPath u)"

definition local_fetcher_of :: "'z os_state_scheme local_fetcher \<Rightarrow> 'z os_state_scheme fetcher" where
  "local_fetcher_of l = \<lparr>Fetch = Local_Fetch l, FetchID = Local_FetchID l\<rparr>"

definition remote_fetcher_of :: "'z os_state_scheme remote \<Rightarrow> 'z os_state_scheme fetcher" where
  "remote_fetcher_of r = \<lparr>Fetch = Remote_Fetch r, FetchID = Remote_FetchID r\<rparr>"

text \<open>The two fetchers as \<open>Wire\<close> makes them.\<close>

definition wired_local ::
  "'z os_state_scheme cake \<Rightarrow> string \<Rightarrow> (string \<Rightarrow> ('z os_state_scheme, reader) prog) \<Rightarrow>
    'z os_state_scheme local_fetcher" where
  "wired_local cake rootFS tar =
     \<lparr>LocalCake = cake, DefaultRootFSPath = rootFS, IDProvider = ProvideID, archive_Tar = tar\<rparr>"

definition wired_remote ::
  "'z os_state_scheme cake \<Rightarrow> string \<Rightarrow>
    (string \<Rightarrow> string \<Rightarrow> string \<Rightarrow> string \<Rightarrow> ('z os_state_scheme, 'z os_state_scheme conn) prog) \<Rightarrow>
    (layer_stream \<Rightarrow> digest \<Rightarrow> ('z os_state_scheme, verified) prog) \<Rightarrow> 'z os_state_scheme remote" where
  "wired_remote cake dockerRegistry dial verify =
     \<lparr>DefaultHost = dockerRegistry, DialTo = dial, RemoteCake = cake, Verifier = verify\<rparr>"

section \<open>Choosing a fetcher and trying again\<close>

definition composite_Fetch ::
  "'w fetcher \<Rightarrow> 'w fetcher \<Rightarrow> url \<Rightarrow> string \<Rightarrow> string \<Rightarrow> int64 \<Rightarrow> ('w, fetched) prog" where
  "composite_Fetch localFetcher remoteFetcher u username password diskQuota =
     (if Scheme u = [] then Fetch localFetcher u [] [] diskQuota
      else Fetch remoteFetcher u username password diskQuota)"

definition composite_FetchID :: "'w fetcher \<Rightarrow> 'w fetcher \<Rightarrow> url \<Rightarrow> ('w, layer_id) prog" where
  "composite_FetchID localFetcher remoteFetcher u =
     (if Scheme u = [] then FetchID localFetcher u else FetchID remoteFetcher u)"

definition CompositeFetcher :: "'w fetcher \<Rightarrow> 'w fetcher \<Rightarrow> 'w fetcher" where
  "CompositeFetcher localFetcher remoteFetcher = \<lparr>Fetch = composite_Fetch localFetcher remoteFetcher,
     FetchID = composite_FetchID localFetcher remoteFetcher\<rparr>"

definition MAX_ATTEMPTS :: nat where
  "MAX_ATTEMPTS = 3"

text \<open>
  The loop of \<open>Retryable\<close>: \<open>stop\<close> is the error that is returned at once; the last error is
  returned when the attempts are used up.
\<close>

fun attempts :: "(go_error \<Rightarrow> bool) \<Rightarrow> ('w, 'a) prog \<Rightarrow> nat \<Rightarrow> go_error \<Rightarrow> ('w, 'a) prog" where
  "attempts stop m 0 err = throw err"
| "attempts stop m (Suc n) err =
     handleE m (\<lambda>e. if stop e then throw e else attempts stop m n e) ret"

definition is_quota_exceeded :: "go_error \<Rightarrow> bool" where
  "is_quota_exceeded e \<longleftrightarrow> e = QuotaExceededErr"

definition retry_Fetch ::
  "'w fetcher \<Rightarrow> url \<Rightarrow> string \<Rightarrow> string \<Rightarrow> int64 \<Rightarrow> ('w, fetched) prog" where
  "retry_Fetch f u username password diskQuota =
     attempts is_quota_exceeded (Fetch f u username password diskQuota) MAX_ATTEMPTS (Errorf [])"

definition retry_FetchID :: "'w fetcher \<Rightarrow> url \<Rightarrow> ('w, layer_id) prog" where
  "retry_FetchID f u = attempts (\<lambda>_. False) (FetchID f u) MAX_ATTEMPTS (Errorf [])"

definition Retryable :: "'w fetcher \<Rightarrow> 'w fetcher" where
  "Retryable f = \<lparr>Fetch = retry_Fetch f, FetchID = retry_FetchID f\<rparr>"

section \<open>What a verification guarantees\<close>

text \<open>Every stream the code makes of a blob can be copied; its data are those of the blob.\<close>

definition stream_ok :: "layer_stream \<Rightarrow> bool" where
  "stream_ok s \<longleftrightarrow> (case s of Plain _ \<Rightarrow> True | Limited q \<Rightarrow> - 1 \<le> sint (QuotaLeft q))"

definition stream_result :: "layer_stream \<Rightarrow> string \<times> go_error option" where
  "stream_result s = (case s of Plain r \<Rightarrow> (script_data r, script_fault r)
     | Limited q \<Rightarrow> quotaed_result (DelegateReader q) (QuotaLeft q))"

lemma copy_stream_result: "stream_ok s \<Longrightarrow> copy_stream no_write_error s = Some (Inr (stream_result s))"
  by (cases s) (simp_all add: stream_ok_def stream_result_def copy_stream_plain copy_stream_limited)

lemma stream_ok_applyQuota: "stream_ok (applyQuota r quota)"
  by (simp add: stream_ok_def applyQuota_def New_def)

lemma stream_result_applyQuota:
  assumes "stream_result (applyQuota r quota) = (s, None)"
  shows "s = script_data r" and "script_fault r = None" and "0 \<le> sint quota \<Longrightarrow> int (length s) \<le> sint quota"
  using assms
  by (auto simp: stream_result_def applyQuota_def New_def quotaed_result_def split: if_splits)

lemma Verify_run:
  assumes ok: "stream_ok r" and nf: "no_faults w" and ver: "NewDigestVerifier other d = Inr verifies"
    and tmp: "temp_file rnd ''/tmp'' ''unverified-layer'' w = (Inr q, w1)"
  shows "Verify rnd other r d w =
    (case stream_result r of (s, err) \<Rightarrow>
      (case err of
         Some e \<Rightarrow> Inl (Err e)
       | None \<Rightarrow> if verifies s
           then Inr \<lparr>vFile = q, vData = [Data s], vSize = word_of_int (int (length s))\<rparr>
           else Inl (Err (Errorf ''digest verification failed'')),
       put_file q (Some (new_inode (Regular s))) w1))"
proof -
  have "os_fault w1 = os_fault w"
    using tmp nf by (auto simp: temp_file_def Let_def bindE_def split: if_splits option.splits)
  with nf have "(\<lambda>_ _. os_fault w1 OpWrite q) = no_write_error" by (simp add: no_faults_def)
  then show ?thesis
    using tmp copy_stream_result [OF ok]
    by (cases "stream_result r")
       (simp add: Verify_def ver bindE_def Let_def split: option.split)
qed

lemma Verify_InrE:
  assumes ok: "stream_ok r" and nf: "no_faults w" and run: "Verify rnd other r d w = (Inr v, w')"
  obtains s verifies w1 where "stream_result r = (s, None)" and "NewDigestVerifier other d = Inr verifies"
    and "verifies s" and "files w (vFile v) = None" and "vData v = [Data s]"
    and "vSize v = word_of_int (int (length s))" and "w' = put_file (vFile v) (Some (new_inode (Regular s))) w1"
    and "temp_file rnd ''/tmp'' ''unverified-layer'' w = (Inr (vFile v), w1)"
proof -
  from run obtain verifies where ver: "NewDigestVerifier other d = Inr verifies"
    by (cases "NewDigestVerifier other d") (auto simp: Verify_def)
  from run obtain q w1 where tmp: "temp_file rnd ''/tmp'' ''unverified-layer'' w = (Inr q, w1)"
    unfolding Verify_def ver sum.case by (rule bindE_InrE)
  obtain s err where s: "stream_result r = (s, err)" by (cases "stream_result r")
  from run Verify_run [OF ok nf ver tmp] s
  have "err = None" "verifies s" "v = \<lparr>vFile = q, vData = [Data s], vSize = word_of_int (int (length s))\<rparr>"
    "w' = put_file q (Some (new_inode (Regular s))) w1"
    by (auto split: option.splits if_splits)
  moreover have "files w q = None"
    using tmp temp_name_free
    by (auto simp: temp_file_def Let_def bindE_def os_check_def split: if_splits option.splits)
  ultimately show ?thesis using that s ver tmp by auto
qed

section \<open>The number of attempts\<close>

text \<open>The world after \<open>k\<close> runs of \<open>m\<close>.\<close>

definition after_runs :: "('w, 'a) prog \<Rightarrow> nat \<Rightarrow> 'w \<Rightarrow> 'w" where
  "after_runs m k w = ((\<lambda>w. snd (m w)) ^^ k) w"

lemma after_runs_simps [simp]:
  "after_runs m 0 w = w" "after_runs m (Suc k) w = after_runs m k (snd (m w))"
  by (simp_all add: after_runs_def funpow_Suc_right del: funpow.simps(2))

definition fails_with :: "('w, 'a) prog \<Rightarrow> 'w \<Rightarrow> go_error \<Rightarrow> bool" where
  "fails_with m w e \<longleftrightarrow> fst (m w) = Inl (Err e)"

text \<open>
  Up to \<open>n\<close> runs are made; all but the last one made fail with an error that does not stop them,
  and the outcome is that of the last one.
\<close>

lemma attempts_outcome:
  assumes "attempts stop m (Suc n) e0 w = (x, w')"
  shows "\<exists>k \<le> n. (\<forall>j < k. \<exists>e. fails_with m (after_runs m j w) e \<and> \<not> stop e) \<and>
    m (after_runs m k w) = (x, w') \<and>
    (k < n \<longrightarrow> (\<forall>e. x = Inl (Err e) \<longrightarrow> stop e))"
  using assms
proof (induction n arbitrary: e0 w)
  case 0
  then have "m w = (x, w')"
    by (auto simp: handleE_def split: prod.splits sum.splits failure.splits if_splits)
  then show ?case by auto
next
  case (Suc n)
  show ?case
  proof (cases "\<exists>e. fails_with m w e \<and> \<not> stop e")
    case True
    then obtain e w1 where e: "m w = (Inl (Err e), w1)" "\<not> stop e"
      by (cases "m w") (auto simp: fails_with_def)
    with Suc.prems have "attempts stop m (Suc n) e w1 = (x, w')" by (simp add: handleE_def)
    from Suc.IH [OF this] obtain k where k: "k \<le> n"
      "\<forall>j < k. \<exists>e. fails_with m (after_runs m j w1) e \<and> \<not> stop e"
      "m (after_runs m k w1) = (x, w')" "k < n \<longrightarrow> (\<forall>e. x = Inl (Err e) \<longrightarrow> stop e)" by blast
    have "\<exists>e. fails_with m (after_runs m j w) e \<and> \<not> stop e" if "j < Suc k" for j
      using that k(2) True e(1) by (cases j) auto
    with k e(1) show ?thesis by (intro exI [of _ "Suc k"]) auto
  next
    case False
    with Suc.prems have "m w = (x, w')"
      by (auto simp: handleE_def fails_with_def split: prod.splits sum.splits failure.splits if_splits)
    with False show ?thesis by (intro exI [of _ 0]) (auto simp: fails_with_def)
  qed
qed

section \<open>Fetching a layer\<close>

lemma reads_only_Get:
  assumes "layer_store cake layers good" and "good w" and "ValidateID h"
  shows "\<exists>r. Get cake (DockerImageID h) w = (r, w) \<and> (case r of
      Inr img \<Rightarrow> layers w h = Some img | Inl (Err _) \<Rightarrow> layers w h = None | Inl (Panic _) \<Rightarrow> False)"
  using layer_store.Get_present [OF assms(1,2), of "DockerImageID h"]
    layer_store.Get_absent [OF assms(1,2), of "DockerImageID h"] assms(3)
  by (cases "layers w h") (fastforce, force)

text \<open>
  A layer that was not cached and is now fetched: the registered data is the whole blob, matches
  the blob's digest, and is no longer than the quota.
\<close>

lemma fetchLayer_fetched:
  assumes h: "digest_hex (StrongID l) = Inr h"
    and miss: "Get (RemoteCake r) (DockerImageID h) w = (Inl (Err e0), w0)" and nf: "no_faults w0"
    and blob: "GetBlobReader conn (BlobSum l) w0 = (Inr blob, w0)"
    and ver: "Verifier r = Verify rnd other"
    and run: "fetchLayer r conn l quota w = (Inr sz, w')"
  obtains p w1 w2 u verifies where "digest_hex (ParentStrongID l) = Inr p"
    and "NewDigestVerifier other (BlobSum l) = Inr verifies" and "verifies (script_data blob)"
    and "script_fault blob = None" and "sz = word_of_int (int (length (script_data blob)))"
    and "0 \<le> sint quota \<Longrightarrow> int (length (script_data blob)) \<le> sint quota"
    and "RegisterWithQuota (RemoteCake r) (empty_image\<lparr>ID := h, Parent := p, Size := sz\<rparr>)
           (Some [Data (script_data blob)]) quota w1 = (Inr u, w2)"
proof -
  let ?s = "applyQuota blob quota"
  let ?reg = "\<lambda>v p. handleE (RegisterWithQuota (RemoteCake r)
             (empty_image\<lparr>ID := h, Parent := p, Size := vSize v\<rparr>) (Some (vData v)) quota)
           (\<lambda>e. if str_contains (err_msg e) ''unexpected EOF''
                then throw (Errorf (err_msg e @ ''. Possible cause: '' @ err_msg QuotaExceededErr))
                else throw e)
           (\<lambda>_. ret (vSize v))"
  have "bindE (Verify rnd other ?s (BlobSum l)) (\<lambda>v. deferE (deleteCloser_Close v)
      (bindE (liftO (digest_hex (ParentStrongID l))) (?reg v))) w0 = (Inr sz, w')"
    using run h miss blob ver by (simp add: fetchLayer_def bindE_def handleE_def)
  then obtain v w1 where v: "Verify rnd other ?s (BlobSum l) w0 = (Inr v, w1)"
    and rest: "deferE (deleteCloser_Close v)
      (bindE (liftO (digest_hex (ParentStrongID l))) (?reg v)) w1 = (Inr sz, w')"
    by (rule bindE_InrE)
  obtain s verifies where s: "stream_result ?s = (s, None)" "NewDigestVerifier other (BlobSum l) = Inr verifies"
    "verifies s" "vData v = [Data s]" "vSize v = word_of_int (int (length s))"
    by (rule Verify_InrE [OF stream_ok_applyQuota nf v]) blast
  note sd = stream_result_applyQuota [OF s(1)]
  from rest obtain w2 where "bindE (liftO (digest_hex (ParentStrongID l))) (?reg v) w1 = (Inr sz, w2)"
    by (rule deferE_InrE) blast
  then obtain p w3 where p: "liftO (digest_hex (ParentStrongID l)) w1 = (Inr p, w3)"
    and reg: "?reg v p w3 = (Inr sz, w2)"
    by (rule bindE_InrE)
  from reg obtain u w4 where "RegisterWithQuota (RemoteCake r)
      (empty_image\<lparr>ID := h, Parent := p, Size := vSize v\<rparr>) (Some (vData v)) quota w3 = (Inr u, w4)"
    and "sz = vSize v"
    by (rule handleE_InrE) (auto split: if_splits)
  with that [of p verifies w3 u w4] p s sd show ?thesis by simp
qed

text \<open>A cached layer costs no download: its recorded size is all that is returned.\<close>

lemma fetchLayer_cached:
  assumes "digest_hex (StrongID l) = Inr h" and "Get (RemoteCake r) (DockerImageID h) w = (Inr img, w')"
  shows "fetchLayer r conn l quota w = (Inr (Size img), w')"
  using assms by (simp add: fetchLayer_def handleE_def)

text \<open>The part of \<open>fetchLayer\<close> that follows a verified download.\<close>

lemma fetchLayer_verified:
  assumes "digest_hex (StrongID l) = Inr h" and "Get (RemoteCake r) (DockerImageID h) w = (Inl (Err e0), w)"
    and "GetBlobReader conn (BlobSum l) w = (Inr blob, w)"
    and "Verifier r (applyQuota blob quota) (BlobSum l) w = (Inr v, w1)"
    and "digest_hex (ParentStrongID l) = Inr p"
    and "RegisterWithQuota (RemoteCake r) (empty_image\<lparr>ID := h, Parent := p, Size := vSize v\<rparr>)
      (Some (vData v)) quota w1 = (Inr u, w2)"
  shows "\<exists>w3. fetchLayer r conn l quota w = (Inr (vSize v), w3)"
proof -
  let ?body = "handleE (RegisterWithQuota (RemoteCake r)
             (empty_image\<lparr>ID := h, Parent := p, Size := vSize v\<rparr>) (Some (vData v)) quota)
           (\<lambda>e. if str_contains (err_msg e) ''unexpected EOF''
                then throw (Errorf (err_msg e @ ''. Possible cause: '' @ err_msg QuotaExceededErr))
                else throw e)
           (\<lambda>_. ret (vSize v))"
  have "?body w1 = (Inr (vSize v), w2)" using assms(6) by (simp add: handleE_def)
  then obtain w3 where "deferE (deleteCloser_Close v) ?body w1 = (Inr (vSize v), w3)"
    using deferE_calm [where m = ?body and d = "deleteCloser_Close v"] calm_os
    unfolding deleteCloser_Close_def by blast
  then show ?thesis
    using assms(1-5) by (simp add: fetchLayer_def bindE_def [of "GetBlobReader _ _"] bindE_def [of "Verifier _ _ _"]
        handleE_def [of "Get _ _"])
qed

section \<open>A registry and a cache for the examples\<close>

definition tmp_world :: os_state where
  "tmp_world = \<lparr>files = [''/tmp'' \<mapsto> new_inode Directory], os_fault = \<lambda>_ _. None\<rparr>"

definition empty_cache :: "os_state cake" where
  "empty_cache = \<lparr>DriverName = ''none'', Create = \<lambda>_ _ _. ret (), Register = \<lambda>_ _. ret (),
     RegisterWithQuota = \<lambda>_ _ _. ret (), Get = \<lambda>_. throw EOF, Unmount = \<lambda>_. ret (),
     Remove = \<lambda>_. ret (), Path = \<lambda>_. ret [], QuotaedPath = \<lambda>_ _. ret [], IsLeaf = \<lambda>_. ret True,
     GetAllLeaves = ret [], All = ret []\<rparr>"

definition sample_remote :: "os_state cake \<Rightarrow> os_state remote" where
  "sample_remote cake = \<lparr>DefaultHost = ''hub'', DialTo = \<lambda>_ _ _ _. throw EOF, RemoteCake = cake,
     Verifier = Verify (\<lambda>_. ''7'') (\<lambda>_. Inl EOF)\<rparr>"

definition sample_conn :: "string \<Rightarrow> manifest \<Rightarrow> os_state conn" where
  "sample_conn blob m = \<lparr>GetManifest = \<lambda>_. ret m, GetBlobReader = \<lambda>_. ret [Data blob]\<rparr>"

definition sample_layer :: "string \<Rightarrow> layer" where
  "sample_layer blob = \<lparr>BlobSum = canonical_digest blob, StrongID = canonical_digest ''c'',
     ParentStrongID = [], Image = empty_image\<lparr>Size := word_of_int (int (length blob))\<rparr>\<rparr>"

lemma no_faults_tmp_world [simp]: "no_faults tmp_world"
  by (simp add: no_faults_def tmp_world_def)

lemma tmp_world_temp_file:
  "temp_file (\<lambda>_. ''7'') ''/tmp'' ''unverified-layer'' tmp_world =
    (Inr ''/tmp/unverified-layer7'', put_file ''/tmp/unverified-layer7'' (Some (new_inode (Regular []))) tmp_world)"
proof -
  have "path_join [''/tmp'', ''unverified-layer''] = ''/tmp/unverified-layer''" by code_simp
  moreover have "temp_name (\<lambda>_. ''7'') (files tmp_world) ''/tmp/unverified-layer'' 10000 0 = Some ''/tmp/unverified-layer7''"
    using temp_name.simps(2) [of "\<lambda>_. ''7''" "files tmp_world" "''/tmp/unverified-layer''" 9999 0]
    by (simp add: tmp_world_def)
  moreover have "is_dir_at (files tmp_world) ''/tmp''" by (simp add: tmp_world_def is_dir_at_def)
  ultimately show ?thesis by (simp add: temp_file_def Let_def bindE_def)
qed

lemma canonical_digest_valid: "digest_Validate (canonical_digest s)"
  "takeWhile (\<lambda>c. c \<noteq> CHR '':'') (canonical_digest s) = ''sha256''"
  by (rule canonical_digest_Validate, simp add: canonical_digest_def)

lemma verifier_canonical:
  "NewDigestVerifier other (canonical_digest s) = Inr (\<lambda>data. canonical_digest s = canonical_digest data)"
  by (simp add: NewDigestVerifier_def canonical_digest_valid)

lemma sample_Verify:
  assumes "int (length s) \<le> sint quota"
  shows "\<exists>w1. Verify (\<lambda>_. ''7'') other (applyQuota [Data s] quota) (canonical_digest s) tmp_world =
    (Inr \<lparr>vFile = ''/tmp/unverified-layer7'', vData = [Data s], vSize = word_of_int (int (length s))\<rparr>,
     put_file ''/tmp/unverified-layer7'' (Some (new_inode (Regular s))) w1)"
proof -
  have "stream_result (applyQuota [Data s] quota) = (s, None)"
    using assms by (auto simp: applyQuota_def stream_result_def New_def quotaed_result_def)
  with Verify_run [OF stream_ok_applyQuota no_faults_tmp_world verifier_canonical tmp_world_temp_file] show ?thesis
    by auto
qed

section \<open>What is fetched\<close>

text \<open>
  C17: Only verified data gets through.  When \<open>Verify\<close> succeeds on the blob of a layer with a SHA-256
  digest, the blob's stream ended without an error, its digest is the expected one, a quota that is
  not negative was at least its size, and exactly its bytes are in a new file and handed on.
\<close>

theorem Verify_sound:
  assumes "no_faults w" and "Verify rnd other (applyQuota blob quota) d w = (Inr v, w')"
    and "takeWhile (\<lambda>c. c \<noteq> CHR '':'') d = ''sha256''"
  shows "d = canonical_digest (script_data blob) \<and> script_fault blob = None \<and>
    vData v = [Data (script_data blob)] \<and> (0 \<le> sint quota \<longrightarrow> int (length (script_data blob)) \<le> sint quota) \<and>
    files w (vFile v) = None \<and> content w' (vFile v) = Some (script_data blob)"
proof -
  obtain s verifies w1 where s: "stream_result (applyQuota blob quota) = (s, None)"
    "NewDigestVerifier other d = Inr verifies" "verifies s" "files w (vFile v) = None" "vData v = [Data s]"
    "w' = put_file (vFile v) (Some (new_inode (Regular s))) w1"
    by (rule Verify_InrE [OF stream_ok_applyQuota assms(1,2)]) blast
  have "d = canonical_digest s"
    using s(2,3) assms(3) by (auto simp: NewDigestVerifier_def split: if_splits)
  with s(4-6) stream_result_applyQuota [OF s(1)] show ?thesis by (simp add: content_put_file)
qed

lemma Verify_sound_witness:
  "\<exists>v w'. Verify (\<lambda>_. ''7'') (\<lambda>_. Inl EOF) (applyQuota [Data ''hello''] 9) (canonical_digest ''hello'') tmp_world = (Inr v, w') \<and>
    content w' (vFile v) = Some ''hello''"
proof -
  obtain v w' where run: "Verify (\<lambda>_. ''7'') (\<lambda>_. Inl EOF) (applyQuota [Data ''hello''] 9) (canonical_digest ''hello'') tmp_world = (Inr v, w')"
    using sample_Verify [of "''hello''" 9 "\<lambda>_. Inl EOF"] by (simp del: bindE_ret) blast
  from Verify_sound [OF no_faults_tmp_world run canonical_digest_valid(2)] run show ?thesis by auto
qed

text \<open>
  A rejected blob stays on disk.  When the digest of a complete blob is not the expected one,
  \<open>Verify\<close> reports it, and the temporary file with the unverified bytes is left behind.
\<close>

theorem Verify_rejects:
  assumes "no_faults w" and "NewDigestVerifier other d = Inr verifies" and "\<not> verifies (script_data blob)"
    and "script_fault blob = None" and "sint quota < 0"
    and "temp_file rnd ''/tmp'' ''unverified-layer'' w = (Inr q, w1)"
  shows "\<exists>w'. Verify rnd other (applyQuota blob quota) d w = (Inl (Err (Errorf ''digest verification failed'')), w') \<and>
    content w' q = Some (script_data blob)"
  using Verify_run [OF stream_ok_applyQuota assms(1,2,6), of blob quota] assms(3-5)
  by (simp add: applyQuota_def stream_result_def content_put_file)

lemma Verify_rejects_witness:
  "\<exists>w'. Verify (\<lambda>_. ''7'') (\<lambda>_. Inr (\<lambda>_. False)) (applyQuota [Data ''hello''] (- 1)) ''sha512:00'' tmp_world =
      (Inl (Err (Errorf ''digest verification failed'')), w') \<and>
    content w' ''/tmp/unverified-layer7'' = Some ''hello''"
proof -
  have "digest_Validate ''sha512:00''" by code_simp
  then have "NewDigestVerifier (\<lambda>_. Inr (\<lambda>_. False)) ''sha512:00'' = Inr (\<lambda>_. False)"
    by (simp add: NewDigestVerifier_def)
  from Verify_rejects [OF no_faults_tmp_world this _ _ _ tmp_world_temp_file, of "[Data ''hello'']" "- 1"]
  show ?thesis by simp
qed

text \<open>
  C16: A downloaded layer is what the manifest names.  When a layer that is not in the store is
  fetched, its blob passed the verifier of its digest and fits in the remaining quota if there is
  one, the store was given exactly these bytes under the layer's ID with its parent's, and the size
  returned is their number.
\<close>

theorem fetchLayer_downloads:
  assumes "digest_hex (StrongID l) = Inr h"
    and "Get (RemoteCake r) (DockerImageID h) w = (Inl (Err e0), w)" and "no_faults w"
    and "GetBlobReader conn (BlobSum l) w = (Inr blob, w)" and "Verifier r = Verify rnd other"
    and "fetchLayer r conn l quota w = (Inr sz, w')"
  shows "\<exists>p w1 w2 u verifies. digest_hex (ParentStrongID l) = Inr p \<and>
    NewDigestVerifier other (BlobSum l) = Inr verifies \<and> verifies (script_data blob) \<and>
    sz = word_of_int (int (length (script_data blob))) \<and>
    (0 \<le> sint quota \<longrightarrow> int (length (script_data blob)) \<le> sint quota) \<and>
    RegisterWithQuota (RemoteCake r) (empty_image\<lparr>ID := h, Parent := p, Size := sz\<rparr>)
      (Some [Data (script_data blob)]) quota w1 = (Inr u, w2)"
  using fetchLayer_fetched [OF assms] by metis

lemma fetchLayer_downloads_witness:
  "fst (fetchLayer (sample_remote empty_cache) (sample_conn ''hello'' []) (sample_layer ''hello'') 9 tmp_world) = Inr 5"
proof -
  let ?r = "sample_remote empty_cache" and ?l = "sample_layer ''hello''" and ?c = "sample_conn ''hello'' []"
  have h: "digest_hex (StrongID ?l) = Inr (sha256_hex ''c'')"
    using digest_hex_sha256 by (simp add: sample_layer_def canonical_digest_def)
  have miss: "Get (RemoteCake ?r) (DockerImageID (sha256_hex ''c'')) tmp_world = (Inl (Err EOF), tmp_world)"
    by (simp add: sample_remote_def empty_cache_def)
  have blob: "GetBlobReader ?c (BlobSum ?l) tmp_world = (Inr [Data ''hello''], tmp_world)"
    by (simp add: sample_conn_def)
  have ver: "Verifier ?r = Verify (\<lambda>_. ''7'') (\<lambda>_. Inl EOF)" by (simp add: sample_remote_def)
  have "\<exists>sz w'. fetchLayer ?r ?c ?l 9 tmp_world = (Inr sz, w')"
  proof -
    obtain w1 where v: "Verify (\<lambda>_. ''7'') (\<lambda>_. Inl EOF) (applyQuota [Data ''hello''] 9) (BlobSum ?l) tmp_world =
      (Inr \<lparr>vFile = ''/tmp/unverified-layer7'', vData = [Data ''hello''], vSize = 5\<rparr>, w1)"
      using sample_Verify [of "''hello''" 9] by (auto simp: sample_layer_def)
    have "digest_hex (ParentStrongID ?l) = Inr []" by (simp add: sample_layer_def digest_hex_def)
    then show ?thesis
      using fetchLayer_verified [where quota = 9 and p = "[]" and ?w1.0 = w1 and u = "()" and ?w2.0 = w1, OF h miss blob,
          where v = "\<lparr>vFile = ''/tmp/unverified-layer7'', vData = [Data ''hello''], vSize = 5\<rparr>"] v ver
      by (auto simp: sample_remote_def empty_cache_def deleteCloser_Close_def calm_os)
  qed
  then obtain sz w' where run: "fetchLayer ?r ?c ?l 9 tmp_world = (Inr sz, w')" by blast
  from fetchLayer_downloads [OF h miss no_faults_tmp_world blob ver run] run show ?thesis by auto
qed

text \<open>The environment and the volumes are the layers' in order.\<close>

lemma fetchLayers_config:
  assumes "fetchLayers r conn ls quota env vols w = (Inr (e, v), w')"
  shows "e = env @ concat (map config_env ls) \<and> v = vols @ concat (map config_vols ls)"
  using assms
proof (induction ls arbitrary: quota env vols w)
  case (Cons l ls)
  from Cons.prems obtain sz w1 where
    "fetchLayers r conn ls (quota - sz) (env @ config_env l) (vols @ config_vols l) w1 = (Inr (e, v), w')"
    by (auto elim: bindE_InrE)
  from Cons.IH [OF this] show ?case by simp
qed simp

text \<open>
  C19: The image that \<open>Remote.Fetch\<close> returns.  When it succeeds, the ID is the hex part of the last
  layer's, the size is the sum that the manifest declares, which is within a positive quota, and the
  environment and the volumes are those of the layers' configurations, base first.
\<close>

theorem Remote_Fetch_image:
  assumes "Remote_Fetch r u username password diskQuota w = (Inr img, w')"
  shows "\<exists>conn m w1. remote_manifest r u username password w = (Inr (conn, m), w1) \<and> m \<noteq> [] \<and>
    digest_hex (StrongID (last m)) = Inr (ImageID img) \<and> ImgSize img = declared_size m \<and>
    (0 < sint diskQuota \<longrightarrow> sint (declared_size m) \<le> sint diskQuota) \<and>
    ImgEnv img = concat (map config_env m) \<and> ImgVolumes img = concat (map config_vols m)"
proof -
  let ?q = "if sint diskQuota \<le> 0 then - 1 else diskQuota"
  from assms obtain conn m w1 where m: "remote_manifest r u username password w = (Inr (conn, m), w1)"
    and rest: "(if sint diskQuota > 0 \<and> sint (declared_size m) > sint diskQuota
      then throw (Errorf ''quota exceeded'')
      else bindE (fetchLayers r conn m ?q [] []) (\<lambda>(env, vols).
        bindE (liftO (last_layer_id m)) (\<lambda>i.
        ret \<lparr>ImageID = i, ImgEnv = env, ImgVolumes = vols, ImgSize = declared_size m\<rparr>))) w1 = (Inr img, w')"
    unfolding Remote_Fetch_def by (auto elim: bindE_InrE)
  then have within: "0 < sint diskQuota \<longrightarrow> sint (declared_size m) \<le> sint diskQuota" by (auto split: if_splits)
  with rest obtain env vols w2 i where
    layers: "fetchLayers r conn m ?q [] [] w1 = (Inr (env, vols), w2)" and i: "last_layer_id m = Inr i"
    and img: "img = \<lparr>ImageID = i, ImgEnv = env, ImgVolumes = vols, ImgSize = declared_size m\<rparr>"
    by (auto split: if_splits elim!: bindE_InrE)
  with m within fetchLayers_config [OF layers] show ?thesis
    by (auto simp: last_layer_id_def split: if_splits)
qed

text \<open>
  A manifest that declares too much is refused.  With a positive quota below the declared size,
  \<open>Remote.Fetch\<close> fails before it fetches any layer: nothing happens after the manifest was read.
\<close>

theorem Remote_Fetch_refuses:
  assumes "remote_manifest r u username password w = (Inr (conn, m), w1)"
    and "0 < sint diskQuota" and "sint diskQuota < sint (declared_size m)"
  shows "Remote_Fetch r u username password diskQuota w = (Inl (Err (Errorf ''quota exceeded'')), w1)"
  using assms by (simp add: Remote_Fetch_def bindE_def)

text \<open>
  C38: A cached layer can switch the quota off.  When a layer that is in the store has a recorded size
  above the remaining quota, the next layer, which is not in the store, is downloaded, verified and
  registered whole, however long it is, and the fetch goes on with the layers after it; with the
  remaining quota itself, that layer is refused as soon as it is longer than the quota.
\<close>

theorem cached_layer_lifts_quota:
  assumes "digest_hex (StrongID l1) = Inr h1" and "Get (RemoteCake r) (DockerImageID h1) w = (Inr img, w)"
    and "0 \<le> sint quota" and "sint quota < sint (Size img)"
    and "digest_hex (StrongID l2) = Inr h2" and "Get (RemoteCake r) (DockerImageID h2) w = (Inl (Err e), w)"
    and "digest_hex (ParentStrongID l2) = Inr p2"
    and "GetBlobReader conn (BlobSum l2) w = (Inr blob, w)" and "script_fault blob = None"
    and "Verifier r = Verify rnd other" and "NewDigestVerifier other (BlobSum l2) = Inr verifies"
    and "verifies (script_data blob)" and "no_faults w"
    and "temp_file rnd ''/tmp'' ''unverified-layer'' w = (Inr q, w1)"
    and "RegisterWithQuota (RemoteCake r)
      (empty_image\<lparr>ID := h2, Parent := p2, Size := word_of_int (int (length (script_data blob)))\<rparr>)
      (Some [Data (script_data blob)]) (quota - Size img)
      (put_file q (Some (new_inode (Regular (script_data blob)))) w1) = (Inr (), w2)"
  shows "(\<exists>w'. fetchLayers r conn (l1 # l2 # ls) quota env vols w =
      fetchLayers r conn ls (quota - Size img - word_of_int (int (length (script_data blob))))
        (env @ config_env l1 @ config_env l2) (vols @ config_vols l1 @ config_vols l2) w') \<and>
    (sint quota < int (length (script_data blob)) \<longrightarrow>
      (\<exists>w'. fetchLayer r conn l2 quota w = (Inl (Err QuotaExceededErr), w')))"
proof -
  let ?data = "script_data blob"
  have "in_int64 (sint quota - sint (Size img))"
    using assms(3,4) sint_in_int64 [of "Size img"] by (simp add: in_int64_def max_int64_def)
  then have below: "sint (quota - Size img) < 0" using assms(4) by (simp add: sint_minus_id)
  note run = Verify_run [OF stream_ok_applyQuota assms(13,11,14), of blob]
  have "Verifier r (applyQuota blob (quota - Size img)) (BlobSum l2) w =
      (Inr \<lparr>vFile = q, vData = [Data ?data], vSize = word_of_int (int (length ?data))\<rparr>,
       put_file q (Some (new_inode (Regular ?data))) w1)"
    using run [of "quota - Size img"] below assms(9,10,12) by (simp add: applyQuota_def stream_result_def)
  from fetchLayer_verified [OF assms(5,6,8) this assms(7)] assms(15)
  obtain w3 where "fetchLayer r conn l2 (quota - Size img) w = (Inr (word_of_int (int (length ?data))), w3)" by auto
  then have "fetchLayers r conn (l1 # l2 # ls) quota env vols w =
      fetchLayers r conn ls (quota - Size img - word_of_int (int (length ?data)))
        (env @ config_env l1 @ config_env l2) (vols @ config_vols l1 @ config_vols l2) w3"
    using fetchLayer_cached [OF assms(1,2)] by (simp add: bindE_def)
  moreover have "\<exists>w'. fetchLayer r conn l2 quota w = (Inl (Err QuotaExceededErr), w')" if "sint quota < int (length ?data)"
    using run [of quota] that assms(3,5,6,8,10)
    by (simp add: fetchLayer_def bindE_def handleE_def applyQuota_def New_def stream_result_def quotaed_result_def)
  ultimately show ?thesis by blast
qed

text \<open>A cache that has every layer, and a dialer that returns one manifest.\<close>

definition full_cache :: "os_state cake" where
  "full_cache = empty_cache\<lparr>Get := \<lambda>i. ret (empty_image\<lparr>ID := GraphID i, Size := 20\<rparr>)\<rparr>"

definition dialed_remote :: "manifest \<Rightarrow> os_state remote" where
  "dialed_remote m = (sample_remote full_cache)\<lparr>DialTo := \<lambda>_ _ _ _. ret (sample_conn ''hello'' m)\<rparr>"

definition sample_url :: url where
  "sample_url = empty_url\<lparr>Scheme := ''docker'', UrlPath := ''/busybox''\<rparr>"

lemma dialed_manifest:
  "remote_manifest (dialed_remote m) sample_url [] [] tmp_world = (Inr (sample_conn ''hello'' m, m), tmp_world)"
  by (simp add: remote_manifest_def dialed_remote_def sample_remote_def sample_url_def empty_url_def
      remote_host_def remote_repo_def remote_tag_def sample_conn_def bindE_def handleE_def Let_def)

lemma sample_layer_hex: "digest_hex (StrongID (sample_layer s)) = Inr (sha256_hex ''c'')"
  unfolding sample_layer_def layer.simps canonical_digest_def by (rule digest_hex_sha256)

lemma Remote_Fetch_image_witness:
  "\<exists>img w'. Remote_Fetch (dialed_remote [sample_layer ''hello'']) sample_url [] [] 9 tmp_world = (Inr img, w') \<and>
    ImageID img = sha256_hex ''c'' \<and> ImgSize img = 5"
proof -
  let ?m = "[sample_layer ''hello'']" and ?r = "dialed_remote [sample_layer ''hello'']"
  have size: "declared_size ?m = 5" by (simp add: declared_size_def sample_layer_def)
  have get: "Get (RemoteCake ?r) (DockerImageID h) w = (Inr (empty_image\<lparr>ID := h, Size := 20\<rparr>), w)" for h w
    by (simp add: dialed_remote_def sample_remote_def full_cache_def)
  have "fetchLayers ?r (sample_conn ''hello'' ?m) ?m 9 [] [] tmp_world = (Inr ([], []), tmp_world)"
    using fetchLayer_cached [OF sample_layer_hex get]
    by (simp add: bindE_def) (simp add: config_env_def config_vols_def sample_layer_def empty_image_def)
  then have "\<exists>img w'. Remote_Fetch ?r sample_url [] [] 9 tmp_world = (Inr img, w')"
    using dialed_manifest [of ?m] size
    by (simp add: Remote_Fetch_def bindE_def last_layer_id_def sample_layer_hex)
  then obtain img w' where run: "Remote_Fetch ?r sample_url [] [] 9 tmp_world = (Inr img, w')" by blast
  from Remote_Fetch_image [OF run] dialed_manifest [of ?m] size run sample_layer_hex [of "''hello''"]
  show ?thesis by auto
qed

lemma Remote_Fetch_refuses_witness:
  "Remote_Fetch (dialed_remote [sample_layer ''hello'']) sample_url [] [] 3 tmp_world =
    (Inl (Err (Errorf ''quota exceeded'')), tmp_world)"
  by (rule Remote_Fetch_refuses [OF dialed_manifest]) (simp_all add: declared_size_def sample_layer_def)

text \<open>
  A cache that lacks the layer \<open>d\<close>: with a quota of nine bytes, the twelve bytes of that layer are
  refused on their own, and accepted behind a cached layer of twenty bytes.
\<close>

definition half_cache :: "os_state cake" where
  "half_cache = full_cache\<lparr>Get := \<lambda>i. if GraphID i = ''d'' then throw EOF else Get full_cache i\<rparr>"

definition long_layer :: layer where
  "long_layer = (sample_layer ''hello world!'')\<lparr>StrongID := ''sha256:d''\<rparr>"

lemma cached_layer_lifts_quota_witness:
  "(\<exists>w'. fetchLayers (sample_remote half_cache) (sample_conn ''hello world!'' []) [sample_layer ''hello'', long_layer] 9 [] []
      tmp_world = (Inr ([], []), w')) \<and>
    (\<exists>w'. fetchLayer (sample_remote half_cache) (sample_conn ''hello world!'' []) long_layer 9 tmp_world =
      (Inl (Err QuotaExceededErr), w'))"
proof -
  let ?r = "sample_remote half_cache" and ?c = "sample_conn ''hello world!'' []"
  let ?img = "empty_image\<lparr>ID := sha256_hex ''c'', Size := 20\<rparr>"
  have "sha256_hex ''c'' \<noteq> ''d''" using length_sha256_hex [of "''c''"] by (metis length_Cons list.size(3) numeral_eq_one_iff One_nat_def num.distinct(1))
  then have cached: "Get (RemoteCake ?r) (DockerImageID (sha256_hex ''c'')) tmp_world = (Inr ?img, tmp_world)"
    by (simp add: sample_remote_def half_cache_def full_cache_def)
  have missing: "Get (RemoteCake ?r) (DockerImageID ''d'') tmp_world = (Inl (Err EOF), tmp_world)"
    by (simp add: sample_remote_def half_cache_def)
  have hex: "digest_hex (StrongID long_layer) = Inr ''d''" "digest_hex (ParentStrongID long_layer) = Inr []"
    using digest_hex_sha256 [of "''d''"] by (simp_all add: long_layer_def sample_layer_def digest_hex_def)
  have blob: "GetBlobReader ?c (BlobSum long_layer) tmp_world = (Inr [Data ''hello world!''], tmp_world)"
    by (simp add: sample_conn_def)
  have sum: "NewDigestVerifier (\<lambda>_. Inl EOF) (BlobSum long_layer) =
      Inr (\<lambda>data. canonical_digest ''hello world!'' = canonical_digest data)"
    by (simp add: long_layer_def sample_layer_def verifier_canonical)
  have ver: "Verifier ?r = Verify (\<lambda>_. ''7'') (\<lambda>_. Inl EOF)" by (simp add: sample_remote_def)
  have reg: "RegisterWithQuota (RemoteCake ?r) im s n v = (Inr (), v)" for im s n v
    by (simp add: sample_remote_def half_cache_def full_cache_def empty_cache_def)
  have none: "config_env l = []" "config_vols l = []" if "l \<in> {sample_layer ''hello'', long_layer}" for l
    using that by (auto simp: config_env_def config_vols_def long_layer_def sample_layer_def empty_image_def)
  show ?thesis
    using cached_layer_lifts_quota [OF sample_layer_hex [of "''hello''"] cached _ _ hex(1) missing hex(2) blob _ ver sum _
        no_faults_tmp_world tmp_world_temp_file reg, where quota = 9 and ls = "[]" and env = "[]" and vols = "[]"]
      none by (simp del: fetchLayers.simps(2) add: ret_def)
qed

section \<open>What is retried\<close>

text \<open>
  C36: At most three attempts.  What the retrying fetcher returns is the outcome of its last attempt,
  the first, second or third one; all attempts before failed with an error other than the quota
  error; and it stops early only on success, a panic or the quota error.
\<close>

theorem retry_at_most_three:
  assumes "retry_Fetch f u username password diskQuota w = (x, w')"
  shows "\<exists>k \<le> 2. let m = Fetch f u username password diskQuota in
    (\<forall>j < k. \<exists>e. fails_with m (after_runs m j w) e \<and> e \<noteq> QuotaExceededErr) \<and>
    m (after_runs m k w) = (x, w') \<and> (k < 2 \<longrightarrow> (\<forall>e. x = Inl (Err e) \<longrightarrow> e = QuotaExceededErr))"
  using attempts_outcome [of is_quota_exceeded "Fetch f u username password diskQuota" 2 "Errorf []" w x w'] assms
  by (simp add: retry_Fetch_def MAX_ATTEMPTS_def Let_def is_quota_exceeded_def numeral_3_eq_3 numeral_2_eq_2)

definition flaky :: "nat fetcher" where
  "flaky = \<lparr>Fetch = \<lambda>_ _ _ _ n. (Inl (Err (if n = 1 then QuotaExceededErr else EOF)), n + 1),
     FetchID = \<lambda>_. throw EOF\<rparr>"

lemma retry_at_most_three_witness:
  "retry_Fetch flaky empty_url [] [] 0 0 = (Inl (Err QuotaExceededErr), 2)"
proof -
  obtain x w' where run: "retry_Fetch flaky empty_url [] [] 0 0 = (x, w')"
    by (cases "retry_Fetch flaky empty_url [] [] 0 0")
  let ?m = "Fetch flaky empty_url [] [] 0"
  have m: "?m = (\<lambda>n. (Inl (Err (if n = 1 then QuotaExceededErr else EOF)), n + 1))"
    by (simp add: flaky_def)
  from retry_at_most_three [OF run] obtain k where k: "k \<le> 2" "?m (after_runs ?m k 0) = (x, w')"
    "\<forall>j < k. \<exists>e. fails_with ?m (after_runs ?m j 0) e \<and> e \<noteq> QuotaExceededErr"
    "k < 2 \<longrightarrow> (\<forall>e. x = Inl (Err e) \<longrightarrow> e = QuotaExceededErr)"
    by (auto simp: Let_def)
  have at: "after_runs ?m j 0 = j" for j
  proof -
    have "after_runs ?m j n = n + j" for n by (induction j arbitrary: n) (simp_all add: m)
    then show ?thesis by simp
  qed
  have "\<not> 1 < k" using k(3) unfolding at by (auto simp: m fails_with_def)
  moreover have "k \<noteq> 0" using k(2,4) unfolding at by (auto simp: m)
  ultimately have "k = 1" by simp
  with k(2) run show ?thesis unfolding at by (simp add: m)
qed

section \<open>IDs of local directories\<close>

text \<open>
  Paths that cannot be read share one ID.  \<open>ProvideID\<close> reports no error for a path whose status
  cannot be read; all such paths are given the same ID.
\<close>

theorem ProvideID_unreadable:
  assumes "os_lstat p w = (Inl (Err e), w)"
  shows "ProvideID p w = (Inr (LocalImageID [] zero_time), w)"
  using assms by (simp add: ProvideID_def resolve_def bindE_def handleE_def)

lemma ProvideID_unreadable_witness:
  "fst (ProvideID ''/x'' tmp_world) = fst (ProvideID ''/y'' tmp_world)"
proof -
  have "path_clean ''/x'' = ''/x''" "path_clean ''/y'' = ''/y''" by code_simp+
  then have w: "os_lstat ''/x'' tmp_world = (Inl (Err (NotExist ''/x'')), tmp_world)"
    "os_lstat ''/y'' tmp_world = (Inl (Err (NotExist ''/y'')), tmp_world)"
    by (simp_all add: os_lstat_def bindE_def) (simp_all add: tmp_world_def)
  from ProvideID_unreadable [OF w(1)] ProvideID_unreadable [OF w(2)] show ?thesis by simp
qed

end
