(* ===== verification/Cleaner.thy ===== *)
theory Cleaner
  imports Cake
begin

text \<open>
  Garbage collection of layers: \<open>src/layercake/cleaner/cleaner.go\<close> and \<open>threshold.go\<close>.

  The retainer is the set of held graph IDs, absent until the first \<open>Retain\<close> as the Go map is.
  \<open>removeRecursively\<close> recurses up the parent chain with no bound of its own, so it is a
  \<open>partial_function\<close> whose value \<open>None\<close> is a run that never returns; inside \<open>layer_store\<close>
  every run returns, because each call that recurses has removed a layer.

  The lemmas inside the locale are the safety of a collection (only unheld, non-container
  layers go, and never the parent of a layer that stays) and its completeness (a collection
  that reports success leaves no other leaf behind).
\<close>

section \<open>The retainer\<close>

record retainer =
  retainedImages :: "string set option"

definition NewRetainer :: retainer where
  "NewRetainer = \<lparr>retainedImages = None\<rparr>"

definition Retain :: "retainer \<Rightarrow> layer_id \<Rightarrow> retainer" where
  "Retain g i =
     (let m = (case retainedImages g of None \<Rightarrow> {} | Some m \<Rightarrow> m)
      in g\<lparr>retainedImages := Some (insert (GraphID i) m)\<rparr>)"

definition Check :: "retainer \<Rightarrow> layer_id \<Rightarrow> bool" where
  "Check g i = (case retainedImages g of None \<Rightarrow> False | Some m \<Rightarrow> GraphID i \<in> m)"

definition held :: "retainer \<Rightarrow> string set" where
  "held g = (case retainedImages g of None \<Rightarrow> {} | Some m \<Rightarrow> m)"

lemma Check_iff: "Check g i \<longleftrightarrow> GraphID i \<in> held g"
  by (simp add: Check_def held_def split: option.splits)

lemma held_NewRetainer [simp]: "held NewRetainer = {}"
  by (simp add: held_def NewRetainer_def)

lemma held_Retain [simp]: "held (Retain g i) = insert (GraphID i) (held g)"
  by (simp add: held_def Retain_def Let_def split: option.splits)

lemma held_fold_Retain: "held (foldl Retain g ids) = held g \<union> GraphID ` set ids"
  by (induction ids arbitrary: g) auto

section \<open>The threshold\<close>

datatype threshold = Threshold int64 | Disabled

definition NewThreshold :: "int64 \<Rightarrow> threshold" where
  "NewThreshold limit = (if sint limit < 0 then Disabled else Threshold limit)"

text \<open>The loop over \<open>cake.All()\<close>: it stops as soon as the running total passes the limit.\<close>

fun exceeds :: "int64 \<Rightarrow> int64 \<Rightarrow> image list \<Rightarrow> bool" where
  "exceeds t sz [] = False"
| "exceeds t sz (layer # layers) =
     (if sint (sz + Size layer) > sint t then True
      else exceeds t (sz + Size layer) layers)"

definition Exceeded :: "threshold \<Rightarrow> 'w cake \<Rightarrow> ('w, bool) prog" where
  "Exceeded th cake = (case th of
     Threshold t \<Rightarrow> bindE (All cake) (\<lambda>layers. ret (exceeds t 0 layers))
   | Disabled \<Rightarrow> ret False)"

definition total_size :: "image list \<Rightarrow> int" where
  "total_size layers = (\<Sum>layer \<leftarrow> layers. sint (Size layer))"

lemma exceeds_iff_aux:
  assumes "\<forall>layer \<in> set layers. 0 \<le> sint (Size layer)"
    and "0 \<le> sint sz" and "sint sz + total_size layers \<le> max_int64" and "sint sz \<le> sint t"
  shows "exceeds t sz layers \<longleftrightarrow> sint sz + total_size layers > sint t"
  using assms
proof (induction layers arbitrary: sz)
  case Nil
  then show ?case by (simp add: total_size_def)
next
  case (Cons l ls)
  have pos: "0 \<le> total_size ls" using Cons.prems(1)
    by (auto simp: total_size_def intro!: sum_list_nonneg)
  have l: "0 \<le> sint (Size l)" using Cons.prems(1) by simp
  have tot: "total_size (l # ls) = sint (Size l) + total_size ls" by (simp add: total_size_def)
  have s: "sint (sz + Size l) = sint sz + sint (Size l)"
    using Cons.prems(2,3) l pos tot by (intro sint_plus_id) (auto simp: in_int64_def)
  show ?case
  proof (cases "sint sz + sint (Size l) > sint t")
    case True
    then show ?thesis using s tot pos by simp
  next
    case False
    then have "exceeds t (sz + Size l) ls \<longleftrightarrow> sint (sz + Size l) + total_size ls > sint t"
      using Cons.prems l s tot by (intro Cons.IH) auto
    then show ?thesis using False s tot by (simp add: add.assoc)
  qed
qed

section \<open>Collecting\<close>

partial_function (option) removeRecursively ::
  "(layer_id \<Rightarrow> bool) \<Rightarrow> 'w cake \<Rightarrow> layer_id \<Rightarrow> 'w \<Rightarrow> (unit outcome \<times> 'w) option" where
  "removeRecursively check cake i w =
     (if check i then Some (Inr (), w)
      else case Get cake i w of
        (Inl (Err e), w1) \<Rightarrow> Some (Inr (), w1)
      | (Inl (Panic s), w1) \<Rightarrow> Some (Inl (Panic s), w1)
      | (Inr img, w1) \<Rightarrow>
          if Container img \<noteq> [] then Some (Inr (), w1)
          else case Remove cake i w1 of
            (Inl f, w2) \<Rightarrow> Some (Inl f, w2)
          | (Inr _, w2) \<Rightarrow>
              if Parent img = [] then Some (Inr (), w2)
              else case IsLeaf cake (DockerImageID (Parent img)) w2 of
                (Inl (Err e), w3) \<Rightarrow> Some (Inr (), w3)
              | (Inl (Panic s), w3) \<Rightarrow> Some (Inl (Panic s), w3)
              | (Inr lf, w3) \<Rightarrow>
                  if lf then removeRecursively check cake (DockerImageID (Parent img)) w3
                  else Some (Inr (), w3))"

primrec gc_loop ::
  "(layer_id \<Rightarrow> bool) \<Rightarrow> 'w cake \<Rightarrow> layer_id list \<Rightarrow> 'w \<Rightarrow> (unit outcome \<times> 'w) option" where
  "gc_loop check cake [] w = Some (Inr (), w)"
| "gc_loop check cake (i # ids) w =
     (case removeRecursively check cake i w of
        None \<Rightarrow> None
      | Some (Inl f, w1) \<Rightarrow> Some (Inl f, w1)
      | Some (Inr _, w1) \<Rightarrow> gc_loop check cake ids w1)"

definition GC :: "(layer_id \<Rightarrow> bool) \<Rightarrow> threshold \<Rightarrow> 'w cake \<Rightarrow> 'w \<Rightarrow> (unit outcome \<times> 'w) option" where
  "GC check th cake w =
     (case Exceeded th cake w of
        (Inl f, w1) \<Rightarrow> Some (Inl f, w1)
      | (Inr exceeded, w1) \<Rightarrow>
          if \<not> exceeded then Some (Inr (), w1)
          else case GetAllLeaves cake w1 of
            (Inl f, w2) \<Rightarrow> Some (Inl f, w2)
          | (Inr ids, w2) \<Rightarrow> gc_loop check cake ids w2)"

text \<open>
  What a collection may do to the layers: take away some that are neither held nor containers,
  and never one that is the parent of a layer that stays.
\<close>

definition collects :: "string set \<Rightarrow> (string \<rightharpoonup> image) \<Rightarrow> (string \<rightharpoonup> image) \<Rightarrow> bool" where
  "collects H L L' \<longleftrightarrow> L' \<subseteq>\<^sub>m L \<and> keeps_parents L L' \<and>
     (\<forall>i img. L i = Some img \<longrightarrow> L' i = None \<longrightarrow> i \<notin> H \<and> Container img = [])"

text \<open>The layers that a collection cannot take away: held ones and containers.\<close>

definition pinned :: "string set \<Rightarrow> (string \<rightharpoonup> image) \<Rightarrow> string \<Rightarrow> bool" where
  "pinned H L i \<longleftrightarrow> i \<in> H \<or> (\<exists>img. L i = Some img \<and> Container img \<noteq> [])"

lemma collects_refl [simp]: "collects H L L"
  by (simp add: collects_def)

lemma collects_trans:
  assumes "collects H L M" and "collects H M N"
  shows "collects H L N"
proof -
  have "i \<notin> H \<and> Container img = []" if i: "L i = Some img" "N i = None" for i img
  proof (cases "M i")
    case None
    with assms(1) i show ?thesis by (simp add: collects_def)
  next
    case (Some img')
    with assms(1) i(1) have "img' = img"
      by (metis collects_def domI map_le_def option.inject)
    with Some assms(2) i show ?thesis by (simp add: collects_def)
  qed
  with assms show ?thesis
    by (auto simp: collects_def intro: map_le_trans keeps_parents_trans)
qed

lemma collects_remove:
  "leaf L i \<Longrightarrow> L i = Some img \<Longrightarrow> i \<notin> H \<Longrightarrow> Container img = [] \<Longrightarrow> collects H L (L(i := None))"
  by (auto simp: collects_def keeps_parents_remove map_le_remove)

section \<open>Collecting in a layer store\<close>

definition tests_for :: "(layer_id \<Rightarrow> bool) \<Rightarrow> string set \<Rightarrow> bool" where
  "tests_for check H \<longleftrightarrow> (\<forall>i. check i \<longleftrightarrow> GraphID i \<in> H)"

lemma tests_for_Check: "tests_for (Check g) (held g)"
  by (simp add: tests_for_def Check_iff)

text \<open>
  The outcome of collecting from one leaf: it returns without a panic; what it takes is
  allowed; the other leaves stay leaves; and if it succeeds, every leaf that is left was one of
  the others or is pinned.
\<close>

definition swept ::
  "string set \<Rightarrow> string set \<Rightarrow> (string \<rightharpoonup> image) \<Rightarrow> unit outcome \<Rightarrow> (string \<rightharpoonup> image) \<Rightarrow> bool" where
  "swept H S L r L' \<longleftrightarrow> collects H L L' \<and> (\<forall>s. r \<noteq> Inl (Panic s)) \<and>
     (\<forall>j. leaf L j \<longrightarrow> j \<notin> S \<longrightarrow> leaf L' j) \<and>
     (r = Inr () \<longrightarrow> (\<forall>j. leaf L' j \<longrightarrow> leaf L j \<and> j \<notin> S \<or> pinned H L' j))"

lemma swept_stop: "pinned H L i \<Longrightarrow> swept H {i} L (Inr ()) L"
  by (auto simp: swept_def)

lemma swept_failed:
  assumes "leaf L i" and "L i = Some img" and "i \<notin> H" and "Container img = []"
    and "L' = L \<or> L' = L(i := None)"
  shows "swept H {i} L (Inl (Err e)) L'"
  using assms collects_remove [OF assms(1-4)]
  by (auto simp: swept_def intro: leaf_remove_other)

lemma swept_step:
  assumes "leaf L i" and "L i = Some img" and "i \<notin> H" and "Container img = []"
    and p: "\<not> leaf L (Parent img)"
    and rest: "swept H (if leaf (L(i := None)) (Parent img) then {Parent img} else {}) (L(i := None)) r L'"
  shows "swept H {i} L r L'"
proof -
  let ?M = "L(i := None)"
  have c: "collects H L L'"
    using collects_remove [OF assms(1-4)] rest by (auto simp: swept_def intro: collects_trans)
  have keep: "leaf L' j" if "leaf L j" "j \<noteq> i" for j
    using that rest p leaf_remove_other [of L j i] by (auto simp: swept_def split: if_splits)
  have new: "leaf L j \<and> j \<noteq> i \<or> pinned H L' j" if "r = Inr ()" "leaf L' j" for j
  proof -
    from that rest have "leaf ?M j \<and> (leaf ?M (Parent img) \<longrightarrow> j \<noteq> Parent img) \<or> pinned H L' j"
      by (auto simp: swept_def split: if_splits)
    then show ?thesis using leaf_remove [of L i j] assms(2) leaf_dom [of ?M j] by auto
  qed
  from c keep new rest show ?thesis by (simp add: swept_def)
qed

lemma pinned_mono: "collects H L M \<Longrightarrow> pinned H L j \<Longrightarrow> j \<in> dom M \<Longrightarrow> pinned H M j"
  by (auto simp: pinned_def collects_def map_le_def)

text \<open>Two parts of a collection, the first of which succeeded, one after the other.\<close>

lemma swept_trans:
  assumes one: "swept H {i} L (Inr ()) M" and rest: "swept H S M r N"
  shows "swept H (insert i S) L r N"
  unfolding swept_def
proof (intro conjI allI impI)
  show "collects H L N" using one rest by (auto simp: swept_def intro: collects_trans)
  show "r \<noteq> Inl (Panic s)" for s using rest by (simp add: swept_def)
  show "leaf N j" if "leaf L j" "j \<notin> insert i S" for j
    using that one rest by (auto simp: swept_def)
  fix j
  assume "r = Inr ()" and j: "leaf N j"
  with rest have "leaf M j \<and> j \<notin> S \<or> pinned H N j" by (simp add: swept_def)
  moreover have "pinned H N j" if "pinned H M j"
    using that rest leaf_dom [OF j] by (auto simp: swept_def intro: pinned_mono)
  ultimately show "leaf L j \<and> j \<notin> insert i S \<or> pinned H N j"
    using one by (auto simp: swept_def)
qed

lemma swept_nothing: "swept H {} L (Inr ()) L"
  by (simp add: swept_def)

context layer_store
begin

lemma leaf_valid: "good w \<Longrightarrow> leaf (layers w) s \<Longrightarrow> ValidateID s"
  using valid_layers by (auto simp: leaf_def)

lemma empty_not_leaf: "good w \<Longrightarrow> \<not> leaf (layers w) []"
  using leaf_valid ValidateID_nonempty by blast

lemma removeRecursively_swept:
  assumes "tests_for check H" and "good w" and "leaf (layers w) (GraphID i)"
  shows "\<exists>r w'. removeRecursively check cake i w = Some (r, w') \<and> good w' \<and>
    swept H {GraphID i} (layers w) r (layers w')"
  using assms(2,3)
proof (induction "card (dom (layers w))" arbitrary: i w rule: less_induct)
  case less
  let ?L = "layers w" and ?i = "GraphID i"
  from less.prems obtain img where img: "?L ?i = Some img"
    and get: "Get cake i w = (Inr img, w)"
    using Get_present leaf_dom [OF less.prems(2)] by blast
  show ?case
  proof (cases "?i \<in> H \<or> Container img \<noteq> []")
    case True
    with img have "pinned H ?L ?i" by (auto simp: pinned_def)
    moreover have "removeRecursively check cake i w = Some (Inr (), w)"
      using True assms(1) get by (auto simp: removeRecursively.simps [of check cake i w] tests_for_def)
    ultimately show ?thesis using less.prems(1) swept_stop by auto
  next
    case False
    then have unheld: "\<not> check i" "?i \<notin> H" "Container img = []" using assms(1) by (auto simp: tests_for_def)
    obtain r w2 where rm: "Remove cake i w = (r, w2)" by (cases "Remove cake i w")
    have "ValidateID (GraphID i)" using valid_layers [OF less.prems(1) img] by simp
    from less.prems(1) this rm show ?thesis
    proof (cases rule: Remove_cases)
      case (failed e)
      then have "removeRecursively check cake i w = Some (Inl (Err e), w2)"
        using unheld get rm by (simp add: removeRecursively.simps [of check cake i w])
      then show ?thesis using swept_failed [OF less.prems(2) img unheld(2,3) failed(3)] failed(2) by auto
    next
      case removed
      let ?p = "Parent img"
      have notp: "\<not> leaf ?L ?p" using img by (auto simp: leaf_def)
      have isleaf: "IsLeaf cake (DockerImageID ?p) w2 = (Inr (leaf (layers w2) ?p), w2)"
        using IsLeaf_exact [OF removed(2), of "DockerImageID ?p"] by simp
      show ?thesis
      proof (cases "leaf (layers w2) ?p")
        case True
        then have "?p \<noteq> []" using empty_not_leaf removed(2) by metis
        then have step: "removeRecursively check cake i w
            = removeRecursively check cake (DockerImageID ?p) w2"
          using unheld get rm removed(1) isleaf True
          by (simp add: removeRecursively.simps [of check cake i w])
        have "card (dom (layers w2)) < card (dom ?L)"
          unfolding removed(3)
          by (rule card_remove_less [OF finite_layers [OF less.prems(1)] leaf_dom [OF less.prems(2)]])
        from less.hyps [OF this removed(2), of "DockerImageID ?p"] True obtain r' w' where
          "removeRecursively check cake (DockerImageID ?p) w2 = Some (r', w')" "good w'"
          "swept H {?p} (layers w2) r' (layers w')" by auto
        then show ?thesis
          using swept_step [OF less.prems(2) img unheld(2,3) notp] True step removed(3) by auto
      next
        case False
        then have "removeRecursively check cake i w = Some (Inr (), w2)"
          using unheld get rm removed(1) isleaf
          by (simp add: removeRecursively.simps [of check cake i w])
        then show ?thesis
          using swept_step [OF less.prems(2) img unheld(2,3) notp, of "Inr ()" "layers w2"]
            False removed(2,3) swept_nothing by auto
      qed
    qed
  qed
qed

text \<open>The loop over the leaves.\<close>

lemma gc_loop_swept:
  assumes "tests_for check H"
  shows "good w \<Longrightarrow> distinct (map GraphID ids) \<Longrightarrow> \<forall>i \<in> set ids. leaf (layers w) (GraphID i) \<Longrightarrow>
    \<exists>r w'. gc_loop check cake ids w = Some (r, w') \<and> good w' \<and>
      swept H (GraphID ` set ids) (layers w) r (layers w')"
proof (induction ids arbitrary: w)
  case Nil
  then show ?case using swept_nothing by auto
next
  case (Cons i ids)
  from removeRecursively_swept [OF assms Cons.prems(1), of i] Cons.prems(3)
  obtain r1 w1 where one: "removeRecursively check cake i w = Some (r1, w1)" "good w1"
    "swept H {GraphID i} (layers w) r1 (layers w1)" by auto
  show ?case
  proof (cases r1)
    case (Inl f)
    with one show ?thesis by (cases f) (auto simp: swept_def)
  next
    case (Inr u)
    have "leaf (layers w1) (GraphID j)" if "j \<in> set ids" for j
    proof -
      from that Cons.prems(2,3) have "GraphID j \<noteq> GraphID i \<and> leaf (layers w) (GraphID j)"
        by (simp, metis image_eqI)
      with one(3) show ?thesis by (simp add: swept_def)
    qed
    then have "\<forall>j \<in> set ids. leaf (layers w1) (GraphID j)" by blast
    from Cons.IH [OF one(2) _ this] Cons.prems(2) obtain r w' where
      rest: "gc_loop check cake ids w1 = Some (r, w')" "good w'"
        "swept H (GraphID ` set ids) (layers w1) r (layers w')" by auto
    have "swept H (GraphID ` set (i # ids)) (layers w) r (layers w')"
      using swept_trans [of H "GraphID i" "layers w" "layers w1"] one(3) rest(3) Inr by simp
    then show ?thesis using one Inr rest by auto
  qed
qed

text \<open>A whole collection, when the threshold test returns and does not change the store.\<close>

lemma GC_outcome:
  assumes "tests_for check H" and "good w" and "Exceeded th cake w = (Inr exceeded, w)"
  shows "\<exists>r w'. GC check th cake w = Some (r, w') \<and> good w' \<and>
    collects H (layers w) (layers w') \<and> (\<forall>s. r \<noteq> Inl (Panic s)) \<and>
    (exceeded \<longrightarrow> r = Inr () \<longrightarrow> (\<forall>j. leaf (layers w') j \<longrightarrow> pinned H (layers w') j)) \<and>
    (\<not> exceeded \<longrightarrow> r = Inr () \<and> w' = w)"
proof (cases exceeded)
  case False
  with assms show ?thesis by (simp add: GC_def)
next
  case True
  from GetAllLeaves_exact [OF assms(2)] obtain ids where ids: "GetAllLeaves cake w = (Inr ids, w)"
    "distinct (map GraphID ids)" "set (map GraphID ids) = {s. leaf (layers w) s}" by blast
  then have leaves: "\<forall>i \<in> set ids. leaf (layers w) (GraphID i)" by auto
  from gc_loop_swept [OF assms(1,2) ids(2) leaves] obtain r w' where
    r: "gc_loop check cake ids w = Some (r, w')" "good w'"
      "swept H (GraphID ` set ids) (layers w) r (layers w')" by blast
  have "GC check th cake w = Some (r, w')" using assms(3) True ids(1) r(1) by (simp add: GC_def)
  moreover have "pinned H (layers w') j" if "r = Inr ()" "leaf (layers w') j" for j
    using that r(3) ids(3) by (auto simp: swept_def)
  ultimately show ?thesis using r True by (auto simp: swept_def)
qed

text \<open>When no removal fails, the collection does not fail either.\<close>

lemma removeRecursively_succeeds:
  assumes sure: "\<And>w i. good w \<Longrightarrow> GraphID i \<in> dom (layers w) \<Longrightarrow> fst (Remove cake i w) = Inr ()"
    and run: "removeRecursively check cake i w = Some y" and "good w" and "ValidateID (GraphID i)"
  shows "fst y = Inr () \<and> good (snd y)"
proof -
  let ?P = "\<lambda>chk c i w y. c = cake \<longrightarrow> good w \<longrightarrow> ValidateID (GraphID i) \<longrightarrow> fst y = Inr () \<and> good (snd y)"
  have "?P check cake i w y"
  proof (rule removeRecursively.raw_induct [where P = ?P, OF _ run], intro impI)
    fix loop chk c i w y
    assume IH: "\<And>chk c i w y. loop chk c i w = Some y \<Longrightarrow> ?P chk c i w y"
      and body: "(if chk i then Some (Inr (), w)
        else case Get c i w of
          (Inl (Err e), w1) \<Rightarrow> Some (Inr (), w1)
        | (Inl (Panic s), w1) \<Rightarrow> Some (Inl (Panic s), w1)
        | (Inr img, w1) \<Rightarrow>
            if Container img \<noteq> [] then Some (Inr (), w1)
            else case Remove c i w1 of
              (Inl f, w2) \<Rightarrow> Some (Inl f, w2)
            | (Inr _, w2) \<Rightarrow>
                if Parent img = [] then Some (Inr (), w2)
                else case IsLeaf c (DockerImageID (Parent img)) w2 of
                  (Inl (Err e), w3) \<Rightarrow> Some (Inr (), w3)
                | (Inl (Panic s), w3) \<Rightarrow> Some (Inl (Panic s), w3)
                | (Inr lf, w3) \<Rightarrow>
                    if lf then loop chk c (DockerImageID (Parent img)) w3
                    else Some (Inr (), w3)) = Some y"
      and c: "c = cake" and w: "good w" and i: "ValidateID (GraphID i)"
    from w i show "fst y = Inr () \<and> good (snd y)"
    proof (cases rule: Get_cases)
      case (present img)
      then have "fst (Remove cake i w) = Inr ()" using sure [OF w] by blast
      then obtain w2 where rm: "Remove cake i w = (Inr (), w2)" by (cases "Remove cake i w") auto
      then have w2: "good w2" using Remove_effect [OF w i] by fastforce
      have lf: "IsLeaf cake (DockerImageID p) w2 = (Inr (leaf (layers w2) p), w2)" for p
        using IsLeaf_exact [OF w2, of "DockerImageID p"] by simp
      show ?thesis
        using body w w2 c IH [of chk cake "DockerImageID (Parent img)" w2 y] leaf_valid [OF w2, of "Parent img"]
        by (auto simp: rm present(2) lf split: if_splits)
    qed (use body w c in \<open>auto split: if_splits\<close>)
  qed
  with assms(3,4) show ?thesis by simp
qed

lemma gc_loop_succeeds:
  assumes "\<And>w i. good w \<Longrightarrow> GraphID i \<in> dom (layers w) \<Longrightarrow> fst (Remove cake i w) = Inr ()"
  shows "gc_loop check cake ids w = Some y \<Longrightarrow> good w \<Longrightarrow> \<forall>i \<in> set ids. ValidateID (GraphID i) \<Longrightarrow> fst y = Inr ()"
proof (induction ids arbitrary: w)
  case (Cons i ids)
  from Cons.prems(1) obtain x w1 where one: "removeRecursively check cake i w = Some (x, w1)"
    by (auto split: option.splits)
  from removeRecursively_succeeds [OF assms one Cons.prems(2)] Cons.prems(3)
  have "x = Inr ()" "good w1" by auto
  with Cons one show ?case by simp
qed auto

lemma collection_succeeds:
  assumes "\<And>w i. good w \<Longrightarrow> GraphID i \<in> dom (layers w) \<Longrightarrow> fst (Remove cake i w) = Inr ()"
    and "good w" and "Exceeded th cake w = (Inr exceeded, w)" and run: "GC check th cake w = Some (x, w')"
  shows "x = Inr ()"
proof -
  from GetAllLeaves_exact [OF assms(2)] obtain ids where ids: "GetAllLeaves cake w = (Inr ids, w)"
    "set (map GraphID ids) = {s. leaf (layers w) s}" by blast
  then have "\<forall>i \<in> set ids. ValidateID (GraphID i)" using leaf_valid [OF assms(2)] by auto
  from gc_loop_succeeds [OF assms(1) _ assms(2) this] show ?thesis
    using run assms(3) ids(1) by (fastforce simp: GC_def split: if_splits)
qed

end

section \<open>What the retainer holds\<close>

text \<open>
  Holding.  After holding a list of IDs, the retainer answers yes exactly for the layers it held
  before and for those whose graph ID is the graph ID of one in the list.
\<close>

theorem Retain_Check:
  "Check (foldl Retain g ids) j \<longleftrightarrow> Check g j \<or> GraphID j \<in> GraphID ` set ids"
  by (simp add: Check_iff held_fold_Retain)

end
