(* ===== verification/Retaining.thy ===== *)
theory Retaining
  imports Fetching Cleaner
begin

text \<open>
  \<open>ImageRetainer\<close> (\<open>src/repository_fetcher/image_retainer.go\<close>): the images that are configured
  to stay.  Each is held twice, by its own ID and by the ID of its namespaced copy; an image whose
  URL does not parse or whose ID cannot be found is skipped.
\<close>

definition toID ::
  "(url \<Rightarrow> ('w, layer_id) prog) \<Rightarrow> (string \<Rightarrow> ('w, layer_id) prog) \<Rightarrow> url \<Rightarrow> ('w, layer_id) prog" where
  "toID dockerFetchID dirProvideID u =
     (if Scheme u = ''docker'' then dockerFetchID u else dirProvideID (UrlPath u))"

text \<open>
  The loop of \<open>Retain\<close>; \<open>g\<close> is the retainer, which the garbage collector shares.  A panic of the
  fetcher ends it.
\<close>

fun Retain_images ::
  "(url \<Rightarrow> ('w, layer_id) prog) \<Rightarrow> (string \<Rightarrow> ('w, layer_id) prog) \<Rightarrow> string \<Rightarrow> string list \<Rightarrow>
    retainer \<Rightarrow> ('w, retainer) prog" where
  "Retain_images dockerFetchID dirProvideID key [] g = ret g"
| "Retain_images dockerFetchID dirProvideID key (raw # raws) g =
     (case url_Parse raw of
        Inl e \<Rightarrow> Retain_images dockerFetchID dirProvideID key raws g
      | Inr u \<Rightarrow>
          handleE (toID dockerFetchID dirProvideID u)
            (\<lambda>e. Retain_images dockerFetchID dirProvideID key raws g)
            (\<lambda>i. Retain_images dockerFetchID dirProvideID key raws
                   (Retain (Retain g i) (NamespacedID i key))))"

text \<open>The IDs that a run finds, in order.\<close>

fun found_ids ::
  "(url \<Rightarrow> ('w, layer_id) prog) \<Rightarrow> (string \<Rightarrow> ('w, layer_id) prog) \<Rightarrow> string list \<Rightarrow> 'w \<Rightarrow> layer_id list" where
  "found_ids dockerFetchID dirProvideID [] w = []"
| "found_ids dockerFetchID dirProvideID (raw # raws) w =
     (case url_Parse raw of
        Inl e \<Rightarrow> found_ids dockerFetchID dirProvideID raws w
      | Inr u \<Rightarrow> (case toID dockerFetchID dirProvideID u w of
          (Inr i, w') \<Rightarrow> i # found_ids dockerFetchID dirProvideID raws w'
        | (Inl _, w') \<Rightarrow> found_ids dockerFetchID dirProvideID raws w'))"

definition held_for :: "string \<Rightarrow> layer_id list \<Rightarrow> string set" where
  "held_for key ids = (\<Union>i \<in> set ids. {GraphID i, GraphID (NamespacedID i key)})"

lemma held_for_simps [simp]:
  "held_for key [] = {}"
  "held_for key (i # ids) = {GraphID i, GraphID (NamespacedID i key)} \<union> held_for key ids"
  by (auto simp: held_for_def)

lemma Retain_images_held:
  assumes "Retain_images dockerFetchID dirProvideID key raws g w = (Inr g', w')"
  shows "held g' = held g \<union> held_for key (found_ids dockerFetchID dirProvideID raws w)"
  using assms
proof (induction raws arbitrary: g w)
  case (Cons raw raws)
  show ?case
  proof (cases "url_Parse raw")
    case (Inl e)
    with Cons show ?thesis by simp
  next
    case (Inr u)
    obtain r w1 where r: "toID dockerFetchID dirProvideID u w = (r, w1)"
      by (cases "toID dockerFetchID dirProvideID u w")
    show ?thesis
    proof (cases r)
      case (Inl f)
      with Cons.prems Inr r obtain e where "f = Err e"
        by (cases f) (simp_all add: handleE_def)
      with Inl Inr r Cons.prems have "Retain_images dockerFetchID dirProvideID key raws g w1 = (Inr g', w')"
        by (simp add: handleE_def)
      from Cons.IH [OF this] Inl Inr r show ?thesis by simp
    next
      case (Inr i)
      with \<open>url_Parse raw = Inr u\<close> r Cons.prems
      have "Retain_images dockerFetchID dirProvideID key raws (Retain (Retain g i) (NamespacedID i key)) w1
          = (Inr g', w')"
        by (simp add: handleE_def)
      from Cons.IH [OF this] Inr \<open>url_Parse raw = Inr u\<close> r show ?thesis by auto
    qed
  qed
qed simp

text \<open>
  A collection leaves every held layer and container and, up the chain of parents, all their
  ancestors.
\<close>

inductive ancestor :: "(string \<rightharpoonup> image) \<Rightarrow> string \<Rightarrow> string \<Rightarrow> bool" for L i where
  self: "ancestor L i i"
| up: "ancestor L i j \<Longrightarrow> L j = Some img \<Longrightarrow> Parent img \<in> dom L \<Longrightarrow> ancestor L i (Parent img)"

lemma collects_keeps_ancestors:
  assumes "collects H L L'" and "pinned H L i" and "i \<in> dom L" and "ancestor L i j"
  shows "j \<in> dom L' \<and> L' j = L j"
  using assms(4)
proof induction
  case self
  from assms(1-3) have "i \<in> dom L'" unfolding collects_def pinned_def by fastforce
  with assms(1) show ?case by (simp add: collects_def map_le_def)
next
  case (up j img)
  then have "L' j = Some img" by simp
  with assms(1) up(3) have "Parent img \<in> dom L'" by (simp add: collects_def keeps_parents_def)
  with assms(1) show ?case by (simp add: collects_def map_le_def)
qed

end
