(* ===== verification/Container_Layers.thy ===== *)
theory Container_Layers
  imports Retaining
begin

text \<open>
  Making a container's layer: \<open>src/rootfs_provider/layer_creator.go\<close> and \<open>volume_creator.go\<close>.

  The collaborators of the creator are interfaces: the cake, a volume creator and a namespacer,
  records of functions over any world.  The mutex around \<open>namespace\<close> makes it one step.
\<close>

section \<open>Volumes\<close>

record 'w volume_creator =
  createVolume :: "string \<Rightarrow> string \<Rightarrow> ('w, unit) prog"

definition SimpleVolumeCreator_Create :: "string \<Rightarrow> string \<Rightarrow> ('z os_state_scheme, unit) prog" where
  "SimpleVolumeCreator_Create rootPath volume =
     (let volumePath = path_join [rootPath, volume];
          make = handleE (mkdir_all volumePath)
            (\<lambda>e. throw (Errorf (''volume creator: creating volume directory: '' @ err_msg e))) ret
      in handleE (os_stat volumePath) (\<lambda>_. make)
        (\<lambda>info. if kind info \<noteq> Directory
                 then throw (Errorf (''volume creator: existing file at mount point: '' @ volume))
                 else make))"

section \<open>The layer creator\<close>

datatype disk_scope = DiskLimitScopeTotal | DiskLimitScopeExclusive | OtherScope

record rootfs_spec =
  RootFS :: url
  Username :: string
  Password :: string
  Namespaced :: bool
  QuotaSize :: int64
  QuotaScope :: disk_scope

record 'w namespacer =
  CacheKey :: string
  NamespaceAt :: "string \<Rightarrow> ('w, unit) prog"

record 'w layer_creator =
  lcGraph :: "'w cake"
  lcVolumes :: "'w volume_creator"
  lcNamespacer :: "'w namespacer"

definition createLayer :: "'w layer_creator \<Rightarrow> layer_id \<Rightarrow> layer_id \<Rightarrow> ('w, string) prog" where
  "createLayer lc i parentId =
     bindE (Create (lcGraph lc) i parentId []) (\<lambda>_. Path (lcGraph lc) i)"

text \<open>An error of the deferred unmount panics.\<close>

definition unmountTranslationLayer :: "'w layer_creator \<Rightarrow> layer_id \<Rightarrow> ('w, unit) prog" where
  "unmountTranslationLayer lc i = handleE (Unmount (lcGraph lc) i) (\<lambda>e. panic (err_msg e)) ret"

definition createNamespacedLayer :: "'w layer_creator \<Rightarrow> layer_id \<Rightarrow> layer_id \<Rightarrow> ('w, unit) prog" where
  "createNamespacedLayer lc i parentId =
     bindE (createLayer lc i parentId) (\<lambda>path.
     deferE (unmountTranslationLayer lc i) (NamespaceAt (lcNamespacer lc) path))"

definition namespace_layer :: "'w layer_creator \<Rightarrow> layer_id \<Rightarrow> ('w, layer_id) prog" where
  "namespace_layer lc imageID =
     (let i = NamespacedID imageID (CacheKey (lcNamespacer lc)) in
      handleE (Get (lcGraph lc) i)
        (\<lambda>_. bindE (createNamespacedLayer lc i imageID) (\<lambda>_. ret i))
        (\<lambda>_. ret i))"

definition container_path :: "'w layer_creator \<Rightarrow> layer_id \<Rightarrow> rootfs_spec \<Rightarrow> fetched \<Rightarrow> ('w, string) prog" where
  "container_path lc containerID spec parentImage =
     (if sint (QuotaSize spec) > 0 \<and> QuotaScope spec = DiskLimitScopeExclusive
      then QuotaedPath (lcGraph lc) containerID (QuotaSize spec)
      else if sint (QuotaSize spec) > 0 \<and> QuotaScope spec = DiskLimitScopeTotal
      then QuotaedPath (lcGraph lc) containerID (QuotaSize spec - ImgSize parentImage)
      else Path (lcGraph lc) containerID)"

definition LayerCreator_Create ::
  "'w layer_creator \<Rightarrow> string \<Rightarrow> fetched \<Rightarrow> rootfs_spec \<Rightarrow> ('w, string \<times> string list) prog" where
  "LayerCreator_Create lc i parentImage spec =
     bindE (if Namespaced spec then namespace_layer lc (DockerImageID (ImageID parentImage))
            else ret (DockerImageID (ImageID parentImage))) (\<lambda>imageID.
     bindE (Create (lcGraph lc) (ContainerID i) imageID i) (\<lambda>_.
     bindE (container_path lc (ContainerID i) spec parentImage) (\<lambda>rootPath.
     bindE (forE (ImgVolumes parentImage) (createVolume (lcVolumes lc) rootPath)) (\<lambda>_.
     ret (rootPath, ImgEnv parentImage)))))"

text \<open>The creator that \<open>Wire\<close> makes.\<close>

definition wired_creator ::
  "'z os_state_scheme cake \<Rightarrow> 'z os_state_scheme namespacer \<Rightarrow> 'z os_state_scheme layer_creator" where
  "wired_creator cake namespacer = \<lparr>lcGraph = cake,
     lcVolumes = \<lparr>createVolume = SimpleVolumeCreator_Create\<rparr>, lcNamespacer = namespacer\<rparr>"

section \<open>Volumes, functionally\<close>

lemma SimpleVolumeCreator_file:
  assumes "no_faults w" and "clean_abs (path_join [r, v])" and "not_link w (path_join [r, v])"
    and "files w (path_join [r, v]) = Some i" and "kind i \<noteq> Directory"
  shows "SimpleVolumeCreator_Create r v w =
    (Inl (Err (Errorf (''volume creator: existing file at mount point: '' @ v))), w)"
  using os_stat_ok [OF assms(1-3)] assms(4,5)
  by (simp add: SimpleVolumeCreator_Create_def Let_def handleE_def)

lemma SimpleVolumeCreator_dir:
  assumes "no_faults w" and "clean_abs (path_join [r, v])" and "dir_ready (path_join [r, v]) w"
    and "path_join [r, v] \<in> set (path_prefixes (path_join [r, v]))"
  shows "SimpleVolumeCreator_Create r v w = (Inr (), fill_dirs (path_prefixes (path_join [r, v])) w)"
proof -
  let ?p = "path_join [r, v]"
  have free: "free_or_dir w ?p" using assms(3,4) by (simp add: dir_ready_def)
  then have "not_link w ?p"
    by (auto simp: free_or_dir_def not_link_def split: option.splits)
  from os_stat_ok [OF assms(1,2) this] mkdir_all_ok [OF assms(1-3)] free show ?thesis
    by (auto simp: SimpleVolumeCreator_Create_def Let_def handleE_def free_or_dir_def split: option.splits)
qed

section \<open>What creating a volume does\<close>

lemma own_prefix:
  assumes "clean_abs p" and "p \<noteq> ''/''"
  shows "p \<in> set (path_prefixes p)"
proof -
  obtain cs where cs: "p = abs_path cs" "list_all plain_name cs" by (rule clean_abs_comps [OF assms(1)])
  with assms(2) have "cs \<noteq> []" by (auto simp: abs_path_def)
  from path_prefixes_abs [OF cs(2) this] \<open>cs \<noteq> []\<close> show ?thesis unfolding cs(1) by blast
qed

text \<open>
  An existing directory is kept as it is.  When the volume's path is a directory of the image,
  \<open>Create\<close> succeeds and changes nothing: the directory is not emptied.
\<close>

theorem volume_keeps_directory:
  assumes "no_faults w" and "clean_abs (path_join [rootPath, volume])" and "path_join [rootPath, volume] \<noteq> ''/''"
    and "\<forall>q \<in> set (path_prefixes (path_join [rootPath, volume])). \<exists>i. files w q = Some i \<and> kind i = Directory"
  shows "SimpleVolumeCreator_Create rootPath volume w = (Inr (), w)"
proof -
  let ?p = "path_join [rootPath, volume]"
  have "dir_ready ?p w" using assms(4) by (fastforce simp: dir_ready_def free_or_dir_def)
  note run = SimpleVolumeCreator_dir [OF assms(1,2) this own_prefix [OF assms(2,3)]]
  have "(\<lambda>q. if q \<in> set (path_prefixes ?p) \<and> files w q = None then Some (new_inode Directory) else files w q) = files w"
    using assms(4) by fastforce
  then have "fill_dirs (path_prefixes ?p) w = w" by (simp add: fill_dirs_def)
  with run show ?thesis by simp
qed

definition volume_world :: os_state where
  "volume_world = \<lparr>files = [''/c'' \<mapsto> new_inode Directory, ''/c/v'' \<mapsto> new_inode Directory,
     ''/c/v/old'' \<mapsto> new_inode (Regular ''x''), ''/c/f'' \<mapsto> new_inode (Regular ''y'')], os_fault = \<lambda>_ _. None\<rparr>"

lemma volume_paths:
  "path_join [''/c'', ''v''] = ''/c/v''" "path_join [''/c'', ''f''] = ''/c/f''"
  "path_prefixes ''/c/v'' = [''/c'', ''/c/v'']" "clean_abs ''/c/v''" "clean_abs ''/c/f''"
  "path_join [''/c'', ''../e''] = ''/e''" "clean_abs ''/e''" "path_prefixes ''/e'' = [''/e'']"
  by code_simp+

lemma volume_keeps_directory_witness:
  "SimpleVolumeCreator_Create ''/c'' ''v'' volume_world = (Inr (), volume_world)"
  by (rule volume_keeps_directory)
    (simp_all add: volume_paths no_faults_def volume_world_def)

text \<open>
  A file at the mount point is an error.  When the volume's path is a file of the image, \<open>Create\<close>
  reports it and changes nothing.
\<close>

theorem volume_refuses_file:
  assumes "no_faults w" and "clean_abs (path_join [rootPath, volume])"
    and "files w (path_join [rootPath, volume]) = Some i" and "kind i = Regular s"
  shows "SimpleVolumeCreator_Create rootPath volume w =
    (Inl (Err (Errorf (''volume creator: existing file at mount point: '' @ volume))), w)"
  using SimpleVolumeCreator_file [OF assms(1,2) _ assms(3)] assms(3,4) by (simp add: not_link_def)

lemma volume_refuses_file_witness:
  "SimpleVolumeCreator_Create ''/c'' ''f'' volume_world =
    (Inl (Err (Errorf ''volume creator: existing file at mount point: f'')), volume_world)"
  using volume_refuses_file [of volume_world "''/c''" "''f''" "new_inode (Regular ''y'')" "''y''"]
  by (simp add: volume_paths no_faults_def volume_world_def)

text \<open>
  A volume may name a path outside the root.  The names of an image's volumes are not checked:
  for a name that begins with two dots, \<open>Create\<close> makes a directory beside the container's root.
\<close>

theorem volume_escapes_root:
  assumes "no_faults w" and "files w ''/e'' = None"
  shows "SimpleVolumeCreator_Create ''/c'' ''../e'' w = (Inr (), fill_dirs [''/e''] w) \<and>
    files (fill_dirs [''/e''] w) ''/e'' \<noteq> None"
  using SimpleVolumeCreator_dir [of w "''/c''" "''../e''"] assms
  by (simp add: volume_paths dir_ready_def free_or_dir_def fill_dirs_def)

lemma volume_escapes_root_witness:
  "files (snd (SimpleVolumeCreator_Create ''/c'' ''../e'' volume_world)) ''/e'' \<noteq> None"
  using volume_escapes_root [of volume_world] by (simp add: no_faults_def volume_world_def)

end
