(* ===== verification/Docker_Graph.thy ===== *)
theory Docker_Graph
  imports Cake "HOL-Library.AList" "HOL-Library.Multiset"
begin

text \<open>
  The image store behind the cake: docker's \<open>graph.Graph\<close> with its ID index
  (\<open>src/vendor/github.com/docker/docker/graph/graph.go\<close>, \<open>graph_unix.go\<close>,
  \<open>pkg/truncindex/truncindex.go\<close>), as garden-shed's \<open>layercake.Docker\<close> calls it.

  The directory of an image holds its decoded \<open>json\<close> file, its \<open>layersize\<close> and its \<open>parent\<close>
  file; the JSON text itself is modelled by the record it decodes to.  \<open>idIndex\<close> lists the
  registered IDs.  The order in which a Go map is ranged over, and the order in which the index
  is walked, is unspecified: \<open>visitOrder\<close> is that order, any rearrangement of the keys.  Maps
  that are built up in a loop are association lists.  The per-image mutexes are not modelled: an
  operation is one step.

  The graph driver is a record of its methods over the same world; the locale \<open>graph_driver\<close>
  says what the graph relies on: a driver panics nowhere and does not touch the graph's own
  files and index.
\<close>

section \<open>State and driver\<close>

record image_dir =
  jsonFile :: "image option"
  layersizeFile :: "int64 option"
  parentFile :: "string option"

record graph_state = os_state +
  idIndex :: "string list"
  imageDirs :: "string \<rightharpoonup> image_dir"
  visitOrder :: "string list \<Rightarrow> string list"

record 'w driver =
  drv_String :: string
  drv_Create :: "string \<Rightarrow> string \<Rightarrow> ('w, unit) prog"
  drv_Remove :: "string \<Rightarrow> ('w, unit) prog"
  drv_Get :: "string \<Rightarrow> string \<Rightarrow> ('w, string) prog"
  drv_Put :: "string \<Rightarrow> ('w, unit) prog"
  drv_DiffSize :: "string \<Rightarrow> string \<Rightarrow> ('w, int64) prog"
  drv_ApplyDiff :: "string \<Rightarrow> string \<Rightarrow> layer_stream \<Rightarrow> ('w, int64) prog"
  drv_GetQuotaed :: "(string \<Rightarrow> string \<Rightarrow> int64 \<Rightarrow> ('w, string) prog) option"

text \<open>
  A graph: its root directory, its driver, and the decompression of layer data
  (\<open>archive.DecompressStream\<close>).
\<close>

record 'w graph =
  root :: string
  driver :: "'w driver"
  DecompressStream :: "reader \<Rightarrow> go_error + reader"

section \<open>The ID index\<close>

definition index_Get :: "string list \<Rightarrow> string \<Rightarrow> go_error + string" where
  "index_Get ids s =
     (if s = [] then Inl (Errorf ''Prefix can't be empty'')
      else case filter (prefix s) ids of
        [] \<Rightarrow> Inl (Errorf (''no such id: '' @ s))
      | [i] \<Rightarrow> Inr i
      | _ \<Rightarrow> Inl (Errorf ''Multiple IDs found with provided prefix''))"

definition index_Add :: "string \<Rightarrow> string list \<Rightarrow> string list" where
  "index_Add i ids = (if str_contains i '' '' \<or> i = [] \<or> i \<in> set ids then ids else ids @ [i])"

definition index_Delete :: "string \<Rightarrow> string list \<Rightarrow> string list" where
  "index_Delete i ids = filter (\<lambda>j. j \<noteq> i) ids"

section \<open>Loading and finding images\<close>

definition imageRoot :: "'w graph \<Rightarrow> string \<Rightarrow> string" where
  "imageRoot g i = path_join [root g, i]"

definition image_file :: "'w graph \<Rightarrow> string \<Rightarrow> string \<Rightarrow> string" where
  "image_file g i name = path_join [imageRoot g i, name]"

definition loadImage ::
  "'z graph_state_scheme graph \<Rightarrow> string \<Rightarrow> ('z graph_state_scheme, image) prog" where
  "loadImage g i =
     bindE (os_check OpRead (image_file g i ''json'')) (\<lambda>_.
     bindE (getW (\<lambda>w. imageDirs w i)) (\<lambda>d.
     case d of None \<Rightarrow> throw (NotExist (image_file g i ''json'')) | Some dir \<Rightarrow>
     (case jsonFile dir of None \<Rightarrow> throw (NotExist (image_file g i ''json'')) | Some img0 \<Rightarrow>
     let img1 = (if ID img0 = [] then img0\<lparr>ID := i\<rparr> else img0) in
     bindE (if Parent img1 = [] \<and> ParentID img1 \<noteq> [] \<and> digest_Validate (ParentID img1)
            then bindE (liftO (Digest_Hex (ParentID img1))) (\<lambda>h. ret (img1\<lparr>Parent := h\<rparr>))
            else ret img1) (\<lambda>img2.
     bindE (handleE (os_check OpRead (image_file g i ''parent''))
              (\<lambda>_. ret []) (\<lambda>_. ret (case parentFile dir of None \<Rightarrow> [] | Some p \<Rightarrow> p))) (\<lambda>p.
     let img3 = (if p \<noteq> [] then img2\<lparr>Parent := p\<rparr> else img2) in
     if \<not> ValidateID (ID img3) then throw (Errorf (''image ID '' @ ID img3 @ '' is invalid''))
     else
     bindE (handleE (os_check OpRead (image_file g i ''layersize''))
              (\<lambda>e. if is_not_exist e then ret (- 1) else throw e)
              (\<lambda>_. ret (case layersizeFile dir of None \<Rightarrow> - 1 | Some s \<Rightarrow> s))) (\<lambda>sz.
     ret (img3\<lparr>Size := sz\<rparr>)))))))"

definition saveSize ::
  "'z graph_state_scheme graph \<Rightarrow> string \<Rightarrow> int64 \<Rightarrow> ('z graph_state_scheme, unit) prog" where
  "saveSize g i sz =
     bindE (handleE (os_check OpWrite (image_file g i ''layersize''))
       (\<lambda>e. throw (Errorf (''Error storing image size in '' @ imageRoot g i @ ''/layersize: '' @ err_msg e)))
       ret) (\<lambda>_.
     modW (\<lambda>w. w\<lparr>imageDirs := (imageDirs w)(i :=
        map_option (\<lambda>d. d\<lparr>layersizeFile := Some sz\<rparr>) (imageDirs w i))\<rparr>))"

definition graph_Get ::
  "'z graph_state_scheme graph \<Rightarrow> string \<Rightarrow> ('z graph_state_scheme, image) prog" where
  "graph_Get g name =
     bindE (getW (\<lambda>w. index_Get (idIndex w) name)) (\<lambda>r.
     case r of Inl e \<Rightarrow> throw (Errorf (''could not find image: '' @ err_msg e)) | Inr i \<Rightarrow>
     bindE (loadImage g i) (\<lambda>img.
     if ID img \<noteq> i then
       throw (Errorf (''Image stored at '' @ i @ '' has wrong id '' @ ID img))
     else if sint (Size img) < 0 then
       bindE (handleE (drv_DiffSize (driver g) (ID img) (Parent img))
         (\<lambda>e. throw (Errorf (''unable to calculate size of image id '' @ ID img @ '': '' @ err_msg e)))
         ret) (\<lambda>sz.
       bindE (saveSize g i sz) (\<lambda>_. ret (img\<lparr>Size := sz\<rparr>)))
     else ret img))"

definition graph_Exists ::
  "'z graph_state_scheme graph \<Rightarrow> string \<Rightarrow> ('z graph_state_scheme, bool) prog" where
  "graph_Exists g i = handleE (graph_Get g i) (\<lambda>_. ret False) (\<lambda>_. ret True)"

section \<open>Walking the graph\<close>

text \<open>\<open>walkAll\<close>: the walk ends at the first image that cannot be loaded.\<close>

primrec walk_ids ::
  "'z graph_state_scheme graph \<Rightarrow> string list \<Rightarrow>
    (image \<Rightarrow> 's \<Rightarrow> ('z graph_state_scheme, 's) prog) \<Rightarrow> 's \<Rightarrow> ('z graph_state_scheme, 's) prog" where
  "walk_ids g [] handler s = ret s"
| "walk_ids g (i # ids) handler s =
     handleE (graph_Get g i) (\<lambda>_. ret s)
       (\<lambda>img. bindE (handler img s) (\<lambda>s'. walk_ids g ids handler s'))"

definition walkAll ::
  "'z graph_state_scheme graph \<Rightarrow>
    (image \<Rightarrow> 's \<Rightarrow> ('z graph_state_scheme, 's) prog) \<Rightarrow> 's \<Rightarrow> ('z graph_state_scheme, 's) prog" where
  "walkAll g handler s =
     bindE (getW (\<lambda>w. visitOrder w (idIndex w))) (\<lambda>ids. walk_ids g ids handler s)"

definition graph_Map ::
  "'z graph_state_scheme graph \<Rightarrow> ('z graph_state_scheme, (string \<times> image) list) prog" where
  "graph_Map g = walkAll g (\<lambda>img m. ret (AList.update (ID img) img m)) []"

definition ByParent ::
  "'z graph_state_scheme graph \<Rightarrow> ('z graph_state_scheme, (string \<times> image list) list) prog" where
  "ByParent g = walkAll g (\<lambda>img m.
     handleE (graph_Get g (Parent img)) (\<lambda>_. ret m) (\<lambda>parent.
       ret (case map_of m (ID parent) of
              Some children \<Rightarrow> AList.update (ID parent) (children @ [img]) m
            | None \<Rightarrow> AList.update (ID parent) [img] m))) []"

definition Heads ::
  "'z graph_state_scheme graph \<Rightarrow> ('z graph_state_scheme, (string \<times> image) list) prog" where
  "Heads g = bindE (ByParent g) (\<lambda>byParent.
     walkAll g (\<lambda>img heads.
       ret (if map_of byParent (ID img) = None then AList.update (ID img) img heads else heads)) [])"

section \<open>Registering and deleting\<close>

definition mktemp :: "'z graph_state_scheme graph \<Rightarrow> ('z graph_state_scheme, unit) prog" where
  "mktemp g = os_check OpMkdirAll (path_join [root g, ''_tmp''])"

definition createRootFilesystemInDriver ::
  "'z graph_state_scheme graph \<Rightarrow> string \<Rightarrow> string \<Rightarrow> ('z graph_state_scheme, unit) prog" where
  "createRootFilesystemInDriver g i parent =
     handleE (drv_Create (driver g) i parent)
       (\<lambda>e. throw (Errorf (''Driver '' @ drv_String (driver g) @ '' failed to create image rootfs ''
              @ i @ '': '' @ err_msg e)))
       ret"

definition disassembleAndApplyTarLayer ::
  "'z graph_state_scheme graph \<Rightarrow> string \<Rightarrow> string \<Rightarrow> reader \<Rightarrow> int64 \<Rightarrow>
    ('z graph_state_scheme, int64) prog" where
  "disassembleAndApplyTarLayer g i parent layerData quota =
     bindE (os_check OpOpen (path_join [root g, ''_tmp'', ''tar-data.json.gz''])) (\<lambda>_.
     case DecompressStream g layerData of
       Inl e \<Rightarrow> throw e
     | Inr inflated \<Rightarrow>
         drv_ApplyDiff (driver g) i parent
           (if sint quota > - 1 then Limited (New inflated quota) else Plain inflated))"

definition storeImage ::
  "'z graph_state_scheme graph \<Rightarrow> image \<Rightarrow> reader option \<Rightarrow> int64 \<Rightarrow>
    ('z graph_state_scheme, image_dir) prog" where
  "storeImage g im layerData quota =
     bindE (case layerData of
              None \<Rightarrow> ret 0
            | Some d \<Rightarrow> disassembleAndApplyTarLayer g (ID im) (Parent im) d quota) (\<lambda>sz.
     bindE (os_check OpWrite (path_join [root g, ''_tmp'', ''layersize''])) (\<lambda>_.
     bindE (os_check OpWrite (path_join [root g, ''_tmp'', ''json''])) (\<lambda>_.
     if digest_Validate (ParentID im)
     then bindE (liftO (Digest_Hex (ParentID im))) (\<lambda>h.
       if Parent im \<noteq> h
       then bindE (os_check OpWrite (path_join [root g, ''_tmp'', ''parent''])) (\<lambda>_.
         ret \<lparr>jsonFile = Some im, layersizeFile = Some sz, parentFile = Some (Parent im)\<rparr>)
       else ret \<lparr>jsonFile = Some im, layersizeFile = Some sz, parentFile = None\<rparr>)
     else ret \<lparr>jsonFile = Some im, layersizeFile = Some sz, parentFile = None\<rparr>)))"

text \<open>
  \<open>register\<close>: the directory is built in a temporary place and moved to the image's root at the
  end; the deferred clean-up removes the driver's layer when anything failed.
\<close>

definition graph_register ::
  "'z graph_state_scheme graph \<Rightarrow> image \<Rightarrow> reader option \<Rightarrow> int64 \<Rightarrow>
    ('z graph_state_scheme, unit) prog" where
  "graph_register g im layerData quota =
     bindE (graph_Exists g (ID im)) (\<lambda>ex.
     if ex then ret ()
     else handleE
       (bindE (handleE (os_check OpRemoveAll (imageRoot g (ID im)))
                (\<lambda>e. if is_not_exist e then ret () else throw e)
                (\<lambda>_. modW (\<lambda>w. w\<lparr>imageDirs := (imageDirs w)(ID im := None)\<rparr>))) (\<lambda>_.
        bindE (ignoreE (drv_Remove (driver g) (ID im))) (\<lambda>_.
        bindE (handleE (mktemp g) (\<lambda>e. throw (Errorf (''mktemp failed: '' @ err_msg e))) ret) (\<lambda>_.
        bindE (createRootFilesystemInDriver g (ID im) (Parent im)) (\<lambda>_.
        bindE (storeImage g im layerData quota) (\<lambda>dir.
        bindE (os_check OpRename (imageRoot g (ID im))) (\<lambda>_.
        modW (\<lambda>w. w\<lparr>imageDirs := (imageDirs w)(ID im \<mapsto> dir),
                     idIndex := index_Add (ID im) (idIndex w)\<rparr>))))))))
       (\<lambda>e. bindE (ignoreE (drv_Remove (driver g) (ID im))) (\<lambda>_. throw e))
       ret)"

definition graph_RegisterWithQuota ::
  "'z graph_state_scheme graph \<Rightarrow> image \<Rightarrow> reader option \<Rightarrow> int64 \<Rightarrow>
    ('z graph_state_scheme, unit) prog" where
  "graph_RegisterWithQuota g im layerData quota =
     (if \<not> ValidateID (ID im) then throw (Errorf (''image ID '' @ ID im @ '' is invalid''))
      else graph_register g im layerData quota)"

definition graph_Register ::
  "'z graph_state_scheme graph \<Rightarrow> image \<Rightarrow> reader option \<Rightarrow> ('z graph_state_scheme, unit) prog" where
  "graph_Register g im layerData =
     (if \<not> ValidateID (ID im) then throw (Errorf (''image ID '' @ ID im @ '' is invalid''))
      else graph_register g im layerData (- 1))"

text \<open>
  \<open>Delete\<close>: the ID leaves the index first; the directory is then moved away and removed, or
  removed in place if it cannot be moved.
\<close>

definition graph_Delete ::
  "'z graph_state_scheme graph \<Rightarrow> string \<Rightarrow> ('z graph_state_scheme, unit) prog" where
  "graph_Delete g name =
     bindE (getW (\<lambda>w. index_Get (idIndex w) name)) (\<lambda>r.
     case r of Inl e \<Rightarrow> throw e | Inr i \<Rightarrow>
     bindE (handleE (mktemp g) (\<lambda>_. ret False) (\<lambda>_. ret True)) (\<lambda>tmp.
     bindE (modW (\<lambda>w. w\<lparr>idIndex := index_Delete i (idIndex w)\<rparr>)) (\<lambda>_.
     bindE (if tmp then handleE (os_check OpRename (imageRoot g i)) (\<lambda>_. ret False) (\<lambda>_.
              bindE (modW (\<lambda>w. w\<lparr>imageDirs := (imageDirs w)(i := None)\<rparr>)) (\<lambda>_. ret True))
            else ret False) (\<lambda>moved.
     bindE (ignoreE (drv_Remove (driver g) i)) (\<lambda>_.
     if moved then os_check OpRemoveAll (path_join [root g, ''_tmp''])
     else bindE (os_check OpRemoveAll (imageRoot g i)) (\<lambda>_.
       modW (\<lambda>w. w\<lparr>imageDirs := (imageDirs w)(i := None)\<rparr>)))))))"

section \<open>What the graph's view of the world determines\<close>

definition gview :: "'z graph_state_scheme \<Rightarrow>
    string list \<times> (string \<rightharpoonup> image_dir) \<times> (string list \<Rightarrow> string list) \<times>
    (os_op \<Rightarrow> string \<Rightarrow> go_error option)" where
  "gview w = (idIndex w, imageDirs w, visitOrder w, os_fault w)"

lemma gview_eq:
  "gview w = gview w' \<longleftrightarrow> idIndex w = idIndex w' \<and> imageDirs w = imageDirs w' \<and>
     visitOrder w = visitOrder w' \<and> os_fault w = os_fault w'"
  by (auto simp: gview_def)

text \<open>Loading an image reads its directory and the fault table only.\<close>

definition dview :: "string \<Rightarrow> 'z graph_state_scheme \<Rightarrow>
    image_dir option \<times> (os_op \<Rightarrow> string \<Rightarrow> go_error option)" where
  "dview i w = (imageDirs w i, os_fault w)"

lemma looks_at_liftO: "looks_at v (liftO r)"
  by (simp add: looks_at_def)

lemma looks_at_dview_check: "looks_at (dview i) (os_check oper p)"
  by (rule looks_at_check) (simp add: dview_def)

lemma looks_at_if: "looks_at v m \<Longrightarrow> looks_at v n \<Longrightarrow> looks_at v (if b then m else n)"
  by simp

lemma looks_at_option:
  "looks_at v m \<Longrightarrow> (\<And>x. looks_at v (k x)) \<Longrightarrow> looks_at v (case z of None \<Rightarrow> m | Some x \<Rightarrow> k x)"
  by (simp split: option.split)

lemma looks_at_imageDirs: "looks_at (dview i) (getW (\<lambda>w. imageDirs w i))"
  by (rule looks_at_getW) (simp add: dview_def)

lemmas looks_rules = looks_at_bindE looks_at_handleE looks_at_dview_check looks_at_imageDirs
  looks_at_if looks_at_option looks_at_liftO looks_at_basic

lemma looks_at_loadImage: "looks_at (dview i) (loadImage g i)"
  unfolding loadImage_def Let_def by (rule looks_rules)+

definition loaded :: "'z graph_state_scheme graph \<Rightarrow> 'z graph_state_scheme \<Rightarrow> string \<rightharpoonup> image" where
  "loaded g w i = (case fst (loadImage g i w) of Inr img \<Rightarrow> Some img | Inl _ \<Rightarrow> None)"

lemma loadImage_loaded: "loaded g w i = Some img \<Longrightarrow> loadImage g i w = (Inr img, w)"
  using looks_at_run [OF looks_at_loadImage, of g i w]
  by (auto simp: loaded_def split: sum.splits)

lemma loaded_dview: "dview i w = dview i w' \<Longrightarrow> loaded g w i = loaded g w' i"
  using looks_at_same [OF looks_at_loadImage, of i w w' g] by (simp add: loaded_def)

lemma loaded_cong: "gview w = gview w' \<Longrightarrow> loaded g w = loaded g w'"
  by (rule ext, rule loaded_dview) (simp add: dview_def gview_eq)

section \<open>Well-formed graphs\<close>

text \<open>
  Every registered image has a valid ID, can be loaded, carries its own ID and a known size, and
  its parent, if it has one, is given by a valid ID.
\<close>

definition order_ok :: "'z graph_state_scheme \<Rightarrow> bool" where
  "order_ok w \<longleftrightarrow> (\<forall>xs. mset (visitOrder w xs) = mset xs)"

definition image_ok :: "string \<Rightarrow> image \<Rightarrow> bool" where
  "image_ok i img \<longleftrightarrow> ID img = i \<and> 0 \<le> sint (Size img) \<and> (Parent img = [] \<or> ValidateID (Parent img))"

definition graph_inv :: "'z graph_state_scheme graph \<Rightarrow> 'z graph_state_scheme \<Rightarrow> bool" where
  "graph_inv g w \<longleftrightarrow> distinct (idIndex w) \<and> order_ok w \<and>
     (\<forall>i \<in> set (idIndex w). ValidateID i \<and> (\<exists>img. loaded g w i = Some img \<and> image_ok i img))"

definition graph_layers :: "'z graph_state_scheme graph \<Rightarrow> 'z graph_state_scheme \<Rightarrow> string \<rightharpoonup> image" where
  "graph_layers g w i = (if i \<in> set (idIndex w) then loaded g w i else None)"

lemma order_ok_set: "order_ok w \<Longrightarrow> set (visitOrder w xs) = set xs"
  by (metis order_ok_def set_mset_mset)

lemma order_ok_distinct: "order_ok w \<Longrightarrow> distinct (visitOrder w xs) \<longleftrightarrow> distinct xs"
  by (metis order_ok_def mset_eq_imp_distinct_iff)

lemma graph_inv_cong: "gview w = gview w' \<Longrightarrow> graph_inv g w \<longleftrightarrow> graph_inv g w'"
  using loaded_cong [of w w' g] by (simp add: graph_inv_def gview_eq order_ok_def)

lemma graph_layers_cong: "gview w = gview w' \<Longrightarrow> graph_layers g w = graph_layers g w'"
  using loaded_cong [of w w' g] by (auto simp: graph_layers_def gview_eq)

lemma graph_layers_dom: "graph_inv g w \<Longrightarrow> dom (graph_layers g w) = set (idIndex w)"
  by (auto simp: graph_layers_def graph_inv_def split: if_splits)

lemma graph_layers_ok:
  "graph_inv g w \<Longrightarrow> graph_layers g w i = Some img \<Longrightarrow>
    i \<in> set (idIndex w) \<and> ValidateID i \<and> loaded g w i = Some img \<and> image_ok i img"
  by (auto simp: graph_layers_def graph_inv_def split: if_splits)

text \<open>A valid ID is found in the index exactly when it is registered; no prefix is ambiguous.\<close>

lemma filter_eq_distinct: "distinct ids \<Longrightarrow> filter (\<lambda>i. i = s) ids = (if s \<in> set ids then [s] else [])"
  by (induction ids) auto

lemma filter_prefix_valid:
  assumes "distinct ids" and "\<forall>i \<in> set ids. ValidateID i" and "ValidateID s"
  shows "filter (prefix s) ids = (if s \<in> set ids then [s] else [])"
proof -
  have "filter (prefix s) ids = filter (\<lambda>i. i = s) ids"
    using assms(2,3) ValidateID_prefix by (intro filter_cong) auto
  with filter_eq_distinct [OF assms(1)] show ?thesis by simp
qed

lemma index_Get_valid:
  assumes "distinct ids" and "\<forall>i \<in> set ids. ValidateID i" and "ValidateID s"
  shows "index_Get ids s =
    (if s \<in> set ids then Inr s else Inl (Errorf (''no such id: '' @ s)))"
  using filter_prefix_valid [OF assms] ValidateID_nonempty [OF assms(3)]
  by (simp add: index_Get_def)

lemma graph_Get_present:
  assumes "graph_inv g w" and "graph_layers g w s = Some img"
  shows "graph_Get g s w = (Inr img, w)"
proof -
  note ok = graph_layers_ok [OF assms]
  with assms(1) have "index_Get (idIndex w) s = Inr s"
    by (subst index_Get_valid) (auto simp: graph_inv_def)
  with ok show ?thesis
    by (simp add: graph_Get_def bindE_Inr [OF loadImage_loaded] image_ok_def)
qed

lemma graph_Get_absent:
  assumes "graph_inv g w" and "graph_layers g w s = None" and "s = [] \<or> ValidateID s"
  shows "\<exists>e. graph_Get g s w = (Inl (Err e), w)"
proof -
  have "s \<notin> set (idIndex w)" using assms(1,2) graph_layers_dom [OF assms(1)] by blast
  then have "\<exists>e. index_Get (idIndex w) s = Inl e"
    using assms(1,3) index_Get_valid [of "idIndex w" s]
    by (cases "s = []") (auto simp: graph_inv_def index_Get_def [of _ "[]"])
  then show ?thesis by (auto simp: graph_Get_def)
qed

lemma graph_Get_cases:
  assumes "graph_inv g w" and "s = [] \<or> ValidateID s"
  obtains (present) img where "graph_layers g w s = Some img" and "graph_Get g s w = (Inr img, w)"
    and "ID img = s"
  | (absent) e where "graph_layers g w s = None" and "graph_Get g s w = (Inl (Err e), w)"
proof (cases "graph_layers g w s")
  case None
  then show ?thesis using graph_Get_absent [OF assms(1) None assms(2)] absent by blast
next
  case (Some img)
  then show ?thesis
    using graph_Get_present [OF assms(1) Some] graph_layers_ok [OF assms(1) Some] present
    by (auto simp: image_ok_def)
qed

section \<open>Walks over a well-formed graph\<close>

text \<open>
  When every image loads, a walk whose handler computes without changing the world folds the
  handler over all images.
\<close>

definition each_layer ::
  "'z graph_state_scheme graph \<Rightarrow> 'z graph_state_scheme \<Rightarrow> (image \<Rightarrow> 's \<Rightarrow> 's) \<Rightarrow> string list \<Rightarrow> 's \<Rightarrow> 's" where
  "each_layer g w f ids s = fold (\<lambda>i. f (the (graph_layers g w i))) ids s"

lemma each_layer_simps [simp]:
  "each_layer g w f [] s = s"
  "each_layer g w f (i # ids) s = each_layer g w f ids (f (the (graph_layers g w i)) s)"
  by (simp_all add: each_layer_def)

lemma registered_layer:
  assumes "graph_inv g w" and "i \<in> set (idIndex w)"
  obtains img where "graph_layers g w i = Some img" and "ID img = i" and "the (graph_layers g w i) = img"
proof -
  have "i \<in> dom (graph_layers g w)" using graph_layers_dom [OF assms(1)] assms(2) by simp
  then obtain img where img: "graph_layers g w i = Some img" by blast
  from graph_layers_ok [OF assms(1) img] that [of img] img show ?thesis by (simp add: image_ok_def)
qed

lemma walk_ids_fold:
  assumes "graph_inv g w" and "set ids \<subseteq> set (idIndex w)"
    and "\<And>i img s. graph_layers g w i = Some img \<Longrightarrow> handler img s w = (Inr (f img s), w)"
  shows "walk_ids g ids handler s w = (Inr (each_layer g w f ids s), w)"
  using assms(2)
proof (induction ids arbitrary: s)
  case (Cons i ids)
  then have "i \<in> set (idIndex w)" by simp
  then obtain img where img: "graph_layers g w i = Some img" "the (graph_layers g w i) = img"
    by (rule registered_layer [OF assms(1)])
  have "walk_ids g (i # ids) handler s w = walk_ids g ids handler (f img s) w"
    using graph_Get_present [OF assms(1) img(1)] assms(3) [OF img(1), of s]
    by (simp add: handleE_def bindE_def)
  with Cons img(2) show ?case by simp
qed simp

lemma walkAll_fold:
  assumes "graph_inv g w"
    and "\<And>i img s. graph_layers g w i = Some img \<Longrightarrow> handler img s w = (Inr (f img s), w)"
  shows "walkAll g handler s w = (Inr (each_layer g w f (visitOrder w (idIndex w)) s), w)"
proof -
  have "set (visitOrder w (idIndex w)) \<subseteq> set (idIndex w)"
    using assms(1) by (simp add: graph_inv_def order_ok_set)
  with walk_ids_fold [where handler = handler and f = f, OF assms(1) _ assms(2)] show ?thesis
    by (simp add: walkAll_def)
qed

lemma graph_Map_run:
  assumes "graph_inv g w"
  obtains m where "graph_Map g w = (Inr m, w)" and "map_of m = graph_layers g w"
    and "distinct (map fst m)"
proof -
  let ?f = "\<lambda>img m. AList.update (ID img) img m"
  let ?m = "\<lambda>ids s. each_layer g w ?f ids s"
  let ?o = "visitOrder w (idIndex w)"
  have run: "graph_Map g w = (Inr (?m ?o []), w)"
    unfolding graph_Map_def by (rule walkAll_fold [OF assms]) simp
  have mo: "set ids \<subseteq> set (idIndex w) \<Longrightarrow>
      map_of (?m ids s) = (\<lambda>i. if i \<in> set ids then graph_layers g w i else map_of s i)" for ids s
  proof (induction ids arbitrary: s)
    case (Cons i ids)
    then have "i \<in> set (idIndex w)" by simp
    then obtain img where "graph_layers g w i = Some img" "ID img = i" "the (graph_layers g w i) = img"
      by (rule registered_layer [OF assms])
    with Cons show ?case by (auto simp: update_conv' fun_eq_iff)
  qed simp
  have "distinct (map fst s) \<Longrightarrow> distinct (map fst (?m ids s))" for ids s
    by (induction ids arbitrary: s) (simp_all add: distinct_update)
  moreover have "map_of (?m ?o []) = graph_layers g w"
  proof -
    have "set ?o = set (idIndex w)" using assms by (simp add: graph_inv_def order_ok_set)
    with mo [of ?o "[]"] show ?thesis by (auto simp: fun_eq_iff graph_layers_def)
  qed
  ultimately show ?thesis using that [OF run] by simp
qed

section \<open>The heads are the leaves\<close>

definition by_parent_step ::
  "(string \<rightharpoonup> image) \<Rightarrow> image \<Rightarrow> (string \<times> image list) list \<Rightarrow> (string \<times> image list) list" where
  "by_parent_step L img m = (case L (Parent img) of
       None \<Rightarrow> m
     | Some parent \<Rightarrow> (case map_of m (ID parent) of
         Some children \<Rightarrow> AList.update (ID parent) (children @ [img]) m
       | None \<Rightarrow> AList.update (ID parent) [img] m))"

lemma ByParent_run:
  assumes "graph_inv g w"
  shows "ByParent g w =
    (Inr (each_layer g w (by_parent_step (graph_layers g w)) (visitOrder w (idIndex w)) []), w)"
  unfolding ByParent_def
proof (rule walkAll_fold [OF assms])
  fix i img and s :: "(string \<times> image list) list"
  assume "graph_layers g w i = Some img"
  from graph_layers_ok [OF assms this] have "Parent img = [] \<or> ValidateID (Parent img)"
    by (simp add: image_ok_def)
  with assms show "handleE (graph_Get g (Parent img)) (\<lambda>_. ret s) (\<lambda>parent.
       ret (case map_of s (ID parent) of
              Some children \<Rightarrow> AList.update (ID parent) (children @ [img]) s
            | None \<Rightarrow> AList.update (ID parent) [img] s)) w =
     (Inr (by_parent_step (graph_layers g w) img s), w)"
    by (cases rule: graph_Get_cases) (auto simp: handleE_Inr handleE_Err by_parent_step_def)
qed

lemma by_parent_dom:
  assumes "graph_inv g w" and "set ids \<subseteq> set (idIndex w)"
  shows "dom (map_of (each_layer g w (by_parent_step (graph_layers g w)) ids m)) =
    dom (map_of m) \<union> {p \<in> dom (graph_layers g w). \<exists>i \<in> set ids. \<exists>img.
      graph_layers g w i = Some img \<and> Parent img = p}"
  using assms(2)
proof (induction ids arbitrary: m)
  case (Cons i ids)
  then have "i \<in> set (idIndex w)" by simp
  then obtain img where img: "graph_layers g w i = Some img" "the (graph_layers g w i) = img"
    by (rule registered_layer [OF assms(1)])
  have "ID parent = p" if "graph_layers g w p = Some parent" for p parent
    using graph_layers_ok [OF assms(1) that] by (simp add: image_ok_def)
  then have "dom (map_of (by_parent_step (graph_layers g w) img m)) =
      dom (map_of m) \<union> {p \<in> dom (graph_layers g w). Parent img = p}"
    by (auto simp: by_parent_step_def update_conv' split: option.splits)
  with Cons img show ?case by auto
qed simp

lemma Heads_run:
  assumes "graph_inv g w"
  obtains h where "Heads g w = (Inr h, w)" and "dom (map_of h) = {i. leaf (graph_layers g w) i}"
    and "distinct (map fst h)"
proof -
  let ?L = "graph_layers g w"
  let ?o = "visitOrder w (idIndex w)"
  let ?bp = "each_layer g w (by_parent_step ?L) ?o []"
  let ?f = "\<lambda>img heads. if map_of ?bp (ID img) = None then AList.update (ID img) img heads else heads"
  have o: "set ?o = set (idIndex w)" using assms by (simp add: graph_inv_def order_ok_set)
  have "Heads g w = (Inr (each_layer g w ?f ?o []), w)"
  proof -
    have "walkAll g (\<lambda>img heads. ret (?f img heads)) [] w = (Inr (each_layer g w ?f ?o []), w)"
      by (rule walkAll_fold [OF assms]) simp
    then show ?thesis by (simp add: Heads_def bindE_def ByParent_run [OF assms])
  qed
  moreover have "set ids \<subseteq> set (idIndex w) \<Longrightarrow>
      dom (map_of (each_layer g w ?f ids s)) =
        dom (map_of s) \<union> {i \<in> set ids. map_of ?bp i = None}" for ids s
  proof (induction ids arbitrary: s)
    case (Cons i ids)
    then have "i \<in> set (idIndex w)" by simp
    then obtain img where "?L i = Some img" "ID img = i" "the (?L i) = img"
      by (rule registered_layer [OF assms])
    with Cons show ?case by (auto simp: update_conv')
  qed simp
  from this [of ?o "[]"] o have
    "dom (map_of (each_layer g w ?f ?o [])) = {i \<in> set (idIndex w). i \<notin> dom (map_of ?bp)}"
    by (auto simp: domIff)
  moreover have "\<dots> = {i. leaf ?L i}"
    using by_parent_dom [OF assms, of ?o "[]"] o graph_layers_dom [OF assms]
    by (auto simp: leaf_def) blast
  moreover have "distinct (map fst s) \<Longrightarrow> distinct (map fst (each_layer g w ?f ids s))" for ids s
    by (induction ids arbitrary: s) (simp_all add: distinct_update)
  ultimately show ?thesis using that by simp
qed

section \<open>Changing one image\<close>

text \<open>
  \<open>w'\<close> differs from \<open>w\<close>, as far as the graph is concerned, in the index (now \<open>ids\<close>) and in the
  directory of the image \<open>i\<close> only.
\<close>

definition differs_at :: "string \<Rightarrow> string list \<Rightarrow> 'z graph_state_scheme \<Rightarrow> 'z graph_state_scheme \<Rightarrow> bool" where
  "differs_at i ids w w' \<longleftrightarrow> idIndex w' = ids \<and> visitOrder w' = visitOrder w \<and>
     os_fault w' = os_fault w \<and> (\<forall>j. j \<noteq> i \<longrightarrow> imageDirs w' j = imageDirs w j)"

lemma differs_at_refl: "differs_at i (idIndex w) w w"
  by (simp add: differs_at_def)

lemma differs_at_loaded: "differs_at i ids w w' \<Longrightarrow> j \<noteq> i \<Longrightarrow> loaded g w' j = loaded g w j"
  by (rule loaded_dview) (simp add: differs_at_def dview_def)

lemma differs_at_frame: "frame gview m \<Longrightarrow> keeps (differs_at i ids w) m"
  by (auto simp: frame_def keeps_def differs_at_def gview_eq)

lemma differs_at_dir [keeps_rules]: "keeps (differs_at i ids w) (modW (\<lambda>w. w\<lparr>imageDirs := (imageDirs w)(i := d w)\<rparr>))"
  by (rule keeps_modW) (simp add: differs_at_def)

lemma differs_at_check [keeps_rules]: "keeps (differs_at i ids w) (os_check oper p)"
  by (rule differs_at_frame, rule frame_os_check)

lemma differs_at_without:
  assumes "graph_inv g w" and "differs_at i (index_Delete i (idIndex w)) w w'"
  shows "graph_inv g w' \<and> graph_layers g w' = (graph_layers g w)(i := None)"
  using assms differs_at_loaded [OF assms(2)]
  by (auto simp: graph_inv_def graph_layers_def fun_eq_iff differs_at_def index_Delete_def order_ok_def)

lemma differs_at_unregistered:
  assumes "graph_inv g w" and "differs_at i (idIndex w) w w'" and "i \<notin> set (idIndex w)"
  shows "graph_inv g w' \<and> graph_layers g w' = graph_layers g w"
proof -
  have "index_Delete i (idIndex w) = idIndex w"
    unfolding index_Delete_def using assms(3) by (intro filter_True) auto
  moreover have "(graph_layers g w)(i := None) = graph_layers g w"
    using assms(3) by (auto simp: graph_layers_def)
  ultimately show ?thesis using differs_at_without [OF assms(1), of i w'] assms(2) by simp
qed

text \<open>The image that reading back a registered image gives.\<close>

definition stored_parent :: "image \<Rightarrow> string" where
  "stored_parent im =
     (if Parent im = [] \<and> digest_Validate (ParentID im)
      then (case Digest_Hex (ParentID im) of Inr h \<Rightarrow> h | Inl _ \<Rightarrow> []) else Parent im)"

definition stored_image :: "image \<Rightarrow> int64 \<Rightarrow> image" where
  "stored_image im sz = im\<lparr>Parent := stored_parent im, Size := sz\<rparr>"

definition stored_dir :: "image \<Rightarrow> int64 \<Rightarrow> image_dir" where
  "stored_dir im sz = \<lparr>jsonFile = Some im, layersizeFile = Some sz,
     parentFile = (if digest_Validate (ParentID im) \<and> Digest_Hex (ParentID im) \<noteq> Inr (Parent im)
                   then Some (Parent im) else None)\<rparr>"

definition readable :: "'z graph_state_scheme graph \<Rightarrow> 'z graph_state_scheme \<Rightarrow> string \<Rightarrow> bool" where
  "readable g w i \<longleftrightarrow> (\<forall>f \<in> {''json'', ''parent'', ''layersize''}.
     os_check OpRead (image_file g i f) w = (Inr (), w))"

lemma loadImage_stored:
  assumes "readable g w (ID im)" and "imageDirs w (ID im) = Some (stored_dir im sz)"
    and "ValidateID (ID im)"
  shows "loadImage g (ID im) w = (Inr (stored_image im sz), w)"
proof -
  have r: "os_check OpRead (image_file g (ID im) f) w = (Inr (), w)"
    if "f \<in> {''json'', ''parent'', ''layersize''}" for f
    using assms(1) that unfolding readable_def by blast
  note ne = ValidateID_nonempty [OF assms(3)]
  note run = r [of "''json''"] r [of "''parent''"] r [of "''layersize''"]
  show ?thesis
  proof (cases "digest_Validate (ParentID im)")
    case True
    then obtain h where "Digest_Hex (ParentID im) = Inr h" by (rule Digest_Hex_valid)
    moreover have "ParentID im \<noteq> []" using True digest_Validate_empty by metis
    ultimately show ?thesis using True run assms(2,3) ne
      by (auto simp: loadImage_def bindE_def handleE_def Let_def stored_dir_def stored_image_def
          stored_parent_def)
  next
    case False
    then show ?thesis using run assms(2,3) ne
      by (auto simp: loadImage_def bindE_def handleE_def Let_def stored_dir_def stored_image_def
          stored_parent_def)
  qed
qed

text \<open>Everything \<open>register\<close> does before the image enters the index.\<close>

definition register_front ::
  "'z graph_state_scheme graph \<Rightarrow> image \<Rightarrow> reader option \<Rightarrow> int64 \<Rightarrow>
    ('z graph_state_scheme, image_dir) prog" where
  "register_front g im layerData quota =
     bindE (handleE (os_check OpRemoveAll (imageRoot g (ID im)))
              (\<lambda>e. if is_not_exist e then ret () else throw e)
              (\<lambda>_. modW (\<lambda>w. w\<lparr>imageDirs := (imageDirs w)(ID im := None)\<rparr>))) (\<lambda>_.
     bindE (ignoreE (drv_Remove (driver g) (ID im))) (\<lambda>_.
     bindE (handleE (mktemp g) (\<lambda>e. throw (Errorf (''mktemp failed: '' @ err_msg e))) ret) (\<lambda>_.
     bindE (createRootFilesystemInDriver g (ID im) (Parent im)) (\<lambda>_.
     bindE (storeImage g im layerData quota) (\<lambda>dir.
     bindE (os_check OpRename (imageRoot g (ID im))) (\<lambda>_. ret dir))))))"

lemma graph_register_front:
  "graph_register g im layerData quota =
     bindE (graph_Exists g (ID im)) (\<lambda>ex. if ex then ret () else
       handleE (bindE (register_front g im layerData quota) (\<lambda>dir.
         modW (\<lambda>w. w\<lparr>imageDirs := (imageDirs w)(ID im \<mapsto> dir),
                      idIndex := index_Add (ID im) (idIndex w)\<rparr>)))
       (\<lambda>e. bindE (ignoreE (drv_Remove (driver g) (ID im))) (\<lambda>_. throw e)) ret)"
  unfolding graph_register_def register_front_def bindE_assoc bindE_ret ..

section \<open>The contract of a graph driver\<close>

locale graph_driver =
  fixes drv :: "'z graph_state_scheme driver"
  assumes Create_frame: "frame gview (drv_Create drv i parent)"
    and Remove_frame: "frame gview (drv_Remove drv i)"
    and Get_frame: "frame gview (drv_Get drv i label)"
    and Put_frame: "frame gview (drv_Put drv i)"
    and ApplyDiff_frame: "frame gview (drv_ApplyDiff drv i parent data)"
    and Remove_calm: "calm (drv_Remove drv i)"
    and Put_calm: "calm (drv_Put drv i)"
    and Create_calm: "calm (drv_Create drv i parent)"
    and ApplyDiff_calm: "calm (drv_ApplyDiff drv i parent data)"
    and ApplyDiff_size: "drv_ApplyDiff drv i parent data w = (Inr sz, w') \<Longrightarrow> 0 \<le> sint sz"
begin

lemma graph_Delete_effect:
  assumes "graph_inv g w" and "driver g = drv" and "i \<in> set (idIndex w)"
    and "graph_Delete g i w = (r, w')"
  shows "graph_inv g w' \<and> graph_layers g w' = (graph_layers g w)(i := None) \<and>
    (\<forall>s. r \<noteq> Inl (Panic s))"
proof -
  let ?Q = "differs_at i (index_Delete i (idIndex w)) w"
  have ix: "index_Get (idIndex w) i = Inr i"
    using assms(1,3) by (subst index_Get_valid) (auto simp: graph_inv_def)
  obtain b where mk: "handleE (mktemp g) (\<lambda>_. ret False) (\<lambda>_. ret True) w = (Inr b, w)"
    by (cases "os_fault w OpMkdirAll (path_clean (path_join [root g, ''_tmp'']))")
       (auto simp: mktemp_def os_check_def handleE_def)
  define rest where "rest =
     bindE (if b then handleE (os_check OpRename (imageRoot g i)) (\<lambda>_. ret False) (\<lambda>_.
              bindE (modW (\<lambda>w. w\<lparr>imageDirs := (imageDirs w)(i := None)\<rparr>)) (\<lambda>_. ret True))
            else ret False) (\<lambda>moved.
     bindE (ignoreE (drv_Remove (driver g) i)) (\<lambda>_.
     if moved then os_check OpRemoveAll (path_join [root g, ''_tmp''])
     else bindE (os_check OpRemoveAll (imageRoot g i)) (\<lambda>_.
       modW (\<lambda>w. w\<lparr>imageDirs := (imageDirs w)(i := None)\<rparr>))))"
  let ?w = "w\<lparr>idIndex := index_Delete i (idIndex w)\<rparr>"
  have run: "graph_Delete g i w = rest ?w"
    using mk by (simp add: graph_Delete_def rest_def ix bindE_def)
  have "keeps ?Q rest" unfolding rest_def assms(2)
    by (intro keeps_rules differs_at_frame [OF Remove_frame])
  moreover have "?Q ?w" by (simp add: differs_at_def)
  ultimately have "?Q w'" using run assms(4) keepsD by metis
  moreover have "calm rest" unfolding rest_def assms(2)
    by (intro calm_rules calm_os Remove_calm)
  ultimately show ?thesis
    using differs_at_without [OF assms(1)] run assms(4) calmD by metis
qed

lemma graph_Delete_any:
  assumes "graph_inv g w" and "driver g = drv" and "ValidateID i" and "graph_Delete g i w = (r, w')"
  shows "graph_inv g w' \<and> (case r of
      Inr _ \<Rightarrow> graph_layers g w' = (graph_layers g w)(i := None)
    | Inl (Err _) \<Rightarrow> graph_layers g w' = graph_layers g w \<or> graph_layers g w' = (graph_layers g w)(i := None)
    | Inl (Panic _) \<Rightarrow> False)"
proof (cases "i \<in> set (idIndex w)")
  case True
  from graph_Delete_effect [OF assms(1,2) True assms(4)] show ?thesis
    by (auto split: sum.split failure.split)
next
  case False
  have "index_Get (idIndex w) i = Inl (Errorf (''no such id: '' @ i))"
    using assms(1,3) False by (subst index_Get_valid) (auto simp: graph_inv_def)
  with assms(1,4) show ?thesis by (auto simp: graph_Delete_def)
qed

lemma ignore_Remove:
  obtains w1 where "ignoreE (drv_Remove drv i) w = (Inr (), w1)" and "gview w1 = gview w"
proof -
  obtain r w1 where rem: "drv_Remove drv i w = (r, w1)" by (cases "drv_Remove drv i w")
  have "r \<noteq> Inl (Panic s)" for s using rem calmD [OF Remove_calm] by metis
  then have "ignoreE (drv_Remove drv i) w = (Inr (), w1)"
    using rem by (auto simp: ignoreE_def handleE_def split: sum.splits failure.splits)
  then show ?thesis using that frameD [OF Remove_frame rem] by blast
qed

lemma graph_Delete_no_faults:
  assumes "graph_inv g w" and "driver g = drv" and "i \<in> set (idIndex w)" and "no_faults w"
  shows "fst (graph_Delete g i w) = Inr ()"
proof -
  have ix: "index_Get (idIndex w) i = Inr i"
    using assms(1,3) by (subst index_Get_valid) (auto simp: graph_inv_def)
  let ?w = "w\<lparr>idIndex := index_Delete i (idIndex w), imageDirs := (imageDirs w)(i := None)\<rparr>"
  obtain w1 where w1: "ignoreE (drv_Remove drv i) ?w = (Inr (), w1)" "gview w1 = gview ?w"
    by (rule ignore_Remove)
  have "no_faults w1" using w1(2) assms(4) by (simp add: gview_eq no_faults_def)
  moreover have "no_faults (w\<lparr>idIndex := index_Delete i (idIndex w)\<rparr>)"
    using assms(4) by (simp add: no_faults_def)
  ultimately show ?thesis
    using assms(2,4) ix w1(1)
    by (simp add: graph_Delete_def mktemp_def bindE_def handleE_def)
qed

lemma storeImage_keeps:
  assumes "driver g = drv"
  shows "keeps (differs_at i ids w) (storeImage g im layerData quota)"
  unfolding storeImage_def disassembleAndApplyTarLayer_def assms
  by (auto intro!: keeps_rules differs_at_frame [OF ApplyDiff_frame] split: option.split sum.split)

lemma storeImage_calm:
  assumes "driver g = drv"
  shows "calm (storeImage g im layerData quota)"
proof -
  have hex: "calm (liftO (Digest_Hex (ParentID im)))" if "digest_Validate (ParentID im)"
    using Digest_Hex_valid [OF that] by (metis calm_ret liftO_def ret_def)
  show ?thesis
    unfolding storeImage_def disassembleAndApplyTarLayer_def assms
    by (auto intro!: calm_rules calm_os ApplyDiff_calm hex split: option.split sum.split)
qed

lemma storeImage_dir:
  assumes "driver g = drv" and "storeImage g im layerData quota w = (Inr dir, w')"
  obtains sz where "dir = stored_dir im sz" and "0 \<le> sint sz" and "layerData = None \<Longrightarrow> sz = 0"
proof -
  have applied: "0 \<le> sint sz \<and> (layerData = None \<longrightarrow> sz = 0)" if "(case layerData of None \<Rightarrow> ret 0
      | Some d \<Rightarrow> disassembleAndApplyTarLayer g (ID im) (Parent im) d quota) w = (Inr sz, w1)" for sz w1
    using that ApplyDiff_size
    by (auto simp: disassembleAndApplyTarLayer_def assms(1) split: option.splits sum.splits
        elim!: bindE_InrE)
  have hex: "\<exists>h. Digest_Hex (ParentID im) = Inr h" if "digest_Validate (ParentID im)"
    using Digest_Hex_valid [OF that] by metis
  from assms(2) obtain sz w1 where
    sz: "(case layerData of None \<Rightarrow> ret 0
      | Some d \<Rightarrow> disassembleAndApplyTarLayer g (ID im) (Parent im) d quota) w = (Inr sz, w1)"
    and "dir = stored_dir im sz"
    unfolding storeImage_def
    by (elim bindE_InrE) (auto simp: stored_dir_def elim!: bindE_InrE split: if_splits dest!: hex)
  with applied [OF sz] have "\<exists>sz. dir = stored_dir im sz \<and> 0 \<le> sint sz \<and> (layerData = None \<longrightarrow> sz = 0)"
    by blast
  then show ?thesis using that by blast
qed

lemma register_front_effect:
  assumes "driver g = drv"
  shows "keeps (differs_at (ID im) ids w) (register_front g im layerData quota)"
    and "calm (register_front g im layerData quota)"
proof -
  show "keeps (differs_at (ID im) ids w) (register_front g im layerData quota)"
    unfolding register_front_def mktemp_def createRootFilesystemInDriver_def assms
    by (intro keeps_rules differs_at_frame [OF Remove_frame] differs_at_frame [OF Create_frame]
        storeImage_keeps assms)
  show "calm (register_front g im layerData quota)"
    unfolding register_front_def mktemp_def createRootFilesystemInDriver_def assms
    by (intro calm_rules calm_os calm_modW Remove_calm Create_calm storeImage_calm assms)
qed

lemma graph_Exists_run:
  assumes "graph_inv g w" and "ValidateID i"
  shows "graph_Exists g i w = (Inr (i \<in> set (idIndex w)), w)"
  using assms(1,2) graph_layers_dom [OF assms(1)]
  by (cases rule: graph_Get_cases [OF assms(1), of i])
     (auto simp: graph_Exists_def handleE_Inr handleE_Err)

lemma graph_register_new:
  assumes inv: "graph_inv g w" and drv: "driver g = drv" and valid: "ValidateID (ID im)"
    and new: "ID im \<notin> set (idIndex w)" and readable: "readable g w (ID im)"
    and parent: "stored_parent im = [] \<or> ValidateID (stored_parent im)"
    and run: "graph_register g im layerData quota w = (r, w')"
  shows "graph_inv g w' \<and> (case r of
      Inr _ \<Rightarrow> \<exists>sz. 0 \<le> sint sz \<and> (layerData = None \<longrightarrow> sz = 0) \<and>
                 graph_layers g w' = (graph_layers g w)(ID im \<mapsto> stored_image im sz)
    | Inl (Err _) \<Rightarrow> graph_layers g w' = graph_layers g w
    | Inl (Panic _) \<Rightarrow> False)"
proof -
  let ?D = "differs_at (ID im) (idIndex w) w"
  let ?front = "register_front g im layerData quota"
  let ?fill = "\<lambda>dir w. w\<lparr>imageDirs := (imageDirs w)(ID im \<mapsto> dir), idIndex := index_Add (ID im) (idIndex w)\<rparr>"
  obtain r1 w1 where front: "?front w = (r1, w1)" by (cases "?front w")
  have D: "?D w1"
    by (rule keepsD [OF register_front_effect(1) [OF drv] differs_at_refl front])
  have step: "graph_register g im layerData quota w =
      handleE (bindE ?front (\<lambda>dir. modW (?fill dir)))
        (\<lambda>e. bindE (ignoreE (drv_Remove drv (ID im))) (\<lambda>_. throw e)) ret w"
    using new graph_Exists_run [OF inv valid] by (simp add: graph_register_front drv bindE_def)
  show ?thesis
  proof (cases r1)
    case (Inl f)
    with front register_front_effect(2) [OF drv] obtain e where f: "f = Err e"
      by (cases f) (auto dest: calmD)
    obtain r2 w2 where rem: "drv_Remove drv (ID im) w1 = (r2, w2)" by (cases "drv_Remove drv (ID im) w1")
    have "r2 \<noteq> Inl (Panic s)" for s using rem calmD [OF Remove_calm] by metis
    then have "ignoreE (drv_Remove drv (ID im)) w1 = (Inr (), w2)"
      using rem by (auto simp: ignoreE_def handleE_def split: sum.splits failure.splits)
    with step run front Inl f have "r = Inl (Err e)" and "w' = w2"
      by (simp_all add: handleE_def bindE_def)
    moreover have "?D w2" by (rule keepsD [OF differs_at_frame [OF Remove_frame] D rem])
    ultimately show ?thesis using differs_at_unregistered [OF inv _ new] by simp
  next
    case (Inr dir)
    obtain w0 w01 where "storeImage g im layerData quota w0 = (Inr dir, w01)"
      using front Inr unfolding register_front_def by (auto elim!: bindE_InrE)
    then obtain sz where dir: "dir = stored_dir im sz" and sz: "0 \<le> sint sz" "layerData = None \<longrightarrow> sz = 0"
      using storeImage_dir [OF drv] by metis
    have w': "w' = ?fill dir w1" and r: "r = Inr ()"
      using step run front Inr by (simp_all add: handleE_def bindE_def)
    have "\<not> str_contains (ID im) '' ''" and "ID im \<noteq> []"
      using ValidateID_nonempty [OF valid] no_space_contains [OF ValidateID_no_space [OF valid]] by auto
    then have ix: "idIndex w' = idIndex w @ [ID im]"
      using D new by (simp add: w' index_Add_def differs_at_def)
    have "readable g w' (ID im)"
      using readable D by (simp add: readable_def w' os_check_def differs_at_def split: option.splits)
    then have new': "loaded g w' (ID im) = Some (stored_image im sz)"
      by (simp add: loaded_def loadImage_stored valid w' dir)
    have old: "loaded g w' j = loaded g w j" if "j \<in> set (idIndex w)" for j
      by (rule loaded_dview) (use D that new in \<open>auto simp: dview_def w' differs_at_def\<close>)
    have "image_ok (ID im) (stored_image im sz)"
      using parent sz by (simp add: image_ok_def stored_image_def)
    moreover have "order_ok w'"
      using inv D by (simp add: w' order_ok_def graph_inv_def differs_at_def)
    ultimately have "graph_inv g w'"
      using inv new' old new valid unfolding graph_inv_def ix by simp
    moreover have "graph_layers g w' = (graph_layers g w)(ID im \<mapsto> stored_image im sz)"
      using new' old unfolding graph_layers_def ix by auto
    ultimately show ?thesis using sz r by auto
  qed
qed

lemma graph_register_known:
  assumes "graph_inv g w" and "ValidateID (ID im)" and "ID im \<in> set (idIndex w)"
  shows "graph_register g im layerData quota w = (Inr (), w)"
  using graph_Exists_run [OF assms(1,2)] assms(3) by (simp add: graph_register_def bindE_def)

end

end
