(* ===== verification/Docker_Cake.thy ===== *)
theory Docker_Cake
  imports Docker_Graph
begin

text \<open>
  \<open>layercake.Docker\<close> (\<open>src/layercake/docker.go\<close>): the cake on top of docker's graph and its
  driver, method by method, as the record \<open>docker_cake\<close>.

  The locale \<open>docker_store\<close> is a graph whose driver keeps the driver contract; it satisfies the
  contract of a layer store, with the well-formed graphs as the good worlds.
\<close>

section \<open>The methods\<close>

definition docker_DriverName :: "'z graph_state_scheme graph \<Rightarrow> string" where
  "docker_DriverName g = drv_String (driver g)"

definition docker_Register ::
  "'z graph_state_scheme graph \<Rightarrow> image \<Rightarrow> reader option \<Rightarrow> ('z graph_state_scheme, unit) prog" where
  "docker_Register g img layer = graph_Register g img layer"

definition docker_Create ::
  "'z graph_state_scheme graph \<Rightarrow> layer_id \<Rightarrow> layer_id \<Rightarrow> string \<Rightarrow> ('z graph_state_scheme, unit) prog" where
  "docker_Create g layerID parentID containerID =
     docker_Register g (empty_image\<lparr>ID := GraphID layerID, Parent := GraphID parentID,
       Container := containerID\<rparr>) None"

definition docker_RegisterWithQuota ::
  "'z graph_state_scheme graph \<Rightarrow> image \<Rightarrow> reader option \<Rightarrow> int64 \<Rightarrow>
    ('z graph_state_scheme, unit) prog" where
  "docker_RegisterWithQuota g img layer quota = graph_RegisterWithQuota g img layer quota"

definition docker_Get :: "'z graph_state_scheme graph \<Rightarrow> layer_id \<Rightarrow> ('z graph_state_scheme, image) prog" where
  "docker_Get g i = graph_Get g (GraphID i)"

definition docker_Unmount :: "'z graph_state_scheme graph \<Rightarrow> layer_id \<Rightarrow> ('z graph_state_scheme, unit) prog" where
  "docker_Unmount g i = drv_Put (driver g) (GraphID i)"

definition docker_Remove :: "'z graph_state_scheme graph \<Rightarrow> layer_id \<Rightarrow> ('z graph_state_scheme, unit) prog" where
  "docker_Remove g i =
     bindE (drv_Put (driver g) (GraphID i)) (\<lambda>_. graph_Delete g (GraphID i))"

text \<open>The loop of \<open>Path\<close>: at most \<open>n\<close> more tries; \<open>last\<close> is the result of the last one.\<close>

primrec path_tries ::
  "'z graph_state_scheme graph \<Rightarrow> string \<Rightarrow> nat \<Rightarrow> string outcome \<Rightarrow> ('z graph_state_scheme, string) prog" where
  "path_tries g i 0 result = liftO result"
| "path_tries g i (Suc n) result =
     handleE (drv_Get (driver g) i []) (\<lambda>e. path_tries g i n (Inl (Err e))) ret"

definition docker_Path :: "'z graph_state_scheme graph \<Rightarrow> layer_id \<Rightarrow> ('z graph_state_scheme, string) prog" where
  "docker_Path g i = path_tries g (GraphID i) 5 (Inr [])"

definition docker_QuotaedPath ::
  "'z graph_state_scheme graph \<Rightarrow> layer_id \<Rightarrow> int64 \<Rightarrow> ('z graph_state_scheme, string) prog" where
  "docker_QuotaedPath g i quota =
     (if docker_DriverName g = ''aufs''
      then case drv_GetQuotaed (driver g) of
             Some getQuotaed \<Rightarrow> getQuotaed (GraphID i) [] quota
           | None \<Rightarrow> panic ''interface conversion: missing method GetQuotaed''
      else throw (Errorf ''quotas are not supported for this driver''))"

definition docker_All :: "'z graph_state_scheme graph \<Rightarrow> ('z graph_state_scheme, image list) prog" where
  "docker_All g = bindE (graph_Map g) (\<lambda>m.
     getW (\<lambda>w. map (\<lambda>k. the (map_of m k)) (visitOrder w (map fst m))))"

definition docker_IsLeaf :: "'z graph_state_scheme graph \<Rightarrow> layer_id \<Rightarrow> ('z graph_state_scheme, bool) prog" where
  "docker_IsLeaf g i = bindE (Heads g) (\<lambda>heads. ret (map_of heads (GraphID i) \<noteq> None))"

definition docker_GetAllLeaves :: "'z graph_state_scheme graph \<Rightarrow> ('z graph_state_scheme, layer_id list) prog" where
  "docker_GetAllLeaves g = bindE (Heads g) (\<lambda>heads.
     getW (\<lambda>w. map DockerImageID (visitOrder w (map fst heads))))"

definition docker_cake :: "'z graph_state_scheme graph \<Rightarrow> 'z graph_state_scheme cake" where
  "docker_cake g = \<lparr>
     DriverName = docker_DriverName g,
     Create = docker_Create g,
     Register = docker_Register g,
     RegisterWithQuota = docker_RegisterWithQuota g,
     Get = docker_Get g,
     Unmount = docker_Unmount g,
     Remove = docker_Remove g,
     Path = docker_Path g,
     QuotaedPath = docker_QuotaedPath g,
     IsLeaf = docker_IsLeaf g,
     GetAllLeaves = docker_GetAllLeaves g,
     All = docker_All g\<rparr>"

section \<open>Paths\<close>

text \<open>\<open>Path\<close> gives up only after five failures, and returns what the first success returns.\<close>

lemma path_tries_error:
  assumes "path_tries g i n (Inl (Err e0)) w = (Inl (Err e), w')"
  shows "(n = 0 \<and> e = e0 \<and> w' = w) \<or> (\<exists>w1. drv_Get (driver g) i [] w1 = (Inl (Err e), w'))"
  using assms
proof (induction n arbitrary: e0 w)
  case (Suc n)
  from Suc.prems show ?case
    by (auto simp: handleE_def split: prod.splits sum.splits failure.splits dest!: Suc.IH)
qed simp

section \<open>The graph is a layer store\<close>

lemma stored_parent_create:
  "stored_parent (empty_image\<lparr>ID := i, Parent := p, Container := c\<rparr>) = p"
  by (simp add: stored_parent_def empty_image_def digest_Validate_empty)

lemma stored_image_create:
  "stored_image (empty_image\<lparr>ID := i, Parent := p, Container := c\<rparr>) sz =
     empty_image\<lparr>ID := i, Parent := p, Container := c, Size := sz\<rparr>"
  unfolding stored_image_def stored_parent_create by (simp add: empty_image_def)

locale docker_store = graph_driver "driver g" for g :: "'z graph_state_scheme graph"
begin

lemma All_exact:
  assumes "graph_inv g w"
  shows "\<exists>imgs. docker_All g w = (Inr imgs, w) \<and> set imgs = ran (graph_layers g w) \<and> distinct imgs"
proof -
  obtain m where m: "graph_Map g w = (Inr m, w)" "map_of m = graph_layers g w" "distinct (map fst m)"
    by (rule graph_Map_run [OF assms])
  let ?ks = "visitOrder w (map fst m)"
  have ok: "order_ok w" using assms by (simp add: graph_inv_def)
  have ks: "set ?ks = dom (graph_layers g w)" "distinct ?ks"
    using order_ok_set [OF ok] order_ok_distinct [OF ok] m(2,3) dom_map_of_conv_image_fst [of m]
    by auto
  have id: "ID (the (graph_layers g w k)) = k" if "k \<in> set ?ks" for k
    using that ks(1) graph_layers_ok [OF assms] by (auto simp: image_ok_def)
  have "docker_All g w = (Inr (map (\<lambda>k. the (graph_layers g w k)) ?ks), w)"
    by (simp add: docker_All_def bindE_def m)
  moreover have "inj_on (\<lambda>k. the (graph_layers g w k)) (set ?ks)"
    by (rule inj_onI) (metis id)
  moreover have "(\<lambda>k. the (graph_layers g w k)) ` dom (graph_layers g w) = ran (graph_layers g w)"
    by (force simp: ran_def)
  ultimately show ?thesis using ks by (simp add: distinct_map)
qed

lemma Create_layer:
  assumes "graph_inv g w" and "ValidateID (GraphID i)" and "GraphID p = [] \<or> ValidateID (GraphID p)"
    and "graph_layers g w (GraphID i) = None" and "readable g w (GraphID i)"
    and "docker_Create g i p c w = (r, w')"
  shows "graph_inv g w' \<and> (case r of
      Inr _ \<Rightarrow> \<exists>sz. graph_layers g w' = (graph_layers g w)(GraphID i \<mapsto>
                 empty_image\<lparr>ID := GraphID i, Parent := GraphID p, Container := c, Size := sz\<rparr>)
    | Inl (Err _) \<Rightarrow> graph_layers g w' = graph_layers g w
    | Inl (Panic _) \<Rightarrow> False)"
proof -
  let ?im = "empty_image\<lparr>ID := GraphID i, Parent := GraphID p, Container := c\<rparr>"
  have "GraphID i \<notin> set (idIndex w)" using assms(4) graph_layers_dom [OF assms(1)] by blast
  moreover have "graph_register g ?im None (- 1) w = (r, w')"
    using assms(2,6) by (simp add: docker_Create_def docker_Register_def graph_Register_def)
  ultimately show ?thesis
    using graph_register_new [OF assms(1) refl, of ?im None "- 1" r w'] assms(2,3,5)
    by (auto simp: stored_parent_create stored_image_create split: sum.splits failure.splits)
qed

end

sublocale docker_store \<subseteq> docker: layer_store "docker_cake g" "graph_layers g" "graph_inv g"
proof
  fix w :: "'z graph_state_scheme" and s img i
  assume inv: "graph_inv g w"
  show "finite (dom (graph_layers g w))" by (simp add: graph_layers_dom [OF inv])
  show "ValidateID s \<and> ID img = s" if "graph_layers g w s = Some img"
    using graph_layers_ok [OF inv that] by (simp add: image_ok_def)
  show "Get (docker_cake g) i w = (Inr img, w)" if "graph_layers g w (GraphID i) = Some img"
    using graph_Get_present [OF inv that] by (simp add: docker_cake_def docker_Get_def)
  show "\<exists>e. Get (docker_cake g) i w = (Inl (Err e), w)"
    if "ValidateID (GraphID i)" "graph_layers g w (GraphID i) = None"
    using graph_Get_absent [OF inv that(2)] that(1) by (simp add: docker_cake_def docker_Get_def)
  obtain h where h: "Heads g w = (Inr h, w)" "dom (map_of h) = {i. leaf (graph_layers g w) i}"
    "distinct (map fst h)" by (rule Heads_run [OF inv])
  show "IsLeaf (docker_cake g) i w = (Inr (leaf (graph_layers g w) (GraphID i)), w)"
    using h(2) by (auto simp: docker_cake_def docker_IsLeaf_def bindE_def h(1))
  have "order_ok w" using inv by (simp add: graph_inv_def)
  then show "\<exists>ids. GetAllLeaves (docker_cake g) w = (Inr ids, w) \<and>
      distinct (map GraphID ids) \<and> set (map GraphID ids) = {s. leaf (graph_layers g w) s}"
    using h(2,3) dom_map_of_conv_image_fst [of h]
    by (simp add: docker_cake_def docker_GetAllLeaves_def bindE_def h(1) comp_def order_ok_set
        order_ok_distinct image_image)
next
  fix w w' :: "'z graph_state_scheme" and i and r :: "unit outcome"
  assume inv: "graph_inv g w" and valid: "ValidateID (GraphID i)"
    and run: "Remove (docker_cake g) i w = (r, w')"
  obtain r1 w1 where put: "drv_Put (driver g) (GraphID i) w = (r1, w1)"
    by (cases "drv_Put (driver g) (GraphID i) w")
  have v: "gview w1 = gview w" by (rule frameD [OF Put_frame put])
  have inv1: "graph_inv g w1" and lay1: "graph_layers g w1 = graph_layers g w"
    using inv graph_inv_cong [OF v] graph_layers_cong [OF v] by simp_all
  show "graph_inv g w' \<and> (case r of
             Inr _ \<Rightarrow> graph_layers g w' = (graph_layers g w)(GraphID i := None)
           | Inl (Err _) \<Rightarrow> graph_layers g w' = graph_layers g w \<or>
               graph_layers g w' = (graph_layers g w)(GraphID i := None)
           | Inl (Panic _) \<Rightarrow> False)"
  proof (cases r1)
    case (Inl f)
    with put calmD [OF Put_calm] obtain e where "f = Err e" by (cases f) auto
    with run put Inl inv1 lay1 show ?thesis by (auto simp: docker_cake_def docker_Remove_def bindE_def)
  next
    case (Inr x)
    with run put have "graph_Delete g (GraphID i) w1 = (r, w')"
      by (simp add: docker_cake_def docker_Remove_def bindE_def)
    from graph_Delete_any [OF inv1 refl valid this] lay1 show ?thesis
      by (auto split: sum.split failure.split)
  qed
qed

context docker_store
begin

lemma store_contract: "layer_store (docker_cake g) (graph_layers g) (graph_inv g)"
  by unfold_locales

end

end
