(* ===== verification/Retrying.thy ===== *)
theory Retrying
  imports Prelude "HOL-Library.Signed_Division"
begin

text \<open>
  Retrying an operation: \<open>Retrier.Retry\<close> of \<open>src/pkg/retrier/retrier.go\<close>, and the contract of a
  retrier that the mount code relies on.

  A \<open>time.Duration\<close> is an \<open>int64\<close> of nanoseconds; the number of attempts is the truncated quotient
  of the timeout and the polling interval, and a zero interval is a division by zero, which
  panics.  Sleeping is a step of the world given by the clock.
\<close>

primrec retry_loop ::
  "('w, unit) prog \<Rightarrow> ('w \<Rightarrow> 'w) \<Rightarrow> nat \<Rightarrow> go_error option \<Rightarrow> ('w, unit) prog" where
  "retry_loop callback sleep 0 lastErr =
     (case lastErr of None \<Rightarrow> ret () | Some e \<Rightarrow> throw e)"
| "retry_loop callback sleep (Suc n) lastErr =
     handleE callback (\<lambda>e. bindE (modW sleep) (\<lambda>_. retry_loop callback sleep n (Some e))) ret"

definition Retry ::
  "int64 \<Rightarrow> int64 \<Rightarrow> (int64 \<Rightarrow> 'w \<Rightarrow> 'w) \<Rightarrow> ('w, unit) prog \<Rightarrow> ('w, unit) prog" where
  "Retry timeout interval clockSleep callback =
     (if interval = 0 then panic ''integer divide by zero''
      else retry_loop callback (clockSleep interval)
             (nat (sint (word_of_int (sint timeout sdiv sint interval) :: int64))) None)"

text \<open>The world after \<open>k\<close> failed attempts, each followed by a sleep.\<close>

primrec after_failures :: "('w, unit) prog \<Rightarrow> ('w \<Rightarrow> 'w) \<Rightarrow> nat \<Rightarrow> 'w \<Rightarrow> 'w" where
  "after_failures callback sleep 0 w = w"
| "after_failures callback sleep (Suc k) w =
     after_failures callback sleep k (sleep (snd (callback w)))"

definition fails :: "('w, unit) prog \<Rightarrow> 'w \<Rightarrow> bool" where
  "fails callback w \<longleftrightarrow> (case fst (callback w) of Inl (Err _) \<Rightarrow> True | _ \<Rightarrow> False)"

lemma fails_run:
  assumes "fails m w"
  obtains e w1 where "m w = (Inl (Err e), w1)"
  using assms by (cases "m w") (auto simp: fails_def split: sum.splits failure.splits)

text \<open>The first success ends the loop with the world it leaves; without one the last error is returned.\<close>

lemma retry_loop_success:
  assumes "k < n" and "\<forall>j < k. fails callback (after_failures callback sleep j w)"
    and "callback (after_failures callback sleep k w) = (Inr u, w')"
  shows "retry_loop callback sleep n lastErr w = (Inr (), w')"
  using assms
proof (induction k arbitrary: n w lastErr)
  case 0
  then obtain m where "n = Suc m" by (cases n) auto
  with 0 show ?case by (simp add: handleE_Inr)
next
  case (Suc k)
  then obtain m where n: "n = Suc m" and "k < m" by (cases n) auto
  have "fails callback w" using Suc.prems(2) by (auto dest: spec [of _ 0])
  then obtain e w1 where e: "callback w = (Inl (Err e), w1)" by (rule fails_run)
  have "\<forall>j < k. fails callback (after_failures callback sleep j (sleep w1))"
    using Suc.prems(2) e by (metis Suc_less_eq after_failures.simps(2) snd_conv)
  with Suc.IH [OF \<open>k < m\<close>, of "sleep w1"] Suc.prems(3) e
  have "retry_loop callback sleep m (Some e) (sleep w1) = (Inr (), w')" by simp
  with e show ?case by (simp add: n handleE_def bindE_def)
qed

lemma retry_loop_failure:
  assumes "0 < n" and "\<forall>j < n. fails callback (after_failures callback sleep j w)"
  shows "\<exists>e. fst (callback (after_failures callback sleep (n - 1) w)) = Inl (Err e) \<and>
    retry_loop callback sleep n lastErr w = (Inl (Err e), after_failures callback sleep n w)"
  using assms
proof (induction n arbitrary: w lastErr)
  case (Suc n)
  have "fails callback w" using Suc.prems(2) by (auto dest: spec [of _ 0])
  then obtain e w1 where e: "callback w = (Inl (Err e), w1)" by (rule fails_run)
  have step: "retry_loop callback sleep (Suc n) lastErr w = retry_loop callback sleep n (Some e) (sleep w1)"
    using e by (simp add: handleE_def bindE_def)
  have later: "after_failures callback sleep (Suc k) w = after_failures callback sleep k (sleep w1)" for k
    by (simp add: e)
  show ?case
  proof (cases n)
    case 0
    with step e show ?thesis by simp
  next
    case (Suc m)
    have "\<forall>j < n. fails callback (after_failures callback sleep j (sleep w1))"
      using Suc.prems(2) later by (metis Suc_less_eq)
    with Suc.IH [of "sleep w1" "Some e"] Suc show ?thesis
      unfolding step later [of n] by (simp add: e)
  qed
qed simp

section \<open>What users of a retrier rely on\<close>

text \<open>
  A retrier adds no effect of its own to the part \<open>v\<close> of the world and panics only if the work
  does.
\<close>

definition retrier_ok :: "('w \<Rightarrow> 'v) \<Rightarrow> (('w, unit) prog \<Rightarrow> ('w, unit) prog) \<Rightarrow> bool" where
  "retrier_ok v run \<longleftrightarrow> (\<forall>work. (frame v work \<longrightarrow> frame v (run work)) \<and> (calm work \<longrightarrow> calm (run work)))"

lemma retry_loop_ok:
  assumes "\<And>w. v (sleep w) = v w"
  shows "frame v work \<Longrightarrow> frame v (retry_loop work sleep n lastErr)"
    and "calm work \<Longrightarrow> calm (retry_loop work sleep n lastErr)"
proof -
  have s: "frame v (modW sleep)" using assms by (rule frame_modW)
  show "frame v (retry_loop work sleep n lastErr)" if "frame v work"
    by (induction n arbitrary: lastErr) (auto intro!: frame_rules s that split: option.split)
  show "calm (retry_loop work sleep n lastErr)" if "calm work"
    by (induction n arbitrary: lastErr) (auto intro!: calm_rules that split: option.split)
qed

lemma Retry_ok:
  assumes "interval \<noteq> 0" and "\<And>w. v (clockSleep interval w) = v w"
  shows "retrier_ok v (Retry timeout interval clockSleep)"
  using assms by (auto simp: retrier_ok_def Retry_def intro!: retry_loop_ok)

section \<open>What a retry does\<close>

text \<open>For times that are not negative, the number of runs is the quotient of the integers.\<close>

lemma attempts_in_timeout:
  assumes "0 \<le> sint (timeout :: int64)" and "0 < sint (interval :: int64)"
  shows "sint (word_of_int (sint timeout sdiv sint interval) :: int64) = sint timeout div sint interval"
proof -
  have "sint timeout div sint interval \<le> sint timeout"
    using assms zdiv_mono2 [of "sint timeout" 1 "sint interval"] by simp
  moreover have "0 \<le> sint timeout div sint interval" using assms by (simp add: pos_imp_zdiv_nonneg_iff)
  ultimately have "in_int64 (sint timeout div sint interval)"
    using sint_in_int64 [of timeout] by (simp add: in_int64_def)
  moreover have "sint timeout sdiv sint interval = sint timeout div sint interval"
    using assms by (simp add: signed_divide_int_def sgn_if)
  ultimately show ?thesis by (simp add: sint_of_int_id)
qed

text \<open>
  C33: A retry that succeeds.  If the callback fails fewer times than there are intervals in the
  timeout and then succeeds, \<open>Retry\<close> succeeds, having run it exactly once more than it failed and
  slept once after each failure.
\<close>

theorem Retry_success:
  assumes "sint interval \<noteq> 0" and "int k < sint timeout div sint interval" and "0 < sint interval"
    and "0 \<le> sint timeout"
    and "\<forall>j < k. fails callback (after_failures callback (clockSleep interval) j w)"
    and "callback (after_failures callback (clockSleep interval) k w) = (Inr (), w')"
  shows "Retry timeout interval clockSleep callback w = (Inr (), w')"
  using assms attempts_in_timeout [OF assms(4,3)] retry_loop_success [OF _ assms(5,6)]
  by (auto simp: Retry_def)

lemma Retry_success_witness:
  "Retry 3 1 (\<lambda>_ n. n) (\<lambda>n. if n < 2 then (Inl (Err EOF), n + 1) else (Inr (), n)) (0 :: nat) = (Inr (), 2)"
  using Retry_success [of 1 2 3 "\<lambda>n. if n < 2 then (Inl (Err EOF), n + 1) else (Inr (), n)" "\<lambda>_ n. n" "0 :: nat" 2]
  by (simp add: fails_def numeral_2_eq_2 less_Suc_eq)

text \<open>
  C34: A retry that gives up.  If the callback fails once per interval of the timeout, \<open>Retry\<close>
  returns the error of the last run after exactly that many runs, each followed by a sleep.
\<close>

theorem Retry_gives_up:
  assumes "0 < sint interval" and "0 \<le> sint timeout" and "n = nat (sint timeout div sint interval)" and "0 < n"
    and "\<forall>j < n. fails callback (after_failures callback (clockSleep interval) j w)"
  shows "\<exists>e. fst (callback (after_failures callback (clockSleep interval) (n - 1) w)) = Inl (Err e) \<and>
    Retry timeout interval clockSleep callback w =
      (Inl (Err e), after_failures callback (clockSleep interval) n w)"
  using retry_loop_failure [OF assms(4,5)] attempts_in_timeout [OF assms(2,1)] assms(1,3)
  by (auto simp: Retry_def)

lemma Retry_gives_up_witness:
  "Retry 2 1 (\<lambda>_ n. n) (\<lambda>n. (Inl (Err EOF), n + 1)) (0 :: nat) = (Inl (Err EOF), 2)"
  using Retry_gives_up [of 1 2 2 "\<lambda>n. (Inl (Err EOF), n + 1)" "\<lambda>_ n. n" "0 :: nat"]
  by (simp add: fails_def numeral_2_eq_2)

text \<open>
  C35: A timeout shorter than the polling interval.  \<open>Retry\<close> then reports success without running
  the callback at all.
\<close>

theorem Retry_short_timeout:
  assumes "0 \<le> sint timeout" and "sint timeout < sint interval"
  shows "Retry timeout interval clockSleep callback w = (Inr (), w)"
  using attempts_in_timeout [OF assms(1), of interval] assms by (auto simp: Retry_def)

lemma Retry_short_timeout_witness:
  "Retry 3 5 (\<lambda>_ n. n) (\<lambda>n. (Inl (Err EOF), n + 1)) (0 :: nat) = (Inr (), 0)"
  using Retry_short_timeout [of 3 5 "\<lambda>_ n. n" "\<lambda>n. (Inl (Err EOF), n + 1)" "0 :: nat"] by simp

end
