(* ===== verification/Aufs_Driver.thy ===== *)
theory Aufs_Driver
  imports Docker_Cake Retrying
begin

text \<open>
  The graph driver: docker's aufs driver
  (\<open>src/vendor/github.com/docker/docker/daemon/graphdriver/aufs/aufs.go\<close>, \<open>dirs.go\<close>,
  \<open>mount.go\<close>), which keeps a list of ancestors and a use count per layer.

  The operating system below the files is the component \<open>kernel\<close> of the world: mount tables and
  the contents of the layers.  External commands, system calls and the unpacking of archives
  are the parameter \<open>env\<close>: they change the kernel state and nothing else, and return an error or
  a result.  The size of a directory is a non-negative \<open>int64\<close>, hence a \<open>63 word\<close>.  A Go map is
  read with the zero value for absent keys.
\<close>

section \<open>The host\<close>

record 'k host_state = graph_state +
  kernel :: 'k
  active :: "string \<rightharpoonup> int64"

record 'k env =
  exec :: "string list \<Rightarrow> 'k \<Rightarrow> (go_error + string) \<times> 'k"
  aufsMount :: "string list \<Rightarrow> string \<Rightarrow> string \<Rightarrow> string \<Rightarrow> 'k \<Rightarrow> (go_error + unit) \<times> 'k"
  syscall_Unmount :: "string \<Rightarrow> 'k \<Rightarrow> (go_error + unit) \<times> 'k"
  Mounted :: "string \<Rightarrow> 'k \<Rightarrow> go_error + bool"
  UntarUncompressed :: "layer_stream \<Rightarrow> string \<Rightarrow> 'k \<Rightarrow> (go_error + unit) \<times> 'k"
  directory_Size :: "string \<Rightarrow> 'k \<Rightarrow> go_error + 63 word"

definition lift_error :: "go_error + 'a \<Rightarrow> 'a outcome" where
  "lift_error r = (case r of Inl e \<Rightarrow> Inl (Err e) | Inr x \<Rightarrow> Inr x)"

definition on_kernel ::
  "('k \<Rightarrow> (go_error + 'a) \<times> 'k) \<Rightarrow> (('k, 'z) host_state_scheme, 'a) prog" where
  "on_kernel f = (\<lambda>w. case f (kernel w) of (r, k) \<Rightarrow> (lift_error r, w\<lparr>kernel := k\<rparr>))"

definition see_kernel ::
  "('k \<Rightarrow> go_error + 'a) \<Rightarrow> (('k, 'z) host_state_scheme, 'a) prog" where
  "see_kernel f = (\<lambda>w. (lift_error (f (kernel w)), w))"

definition activeCount :: "('k, 'z) host_state_scheme \<Rightarrow> string \<Rightarrow> int64" where
  "activeCount w i = (case active w i of None \<Rightarrow> 0 | Some n \<Rightarrow> n)"

definition set_active :: "string \<Rightarrow> int64 option \<Rightarrow> (('k, 'z) host_state_scheme, unit) prog" where
  "set_active i n = modW (\<lambda>w. w\<lparr>active := (active w)(i := n)\<rparr>)"

section \<open>The layers files\<close>

text \<open>The lines of a scanner: without their end, a trailing carriage return dropped.\<close>

definition drop_cr :: "string \<Rightarrow> string" where
  "drop_cr s = (if s \<noteq> [] \<and> last s = CHR 0x0D then butlast s else s)"

definition scan_lines :: "string \<Rightarrow> string list" where
  "scan_lines s = filter (\<lambda>l. l \<noteq> []) (map drop_cr (split_on newline s))"

definition getParentIds :: "string \<Rightarrow> string \<Rightarrow> ('z os_state_scheme, string list) prog" where
  "getParentIds rootPath i = bindE (read_file (path_join [rootPath, ''layers'', i])) (\<lambda>s. ret (scan_lines s))"

definition getParentLayerPaths :: "string \<Rightarrow> string \<Rightarrow> ('z os_state_scheme, string list) prog" where
  "getParentLayerPaths rootPath i = bindE (getParentIds rootPath i) (\<lambda>ids.
     ret (map (\<lambda>p. path_join [rootPath, ''diff'', p]) ids))"

section \<open>The driver's operations\<close>

definition createDirsFor :: "string \<Rightarrow> string \<Rightarrow> ('z os_state_scheme, unit) prog" where
  "createDirsFor rootPath i =
     forE [''mnt'', ''diff''] (\<lambda>p. mkdir_all (path_join [rootPath, p, i]))"

definition aufs_Create :: "string \<Rightarrow> string \<Rightarrow> string \<Rightarrow> ('z os_state_scheme, unit) prog" where
  "aufs_Create rootPath i parent =
     bindE (createDirsFor rootPath i) (\<lambda>_.
     bindE (os_create (path_join [rootPath, ''layers'', i])) (\<lambda>f.
     if parent \<noteq> [] then
       bindE (getParentIds rootPath parent) (\<lambda>ids.
       bindE (write_handle f (parent @ [newline])) (\<lambda>_.
       forE ids (\<lambda>j. write_handle f (j @ [newline]))))
     else ret ()))"

definition mounted :: "'k env \<Rightarrow> string \<Rightarrow> string \<Rightarrow> (('k, 'z) host_state_scheme, bool) prog" where
  "mounted env rootPath i = see_kernel (Mounted env (path_join [rootPath, ''mnt'', i]))"

definition aufs_Unmount :: "'k env \<Rightarrow> string \<Rightarrow> (('k, 'z) host_state_scheme, unit) prog" where
  "aufs_Unmount env target =
     bindE (ignoreE (on_kernel (exec env [''auplink'', target, ''flush'']))) (\<lambda>_.
     on_kernel (syscall_Unmount env target))"

definition aufs_unmount :: "'k env \<Rightarrow> string \<Rightarrow> string \<Rightarrow> (('k, 'z) host_state_scheme, unit) prog" where
  "aufs_unmount env rootPath i =
     bindE (mounted env rootPath i) (\<lambda>m.
     if \<not> m then ret () else aufs_Unmount env (path_join [rootPath, ''mnt'', i]))"

definition aufs_mount ::
  "'k env \<Rightarrow> string \<Rightarrow> string \<Rightarrow> string \<Rightarrow> (('k, 'z) host_state_scheme, unit) prog" where
  "aufs_mount env rootPath i mountLabel =
     bindE (mounted env rootPath i) (\<lambda>m.
     if m then ret () else
     let target = path_join [rootPath, ''mnt'', i]; rw = path_join [rootPath, ''diff'', i] in
     bindE (getParentLayerPaths rootPath i) (\<lambda>layers.
     handleE (on_kernel (aufsMount env layers rw target mountLabel))
       (\<lambda>e. throw (Errorf (''error creating aufs mount to '' @ target @ '': '' @ err_msg e))) ret))"

text \<open>Moving a directory of a layer away, and the deferred removal of what was moved.\<close>

definition remove_dir ::
  "string \<Rightarrow> string \<Rightarrow> string \<Rightarrow> ('z os_state_scheme, unit) prog \<Rightarrow> ('z os_state_scheme, unit) prog" where
  "remove_dir rootPath p i rest =
     (let realPath = path_join [rootPath, p, i];
          tmpPath = path_join [rootPath, p, i @ ''-removing''] in
      bindE (handleE (os_rename realPath tmpPath)
               (\<lambda>e. if \<not> is_not_exist e then throw e else ret ()) ret) (\<lambda>_.
      deferE (remove_all tmpPath) rest))"

definition aufs_Remove :: "'k env \<Rightarrow> string \<Rightarrow> string \<Rightarrow> (('k, 'z) host_state_scheme, unit) prog" where
  "aufs_Remove env rootPath i =
     bindE (aufs_unmount env rootPath i) (\<lambda>_.
     remove_dir rootPath ''mnt'' i (
     remove_dir rootPath ''diff'' i (
     handleE (os_remove (path_join [rootPath, ''layers'', i]))
       (\<lambda>e. if \<not> is_not_exist e then throw e else ret ()) ret)))"

definition aufs_Get ::
  "'k env \<Rightarrow> string \<Rightarrow> string \<Rightarrow> string \<Rightarrow> (('k, 'z) host_state_scheme, string) prog" where
  "aufs_Get env rootPath i mountLabel =
     bindE (handleE (getParentIds rootPath i)
              (\<lambda>e. if \<not> is_not_exist e then throw e else ret []) ret) (\<lambda>ids.
     bindE (getW (\<lambda>w. activeCount w i)) (\<lambda>count.
     bindE (if ids \<noteq> [] \<and> count = 0 then aufs_mount env rootPath i mountLabel else ret ()) (\<lambda>_.
     bindE (set_active i (Some (count + 1))) (\<lambda>_.
     ret (if ids \<noteq> [] then path_join [rootPath, ''mnt'', i] else path_join [rootPath, ''diff'', i])))))"

definition aufs_Put :: "'k env \<Rightarrow> string \<Rightarrow> string \<Rightarrow> (('k, 'z) host_state_scheme, unit) prog" where
  "aufs_Put env rootPath i =
     bindE (getW (\<lambda>w. activeCount w i)) (\<lambda>count.
     if 1 < sint count then set_active i (Some (count - 1))
     else
       bindE (handleE (getParentIds rootPath i) (\<lambda>_. ret []) ret) (\<lambda>ids.
       bindE (if ids \<noteq> [] then ignoreE (aufs_unmount env rootPath i) else ret ()) (\<lambda>_.
       set_active i None)))"

definition aufs_DiffSize :: "'k env \<Rightarrow> string \<Rightarrow> string \<Rightarrow> string \<Rightarrow> (('k, 'z) host_state_scheme, int64) prog" where
  "aufs_DiffSize env rootPath i parent =
     bindE (see_kernel (directory_Size env (path_join [rootPath, ''diff'', i]))) (\<lambda>sz. ret (ucast sz))"

definition aufs_ApplyDiff ::
  "'k env \<Rightarrow> string \<Rightarrow> string \<Rightarrow> string \<Rightarrow> layer_stream \<Rightarrow> (('k, 'z) host_state_scheme, int64) prog" where
  "aufs_ApplyDiff env rootPath i parent diff =
     bindE (on_kernel (UntarUncompressed env diff (path_join [rootPath, ''diff'', i]))) (\<lambda>_.
     aufs_DiffSize env rootPath i parent)"

definition aufs_driver :: "'k env \<Rightarrow> string \<Rightarrow> ('k, 'z) host_state_scheme driver" where
  "aufs_driver env rootPath = \<lparr>
     drv_String = ''aufs'',
     drv_Create = aufs_Create rootPath,
     drv_Remove = aufs_Remove env rootPath,
     drv_Get = aufs_Get env rootPath,
     drv_Put = aufs_Put env rootPath,
     drv_DiffSize = aufs_DiffSize env rootPath,
     drv_ApplyDiff = aufs_ApplyDiff env rootPath,
     drv_GetQuotaed = None\<rparr>"

section \<open>The driver keeps its contract\<close>

lemma gview_beyond: "beyond_files w = beyond_files w' \<Longrightarrow> gview w = gview w'"
  by (cases w; cases w') (simp add: beyond_files_def gview_def)

lemma frame_gview_files: "frame beyond_files m \<Longrightarrow> frame gview m"
  unfolding frame_def using gview_beyond by blast

lemma frame_on_kernel [frame_rules]: "frame gview (on_kernel f)"
  by (simp add: frame_def on_kernel_def gview_def split: prod.split)

lemma frame_see_kernel [frame_rules]: "frame v (see_kernel f)"
  by (simp add: frame_def see_kernel_def)

lemma frame_set_active [frame_rules]: "frame gview (set_active i n)"
  unfolding set_active_def by (rule frame_modW) (simp add: gview_def)

lemma lift_error_calm [simp]: "lift_error r \<noteq> Inl (Panic s)"
  by (simp add: lift_error_def split: sum.split)

lemma calm_kernel [calm_rules]: "calm (on_kernel f)" "calm (see_kernel h)"
  by (auto simp: calm_def on_kernel_def see_kernel_def split: prod.split)

lemma calm_set_active [calm_rules]: "calm (set_active i n)"
  by (simp add: set_active_def calm_modW)

lemmas frame_gview_os = frame_os_remove [THEN frame_gview_files]
  frame_remove_all [THEN frame_gview_files] frame_mkdir_all [THEN frame_gview_files]
  frame_os_create [THEN frame_gview_files] frame_os_truncate [THEN frame_gview_files]
  frame_os_rename [THEN frame_gview_files] frame_write_handle [THEN frame_gview_files]

lemma getParentIds_rules:
  "frame v (getParentIds rootPath i)" "calm (getParentIds rootPath i)"
  unfolding getParentIds_def by (intro frame_rules) (intro calm_rules)

lemma aufs_unmount_rules:
  "frame gview (aufs_unmount env rootPath i)" "calm (aufs_unmount env rootPath i)"
  unfolding aufs_unmount_def mounted_def aufs_Unmount_def by (intro frame_rules) (intro calm_rules)

lemma aufs_mount_rules:
  "frame gview (aufs_mount env rootPath i l)" "calm (aufs_mount env rootPath i l)"
  unfolding aufs_mount_def mounted_def getParentLayerPaths_def Let_def
  by (intro frame_rules getParentIds_rules) (intro calm_rules getParentIds_rules)

lemma aufs_DiffSize_rules:
  "frame v (aufs_DiffSize env rootPath i parent)" "calm (aufs_DiffSize env rootPath i parent)"
  unfolding aufs_DiffSize_def by (intro frame_rules) (intro calm_rules)

lemma sint_ucast_63: "0 \<le> sint (ucast (x :: 63 word) :: int64)"
  using bit_imp_le_length [of x 63]
  by (auto simp: sint_uint unsigned_ucast_eq bit_take_bit_iff bit_uint_iff)

interpretation aufs: graph_driver "aufs_driver env rootPath" for env rootPath
proof
  fix i parent label :: string and data :: layer_stream
  show "frame gview (drv_Create (aufs_driver env rootPath) i parent)"
    unfolding aufs_driver_def driver.simps aufs_Create_def createDirsFor_def
    by (intro frame_rules frame_gview_os getParentIds_rules)
  show "frame gview (drv_Remove (aufs_driver env rootPath) i)"
    unfolding aufs_driver_def driver.simps aufs_Remove_def remove_dir_def Let_def
    by (intro frame_rules frame_gview_os aufs_unmount_rules)
  show "frame gview (drv_Get (aufs_driver env rootPath) i label)"
    unfolding aufs_driver_def driver.simps aufs_Get_def
    by (intro frame_rules getParentIds_rules aufs_mount_rules)
  show "frame gview (drv_Put (aufs_driver env rootPath) i)"
    unfolding aufs_driver_def driver.simps aufs_Put_def
    by (intro frame_rules getParentIds_rules aufs_unmount_rules)
  show "frame gview (drv_ApplyDiff (aufs_driver env rootPath) i parent data)"
    unfolding aufs_driver_def driver.simps aufs_ApplyDiff_def
    by (intro frame_rules aufs_DiffSize_rules)
  show "calm (drv_Remove (aufs_driver env rootPath) i)"
    unfolding aufs_driver_def driver.simps aufs_Remove_def remove_dir_def Let_def
    by (intro calm_rules aufs_unmount_rules)
  show "calm (drv_Put (aufs_driver env rootPath) i)"
    unfolding aufs_driver_def driver.simps aufs_Put_def
    by (intro calm_rules getParentIds_rules aufs_unmount_rules)
  show "calm (drv_Create (aufs_driver env rootPath) i parent)"
    unfolding aufs_driver_def driver.simps aufs_Create_def createDirsFor_def
    by (intro calm_rules getParentIds_rules)
  show "calm (drv_ApplyDiff (aufs_driver env rootPath) i parent data)"
    unfolding aufs_driver_def driver.simps aufs_ApplyDiff_def
    by (intro calm_rules aufs_DiffSize_rules)
next
  fix i parent :: string and data :: layer_stream and w w' and sz :: int64
  assume "drv_ApplyDiff (aufs_driver env rootPath) i parent data w = (Inr sz, w')"
  then show "0 \<le> sint sz"
    by (auto simp: aufs_driver_def aufs_ApplyDiff_def aufs_DiffSize_def sint_ucast_63 elim!: bindE_InrE)
qed

section \<open>Reference counting\<close>

lemma frame_active_kernel: "frame active (on_kernel f)"
  by (auto simp: frame_def on_kernel_def split: prod.split)

text \<open>
  A mount is counted.  A \<open>Get\<close> that succeeds adds one to the count of this layer and changes no
  other count; a \<open>Get\<close> that fails changes no count.
\<close>

theorem aufs_Get_counts:
  assumes "aufs_Get env rootPath i mountLabel w = (r, w')"
  shows "active w' = (case r of Inr _ \<Rightarrow> (active w)(i \<mapsto> activeCount w i + 1) | Inl _ \<Rightarrow> active w)"
proof -
  have ids: "frame active (getParentIds rootPath i)" by (rule getParentIds_rules)
  have mount: "frame active (aufs_mount env rootPath i mountLabel)"
    unfolding aufs_mount_def mounted_def getParentLayerPaths_def Let_def
    by (intro frame_rules getParentIds_rules frame_active_kernel)
  let ?read = "handleE (getParentIds rootPath i) (\<lambda>e. if \<not> is_not_exist e then throw e else ret []) ret"
  have read: "frame active ?read" by (intro frame_rules ids)
  obtain r1 w1 where one: "?read w = (r1, w1)" by (cases "?read w")
  from frameD [OF read one] have a1: "active w1 = active w" .
  show ?thesis
  proof (cases r1)
    case (Inl f)
    with assms one a1 show ?thesis by (auto simp: aufs_Get_def bindE_def)
  next
    case (Inr js)
    let ?m = "if js \<noteq> [] \<and> activeCount w1 i = 0 then aufs_mount env rootPath i mountLabel else ret ()"
    have m: "frame active ?m" by (intro frame_rules mount)
    obtain r2 w2 where two: "?m w1 = (r2, w2)" by (cases "?m w1")
    from frameD [OF m two] a1 have a2: "active w2 = active w" by simp
    have count: "activeCount w1 i = activeCount w i" using a1 by (simp add: activeCount_def)
    have "aufs_Get env rootPath i mountLabel w = bindE ?m (\<lambda>_. bindE (set_active i (Some (activeCount w1 i + 1))) (\<lambda>_.
        ret (if js \<noteq> [] then path_join [rootPath, ''mnt'', i] else path_join [rootPath, ''diff'', i]))) w1"
      unfolding aufs_Get_def bindE_Inr [of ?read, OF one [unfolded Inr]] by simp
    also have "\<dots> = (case r2 of Inl f \<Rightarrow> (Inl f, w2)
      | Inr _ \<Rightarrow> (Inr (if js \<noteq> [] then path_join [rootPath, ''mnt'', i] else path_join [rootPath, ''diff'', i]),
          w2\<lparr>active := (active w2)(i \<mapsto> activeCount w i + 1)\<rparr>))"
      unfolding bindE_def [of ?m] two by (simp add: set_active_def count split: sum.split)
    finally show ?thesis using assms a2 by (auto split: sum.splits)
  qed
qed

definition idle_env :: "unit env" where
  "idle_env = \<lparr>exec = \<lambda>_ k. (Inr [], k), aufsMount = \<lambda>_ _ _ _ k. (Inr (), k),
     syscall_Unmount = \<lambda>_ k. (Inr (), k), Mounted = \<lambda>_ _. Inr False,
     UntarUncompressed = \<lambda>_ _ k. (Inr (), k), directory_Size = \<lambda>_ _. Inr 0\<rparr>"

definition counted :: "(string \<rightharpoonup> int64) \<Rightarrow> unit host_state" where
  "counted m = \<lparr>files = Map.empty, os_fault = \<lambda>_ _. None, idIndex = [], imageDirs = Map.empty,
     visitOrder = id, kernel = (), active = m\<rparr>"

lemma aufs_Get_counts_witness:
  "\<exists>r. active (snd (aufs_Get idle_env ''/a'' ''i'' [] (counted [''i'' \<mapsto> 2]))) =
    (case r of Inr (_ :: string) \<Rightarrow> [''i'' \<mapsto> 3] | Inl (_ :: failure) \<Rightarrow> [''i'' \<mapsto> 2])"
proof -
  obtain r w' where run: "aufs_Get idle_env ''/a'' ''i'' [] (counted [''i'' \<mapsto> 2]) = (r, w')"
    by (cases "aufs_Get idle_env ''/a'' ''i'' [] (counted [''i'' \<mapsto> 2])")
  from aufs_Get_counts [OF run] run show ?thesis
    by (intro exI [of _ r]) (auto simp: counted_def activeCount_def split: sum.split)
qed

text \<open>
  Only the last user unmounts.  As long as a layer has more than one user, \<open>Put\<close> does nothing but
  count down: of \<open>n + 1\<close> users (as many as an \<open>int\<close> counts), the first \<open>n\<close> that put the layer leave files, mounts and the other
  counts as they are.
\<close>

theorem aufs_Put_counts:
  assumes "sint (activeCount w i) = int n + 1" and "active w i \<noteq> None"
  shows "((\<lambda>w. snd (aufs_Put env rootPath i w)) ^^ n) w = w\<lparr>active := (active w)(i \<mapsto> 1)\<rparr>"
  using assms
proof (induction n arbitrary: w)
  case 0
  then have "activeCount w i = 1" by (simp add: signed_word_eqI)
  with 0 have "(active w)(i \<mapsto> 1) = active w" by (auto simp: activeCount_def fun_upd_idem split: option.splits)
  then show ?case by simp
next
  case (Suc n)
  let ?w = "w\<lparr>active := (active w)(i \<mapsto> activeCount w i - 1)\<rparr>"
  have "snd (aufs_Put env rootPath i w) = ?w"
    using Suc.prems(1) by (simp add: aufs_Put_def set_active_def bindE_def getW_def)
  moreover have "((\<lambda>w. snd (aufs_Put env rootPath i w)) ^^ n) ?w = ?w\<lparr>active := (active ?w)(i \<mapsto> 1)\<rparr>"
  proof (rule Suc.IH)
    have "sint (activeCount w i - 1) = sint (activeCount w i) - 1"
      using sint_minus_id [of "activeCount w i" 1] Suc.prems(1) sint_in_int64 [of "activeCount w i"]
      by (simp add: in_int64_def)
    then show "sint (activeCount ?w i) = int n + 1" using Suc.prems(1) by (simp add: activeCount_def)
  qed simp
  moreover have "?w\<lparr>active := (active ?w)(i \<mapsto> 1)\<rparr> = w\<lparr>active := (active w)(i \<mapsto> 1)\<rparr>" by simp
  ultimately show ?case by (simp only: funpow_Suc_right o_apply)
qed

lemma aufs_Put_counts_witness:
  "snd (aufs_Put idle_env ''/a'' ''i'' (counted [''i'' \<mapsto> 2])) = (counted [''i'' \<mapsto> 1])"
  using aufs_Put_counts [of "counted [''i'' \<mapsto> 2]" "''i''" 1 idle_env "''/a''"]
  by (simp add: counted_def activeCount_def)

end
