(* ===== verification/Quotaed_Driver.thy ===== *)
theory Quotaed_Driver
  imports Aufs_Driver
begin

text \<open>
  Disk quotas for aufs layers (\<open>src/docker_drivers/aufs\<close>): the backing files
  (\<open>backing_store.go\<close>), the loop mounts (\<open>loop.go\<close>), unmounting (\<open>unmount_linux.go\<close>), and the
  driver that wraps a graph driver and puts a quotaed file system under a layer (\<open>aufs.go\<close>).

  The wrapped driver, the helpers and the retrier are the interfaces of \<open>aufs.go\<close>, fields of the
  record \<open>quotaed_cfg\<close>.  The locale \<open>quotaed_parts\<close> says what the wrapper relies on; it gives the
  driver contract again, and is interpreted on the parts that \<open>Wire\<close> plugs in.
\<close>

section \<open>Backing files\<close>

definition backingStorePath :: "string \<Rightarrow> string \<Rightarrow> string" where
  "backingStorePath rootPath i = path_join [rootPath, i]"

definition backing_Create ::
  "'k env \<Rightarrow> string \<Rightarrow> string \<Rightarrow> int64 \<Rightarrow> (('k, 'z) host_state_scheme, string) prog" where
  "backing_Create env rootPath i quota =
     (let path = backingStorePath rootPath i in
      bindE (handleE (os_create path)
        (\<lambda>e. throw (Errorf (''creating the backing store file: '' @ err_msg e))) ret) (\<lambda>_.
      if quota = 0 then throw (Errorf ''cannot have zero sized quota'')
      else
      bindE (handleE (os_truncate path quota)
        (\<lambda>e. throw (Errorf (''truncating the file returned error: '' @ err_msg e))) ret) (\<lambda>_.
      bindE (handleE (on_kernel (exec env [''mkfs.ext4'', ''-O'', ''^has_journal'', ''-F'', path]))
        (\<lambda>e. throw (Errorf (''formatting filesystem: '' @ err_msg e))) ret) (\<lambda>_.
      ret path))))"

definition backing_Delete :: "string \<Rightarrow> string \<Rightarrow> ('z os_state_scheme, unit) prog" where
  "backing_Delete rootPath i =
     handleE (remove_all (backingStorePath rootPath i))
       (\<lambda>e. throw (Errorf (''deleting backing store file: '' @ err_msg e))) ret"

section \<open>Loop mounts\<close>

definition loop_MountFile :: "'k env \<Rightarrow> string \<Rightarrow> string \<Rightarrow> (('k, 'z) host_state_scheme, unit) prog" where
  "loop_MountFile env filePath destPath =
     handleE (on_kernel (exec env [''mount'', ''-n'', ''-t'', ''ext4'', ''-o'', ''loop,noatime'',
                filePath, destPath]))
       (\<lambda>e. throw (Errorf (''mounting file: '' @ err_msg e))) (\<lambda>_. ret ())"

text \<open>One attempt of \<open>Unmount\<close>: a failure is fine when the path is no mount point.\<close>

definition loop_umount_once :: "'k env \<Rightarrow> string \<Rightarrow> (('k, 'z) host_state_scheme, unit) prog" where
  "loop_umount_once env path =
     handleE (on_kernel (exec env [''umount'', ''-d'', path]))
       (\<lambda>e. handleE (on_kernel (exec env [''mountpoint'', path])) (\<lambda>_. ret ()) (\<lambda>_. throw e))
       (\<lambda>_. ret ())"

definition loop_Unmount ::
  "'k env \<Rightarrow> ((('k, 'z) host_state_scheme, unit) prog \<Rightarrow> (('k, 'z) host_state_scheme, unit) prog) \<Rightarrow>
    string \<Rightarrow> (('k, 'z) host_state_scheme, unit) prog" where
  "loop_Unmount env run path =
     handleE (run (loop_umount_once env path))
       (\<lambda>e. throw (Errorf (''unmounting file: '' @ err_msg e))) ret"

definition isMountPoint :: "'k env \<Rightarrow> string \<Rightarrow> (('k, 'z) host_state_scheme, bool) prog" where
  "isMountPoint env path =
     handleE (on_kernel (exec env [''mountpoint'', path])) (\<lambda>_. ret False) (\<lambda>_. ret True)"

definition unmount_mnt :: "'k env \<Rightarrow> string \<Rightarrow> (('k, 'z) host_state_scheme, unit) prog" where
  "unmount_mnt env path =
     bindE (isMountPoint env path) (\<lambda>m.
     if \<not> m then ret ()
     else bindE (aufs_Unmount env path) (\<lambda>_.
       bindE (isMountPoint env path) (\<lambda>m2.
       if m2 then throw (Errorf ''still a mountpoint'') else ret ())))"

section \<open>The quotaed driver\<close>

record 'w quotaed_cfg =
  GraphDriver :: "'w driver"
  UnmountFunc :: "string \<Rightarrow> ('w, unit) prog"
  bs_Create :: "string \<Rightarrow> int64 \<Rightarrow> ('w, string) prog"
  bs_Delete :: "string \<Rightarrow> ('w, unit) prog"
  lm_MountFile :: "string \<Rightarrow> string \<Rightarrow> ('w, unit) prog"
  lm_Unmount :: "string \<Rightarrow> ('w, unit) prog"
  RetrierRun :: "('w, unit) prog \<Rightarrow> ('w, unit) prog"
  RootPath :: string

definition makeMntPath :: "'w quotaed_cfg \<Rightarrow> string \<Rightarrow> string" where
  "makeMntPath cfg i = path_join [RootPath cfg, ''aufs'', ''mnt'', i]"

definition makeDiffPath :: "'w quotaed_cfg \<Rightarrow> string \<Rightarrow> string" where
  "makeDiffPath cfg i = path_join [RootPath cfg, ''aufs'', ''diff'', i]"

definition GetDiffLayerPath :: "string \<Rightarrow> string" where
  "GetDiffLayerPath rootFSPath = replace_first rootFSPath ''/mnt/'' ''/diff/''"

definition GetMntPath :: "'w quotaed_cfg \<Rightarrow> layer_id \<Rightarrow> string" where
  "GetMntPath cfg i = makeMntPath cfg (GraphID i)"

definition GetQuotaed :: "'w quotaed_cfg \<Rightarrow> string \<Rightarrow> string \<Rightarrow> int64 \<Rightarrow> ('w, string) prog" where
  "GetQuotaed cfg i mountlabel quota =
     (let path = makeDiffPath cfg i in
      bindE (handleE (bs_Create cfg i quota)
        (\<lambda>e. throw (Errorf (''creating backingstore file: '' @ err_msg e))) ret) (\<lambda>bsPath.
      bindE (handleE (lm_MountFile cfg bsPath path)
        (\<lambda>e. bindE (ignoreE (bs_Delete cfg i)) (\<lambda>_.
             throw (Errorf (''mounting file: '' @ err_msg e)))) ret) (\<lambda>_.
      handleE (drv_Get (GraphDriver cfg) i mountlabel)
        (\<lambda>e. bindE (ignoreE (lm_Unmount cfg path)) (\<lambda>_.
             bindE (ignoreE (bs_Delete cfg i)) (\<lambda>_.
             throw (Errorf (''getting mountpath: '' @ err_msg e)))))
        ret)))"

definition quotaed_Put :: "'w quotaed_cfg \<Rightarrow> string \<Rightarrow> ('w, unit) prog" where
  "quotaed_Put cfg i =
     bindE (ignoreE (drv_Put (GraphDriver cfg) i)) (\<lambda>_.
     bindE (RetrierRun cfg (UnmountFunc cfg (makeMntPath cfg i))) (\<lambda>_.
     bindE (handleE (lm_Unmount cfg (makeDiffPath cfg i))
       (\<lambda>e. throw (Errorf (''unmounting the loop device: '' @ err_msg e))) ret) (\<lambda>_.
     handleE (bs_Delete cfg i)
       (\<lambda>e. throw (Errorf (''removing the backing store: '' @ err_msg e))) ret)))"

definition quotaed_driver :: "'w quotaed_cfg \<Rightarrow> 'w driver" where
  "quotaed_driver cfg = (GraphDriver cfg)\<lparr>drv_Put := quotaed_Put cfg,
     drv_GetQuotaed := Some (GetQuotaed cfg)\<rparr>"

text \<open>The parts as \<open>Wire\<close> of \<open>src/rootfs_provider/rootfs_provider.go\<close> puts them together.\<close>

definition wired_cfg ::
  "'k env \<Rightarrow> ((('k, 'z) host_state_scheme, unit) prog \<Rightarrow> (('k, 'z) host_state_scheme, unit) prog) \<Rightarrow>
    string \<Rightarrow> ('k, 'z) host_state_scheme quotaed_cfg" where
  "wired_cfg env run graphRoot = \<lparr>
     GraphDriver = aufs_driver env (path_join [graphRoot, ''aufs'']),
     UnmountFunc = unmount_mnt env,
     bs_Create = backing_Create env (path_join [graphRoot, ''backing_stores'']),
     bs_Delete = backing_Delete (path_join [graphRoot, ''backing_stores'']),
     lm_MountFile = loop_MountFile env,
     lm_Unmount = loop_Unmount env run,
     RetrierRun = run,
     RootPath = graphRoot\<rparr>"

definition wired_graph ::
  "'k env \<Rightarrow> ((('k, 'z) host_state_scheme, unit) prog \<Rightarrow> (('k, 'z) host_state_scheme, unit) prog) \<Rightarrow>
    (reader \<Rightarrow> go_error + reader) \<Rightarrow> string \<Rightarrow> ('k, 'z) host_state_scheme graph" where
  "wired_graph env run decompress graphRoot = \<lparr>
     root = graphRoot,
     driver = quotaed_driver (wired_cfg env run graphRoot),
     DecompressStream = decompress\<rparr>"

section \<open>The parts give a driver\<close>

locale quotaed_parts = wrapped: graph_driver "GraphDriver cfg"
  for cfg :: "'z graph_state_scheme quotaed_cfg" +
  assumes Unmount_frame: "frame gview (RetrierRun cfg (UnmountFunc cfg p))"
    and Unmount_calm: "calm (RetrierRun cfg (UnmountFunc cfg p))"
    and lm_Unmount_frame: "frame gview (lm_Unmount cfg p)" and lm_Unmount_calm: "calm (lm_Unmount cfg p)"
    and bs_Delete_frame: "frame gview (bs_Delete cfg i)" and bs_Delete_calm: "calm (bs_Delete cfg i)"
begin

lemma quotaed_Put_frame: "frame gview (quotaed_Put cfg i)"
  unfolding quotaed_Put_def
  by (intro frame_rules Unmount_frame wrapped.Put_frame lm_Unmount_frame bs_Delete_frame)

lemma quotaed_Put_calm: "calm (quotaed_Put cfg i)"
  unfolding quotaed_Put_def
  by (intro calm_rules Unmount_calm wrapped.Put_calm lm_Unmount_calm bs_Delete_calm)

end

sublocale quotaed_parts \<subseteq> graph_driver "quotaed_driver cfg"
  by unfold_locales
    (auto simp: quotaed_driver_def quotaed_Put_frame quotaed_Put_calm wrapped.Create_frame
      wrapped.Remove_frame wrapped.Get_frame wrapped.ApplyDiff_frame wrapped.Remove_calm
      wrapped.Create_calm wrapped.ApplyDiff_calm dest: wrapped.ApplyDiff_size)

section \<open>The wired parts\<close>

context quotaed_parts
begin

lemma driver_contract: "graph_driver (quotaed_driver cfg)"
  by unfold_locales

end

text \<open>Mounting and unmounting change the kernel only: neither the graph nor a file.\<close>

definition hview where
  "hview w = (files w, gview w)"

lemma frame_hview: "frame hview m \<Longrightarrow> frame gview m \<and> frame files m"
  by (simp add: frame_def hview_def)

lemma frame_hview_kernel: "frame hview (on_kernel f)"
  by (simp add: frame_def on_kernel_def hview_def gview_def split: prod.split)

lemma aufs_Unmount_rules: "frame hview (aufs_Unmount env p)" "calm (aufs_Unmount env p)"
  unfolding aufs_Unmount_def by (intro frame_rules frame_hview_kernel) (intro calm_rules)

lemma loop_umount_once_rules:
  "frame hview (loop_umount_once env p)" "calm (loop_umount_once env p)"
  unfolding loop_umount_once_def by (intro frame_rules frame_hview_kernel) (intro calm_rules)

lemma unmount_mnt_rules:
  "frame hview (unmount_mnt env p)" "calm (unmount_mnt env p)"
  unfolding unmount_mnt_def isMountPoint_def
  by (intro frame_rules frame_hview_kernel aufs_Unmount_rules) (intro calm_rules aufs_Unmount_rules)

lemma loop_Unmount_rules:
  assumes "retrier_ok hview run"
  shows "frame hview (loop_Unmount env run p)" "calm (loop_Unmount env run p)"
proof -
  have "frame hview (run (loop_umount_once env p))" "calm (run (loop_umount_once env p))"
    using assms by (simp_all add: retrier_ok_def loop_umount_once_rules)
  then show "frame hview (loop_Unmount env run p)" "calm (loop_Unmount env run p)"
    unfolding loop_Unmount_def
    by (simp_all add: frame_handleE frame_throw frame_ret calm_handleE calm_throw calm_ret)
qed

lemma backing_Delete_rules:
  "frame gview (backing_Delete rootPath i)" "calm (backing_Delete rootPath i)"
  unfolding backing_Delete_def
  by (intro frame_rules frame_gview_os) (intro calm_rules)

lemma wired_parts:
  assumes "retrier_ok hview run"
  shows "quotaed_parts (wired_cfg env run graphRoot)"
proof -
  have "frame hview (run (unmount_mnt env p)) \<and> calm (run (unmount_mnt env p))" for p
    using assms by (simp add: retrier_ok_def unmount_mnt_rules)
  then show ?thesis
    using aufs.graph_driver_axioms loop_Unmount_rules [OF assms]
    by (auto simp: quotaed_parts_def quotaed_parts_axioms_def wired_cfg_def backing_Delete_rules
        frame_hview)
qed

text \<open>
  The repository's own retrier, trying 200 times at intervals of half a second, for which the
  clock is a step of the kernel.
\<close>

definition clock_step :: "('k \<Rightarrow> 'k) \<Rightarrow> int64 \<Rightarrow> ('k, 'z) host_state_scheme \<Rightarrow> ('k, 'z) host_state_scheme" where
  "clock_step tick d w = w\<lparr>kernel := tick (kernel w)\<rparr>"

definition shed_retrier ::
  "('k \<Rightarrow> 'k) \<Rightarrow> (('k, 'z) host_state_scheme, unit) prog \<Rightarrow> (('k, 'z) host_state_scheme, unit) prog" where
  "shed_retrier tick = Retry 100000000000 500000000 (clock_step tick)"

lemma shed_retrier_ok: "retrier_ok hview (shed_retrier tick)"
  unfolding shed_retrier_def by (rule Retry_ok) (simp_all add: clock_step_def hview_def gview_def)

interpretation wired: quotaed_parts "wired_cfg env (shed_retrier tick) graphRoot" for env tick graphRoot
  by (rule wired_parts [OF shed_retrier_ok])

lemma wired_driver:
  assumes "retrier_ok hview run"
  shows "graph_driver (quotaed_driver (wired_cfg env run graphRoot))"
  by (rule quotaed_parts.driver_contract [OF wired_parts [OF assms]])

lemma wired_docker_store:
  assumes "retrier_ok hview run"
  shows "docker_store (wired_graph env run decompress graphRoot)"
  using wired_driver [OF assms] by (simp add: docker_store_def wired_graph_def)

interpretation shed: docker_store "wired_graph env (shed_retrier tick) decompress graphRoot"
  for env tick decompress graphRoot
  by (rule wired_docker_store [OF shed_retrier_ok])

section \<open>The backing store\<close>

lemma no_faults_gview: "gview w' = gview w \<Longrightarrow> no_faults w' = no_faults w"
  by (simp add: gview_eq no_faults_def)

lemma remove_all_gone:
  "remove_all p w = (Inr (), w') \<Longrightarrow> files w' (path_clean p) = None"
  by (auto simp: remove_all_def elim!: bindE_InrE)

lemma backing_Delete_gone:
  assumes "no_faults w" and "ignoreE (backing_Delete rootPath i) w = (x, w')"
  shows "x = Inr () \<and> files w' (path_clean (backingStorePath rootPath i)) = None"
  using assms
  by (auto simp: backing_Delete_def ignoreE_def handleE_def remove_all_def bindE_def)

lemma frame_backing_Create: "frame gview (backing_Create env rootPath i quota)"
  unfolding backing_Create_def Let_def
  by (intro frame_rules frame_gview_files [OF frame_os_create] frame_gview_files [OF frame_os_truncate])

lemma aufs_Get_calm: "calm (aufs_Get env rootPath i mountLabel)"
  unfolding aufs_Get_def by (intro calm_rules getParentIds_rules aufs_mount_rules)

lemma frame_kernel_backing_Delete: "frame kernel (backing_Delete rootPath i)"
  by (auto simp: frame_def backing_Delete_def remove_all_def os_check_def modW_def bindE_def handleE_def throw_def
      ret_def split: option.splits)

lemma backing_Delete_ignored:
  assumes "no_faults w"
  shows "\<exists>w'. ignoreE (backing_Delete rootPath i) w = (Inr (), w') \<and> kernel w' = kernel w \<and>
    files w' (path_clean (backingStorePath rootPath i)) = None"
proof -
  obtain x w' where run: "ignoreE (backing_Delete rootPath i) w = (x, w')"
    by (cases "ignoreE (backing_Delete rootPath i) w")
  with backing_Delete_gone [OF assms run] frameD [OF frame_ignoreE [OF frame_kernel_backing_Delete] run]
  show ?thesis by simp
qed

lemma loop_Unmount_ignored:
  assumes "retrier_ok hview run" and "no_faults w"
  shows "\<exists>w'. ignoreE (loop_Unmount env run p) w = (Inr (), w') \<and> no_faults w' \<and> w' = snd (loop_Unmount env run p w)"
proof -
  obtain x w' where run: "ignoreE (loop_Unmount env run p) w = (x, w')" by (cases "ignoreE (loop_Unmount env run p) w")
  have "frame gview (ignoreE (loop_Unmount env run p))"
    using loop_Unmount_rules(1) [OF assms(1)] frame_hview frame_ignoreE by blast
  from no_faults_gview [OF frameD [OF this run]] assms(2) have "no_faults w'" by simp
  moreover have "x = Inr ()" "w' = snd (loop_Unmount env run p w)"
    using run calmD [OF loop_Unmount_rules(2) [OF assms(1)]]
    by (auto simp: ignoreE_def handleE_def split: prod.splits sum.splits failure.splits)
  ultimately show ?thesis using run by simp
qed

text \<open>
  C31: What \<open>GetQuotaed\<close> leaves behind.  When the backing store of a layer was made but mounting it
  fails, \<open>GetQuotaed\<close> returns an error and the file is gone.  When it was mounted but mounting the layer
  on top of it fails, \<open>GetQuotaed\<close> returns an error, the file is gone, and what the kernel has mounted is
  what unmounting the loop device left.  It succeeds exactly when both mounts do, with the wrapped
  driver's path.
\<close>

theorem GetQuotaed_cleans_up:
  assumes "retrier_ok hview run" and "no_faults w"
    and "backing_Create env (path_join [r, ''backing_stores'']) i quota w = (Inr path, w1)"
    and "loop_MountFile env path (makeDiffPath (wired_cfg env run r) i) w1 = (mnt, w2)"
    and "drv_Get (GraphDriver (wired_cfg env run r)) i mountLabel w2 = (got, w3)"
    and "GetQuotaed (wired_cfg env run r) i mountLabel quota w = (x, w')"
  shows "case mnt of
      Inl _ \<Rightarrow> (\<exists>e. mnt = Inl (Err e) \<and> x = Inl (Err (Errorf (''mounting file: '' @ err_msg e)))) \<and>
        files w' (path_clean (backingStorePath (path_join [r, ''backing_stores'']) i)) = None \<and>
        kernel w' = kernel w2
    | Inr _ \<Rightarrow> (case got of
        Inl _ \<Rightarrow> (\<exists>e. got = Inl (Err e) \<and> x = Inl (Err (Errorf (''getting mountpath: '' @ err_msg e)))) \<and>
          files w' (path_clean (backingStorePath (path_join [r, ''backing_stores'']) i)) = None \<and>
          kernel w' = kernel (snd (loop_Unmount env run (makeDiffPath (wired_cfg env run r) i) w3))
      | Inr p \<Rightarrow> x = Inr p \<and> w' = w3)"
proof -
  let ?cfg = "wired_cfg env run r" and ?bs = "path_join [r, ''backing_stores'']"
  let ?diff = "makeDiffPath ?cfg i"
  note get = assms(5) [unfolded wired_cfg_def quotaed_cfg.simps aufs_driver_def driver.simps]
  have frame2: "frame gview (loop_MountFile env path ?diff)" and calm2: "calm (loop_MountFile env path ?diff)"
    unfolding loop_MountFile_def by (intro frame_rules, intro calm_rules)
  from no_faults_gview [OF frameD [OF frame_backing_Create assms(3)]] no_faults_gview [OF frameD [OF frame2 assms(4)]] assms(2)
  have nf2: "no_faults w2" by blast
  have get_rules: "frame gview (aufs_Get env (path_join [r, ''aufs'']) i mountLabel)"
    "calm (aufs_Get env (path_join [r, ''aufs'']) i mountLabel)"
    using aufs.Get_frame aufs_Get_calm by (simp_all add: aufs_driver_def)
  from no_faults_gview [OF frameD [OF get_rules(1) get]] nf2 have nf3: "no_faults w3" by simp
  have run: "GetQuotaed ?cfg i mountLabel quota w = bindE (handleE (\<lambda>_. (mnt, w2))
      (\<lambda>e. bindE (ignoreE (backing_Delete ?bs i)) (\<lambda>_. throw (Errorf (''mounting file: '' @ err_msg e)))) ret) (\<lambda>_.
      handleE (aufs_Get env (path_join [r, ''aufs'']) i mountLabel)
        (\<lambda>e. bindE (ignoreE (loop_Unmount env run ?diff)) (\<lambda>_.
             bindE (ignoreE (backing_Delete ?bs i)) (\<lambda>_.
             throw (Errorf (''getting mountpath: '' @ err_msg e))))) ret) w1"
    using assms(3,4) by (simp add: GetQuotaed_def Let_def bindE_def handleE_def wired_cfg_def aufs_driver_def)
  show ?thesis
  proof (cases mnt)
    case (Inl f)
    with assms(4) calmD [OF calm2] obtain e where e: "f = Err e" by (cases f) auto
    obtain w5 where five: "ignoreE (backing_Delete ?bs i) w2 = (Inr (), w5)" "kernel w5 = kernel w2"
      "files w5 (path_clean (backingStorePath ?bs i)) = None" using backing_Delete_ignored [OF nf2] by blast
    with run Inl e assms(6) show ?thesis by (auto simp: bindE_def handleE_def)
  next
    case up: (Inr u)
    show ?thesis
    proof (cases got)
      case (Inr p)
      with run up get assms(6) show ?thesis by (simp add: bindE_def handleE_def)
    next
      case (Inl f)
      with get calmD [OF get_rules(2)] obtain e where e: "f = Err e" by (cases f) auto
      obtain w4 where four: "ignoreE (loop_Unmount env run ?diff) w3 = (Inr (), w4)" "no_faults w4"
        and w4: "w4 = snd (loop_Unmount env run ?diff w3)" using loop_Unmount_ignored [OF assms(1) nf3] by blast
      obtain w5 where "ignoreE (backing_Delete ?bs i) w4 = (Inr (), w5)" "kernel w5 = kernel w4"
        "files w5 (path_clean (backingStorePath ?bs i)) = None" using backing_Delete_ignored [OF four(2)] by blast
      with run up Inl e get four(1) w4 assms(6) show ?thesis by (auto simp: bindE_def handleE_def)
    qed
  qed
qed

text \<open>A host on which only mounting fails, and a root with an empty directory of backing stores.\<close>

definition no_mount_env :: "unit env" where
  "no_mount_env = idle_env\<lparr>exec := \<lambda>args k. (if hd args = ''mount'' then Inl (Errorf ''mount failed'') else Inr [], k)\<rparr>"

definition backing_world :: "unit host_state" where
  "backing_world = (counted Map.empty)\<lparr>files := [''/g'' \<mapsto> new_inode Directory,
     ''/g/backing_stores'' \<mapsto> new_inode Directory]\<rparr>"

lemma backing_paths:
  "path_join [''/g'', ''backing_stores''] = ''/g/backing_stores''"
  "path_join [''/g/backing_stores'', ''i''] = ''/g/backing_stores/i''"
  "path_clean ''/g/backing_stores/i'' = ''/g/backing_stores/i''" "clean_abs ''/g/backing_stores/i''"
  "path_dir ''/g/backing_stores/i'' = ''/g/backing_stores''"
  by code_simp+

lemma no_faults_backing_world [simp]: "no_faults backing_world" "no_faults (put_file p x backing_world)"
  by (simp_all add: no_faults_def backing_world_def counted_def put_file_def)

lemma os_create_new:
  assumes "no_faults w" and "clean_abs p" and "files w p = None" and "is_dir_at (files w) (path_dir p)"
  shows "os_create p w = (Inr p, put_file p (Some (new_inode (Regular []))) w)"
proof -
  have "not_link w p" using assms(3) by (simp add: not_link_def)
  with assms show ?thesis by (simp add: os_create_def bindE_def real_path_ok [OF assms(2)])
qed

lemma backing_store_free:
  "files backing_world ''/g/backing_stores/i'' = None" "is_dir_at (files backing_world) ''/g/backing_stores''"
  by (simp_all add: backing_world_def is_dir_at_def)

lemma GetQuotaed_cleans_up_witness:
  "\<exists>w'. GetQuotaed (wired_cfg no_mount_env (shed_retrier id) ''/g'') ''i'' [] 9 backing_world =
      (Inl (Err (Errorf ''mounting file: mounting file: mount failed'')), w') \<and> files w' ''/g/backing_stores/i'' = None"
proof -
  let ?p = "''/g/backing_stores/i''"
  let ?cfg = "wired_cfg no_mount_env (shed_retrier id) ''/g'' :: unit host_state quotaed_cfg"
  let ?w0 = "put_file ?p (Some (new_inode (Regular []))) backing_world"
  have create: "os_create ?p backing_world = (Inr ?p, ?w0)"
    by (rule os_create_new) (simp_all add: backing_paths backing_store_free)
  have "not_link ?w0 ?p" by (simp add: not_link_def new_inode_def)
  from real_path_ok [OF backing_paths(4) this] obtain w1 where trunc: "os_truncate ?p 9 ?w0 = (Inr (), w1)"
    by (simp add: os_truncate_def bindE_def new_inode_def)
  have made: "\<exists>w2. backing_Create no_mount_env ''/g/backing_stores'' ''i'' 9 backing_world = (Inr ?p, w2)"
    by (simp add: backing_Create_def Let_def bindE_def handleE_def backingStorePath_def backing_paths create trunc
        on_kernel_def no_mount_env_def lift_error_def)
  then obtain w2 where w2: "backing_Create no_mount_env ''/g/backing_stores'' ''i'' 9 backing_world = (Inr ?p, w2)" by blast
  obtain got w4 where got: "drv_Get (GraphDriver ?cfg) ''i'' [] w2 = (got, w4)" by (cases "drv_Get (GraphDriver ?cfg) ''i'' [] w2")
  have mount: "loop_MountFile no_mount_env ?p (makeDiffPath ?cfg ''i'') w2 = (Inl (Err (Errorf ''mounting file: mount failed'')), w2)"
    by (simp add: loop_MountFile_def handleE_def on_kernel_def no_mount_env_def lift_error_def throw_def)
  obtain x w' where run: "GetQuotaed ?cfg ''i'' [] 9 backing_world = (x, w')" by (cases "GetQuotaed ?cfg ''i'' [] 9 backing_world")
  from GetQuotaed_cleans_up [OF shed_retrier_ok no_faults_backing_world(1) _ mount got run, unfolded backing_paths, OF w2] run
  show ?thesis by (simp add: backingStorePath_def backing_paths)
qed

text \<open>
  A zero quota leaves its backing store.  The file is created before the quota is looked at, so
  that \<open>GetQuotaed\<close> with a quota of zero fails and leaves an empty file behind.
\<close>

theorem GetQuotaed_zero_quota:
  assumes "no_faults w" and "clean_abs p" and "p = backingStorePath (path_join [r, ''backing_stores'']) i"
    and "files w p = None" and "is_dir_at (files w) (path_dir p)"
  shows "\<exists>e. GetQuotaed (wired_cfg env run r) i mountLabel 0 w =
    (Inl (Err e), put_file p (Some (new_inode (Regular []))) w)"
  using os_create_new [OF assms(1,2,4,5)]
  by (simp add: GetQuotaed_def Let_def bindE_def handleE_def wired_cfg_def backing_Create_def flip: assms(3))

lemma GetQuotaed_zero_quota_witness:
  "files (snd (GetQuotaed (wired_cfg idle_env (shed_retrier id) ''/g'') ''i'' [] 0 backing_world))
     ''/g/backing_stores/i'' \<noteq> None"
proof -
  have "''/g/backing_stores/i'' = backingStorePath (path_join [''/g'', ''backing_stores'']) ''i''"
    unfolding backingStorePath_def backing_paths ..
  moreover have "is_dir_at (files backing_world) (path_dir ''/g/backing_stores/i'')"
    unfolding backing_paths by (rule backing_store_free)
  ultimately obtain e where e: "GetQuotaed (wired_cfg idle_env (shed_retrier id) ''/g'') ''i'' [] 0 backing_world =
      (Inl (Err e), put_file ''/g/backing_stores/i'' (Some (new_inode (Regular []))) backing_world)"
    using GetQuotaed_zero_quota [OF no_faults_backing_world(1) backing_paths(4) _ backing_store_free(1)] by blast
  show ?thesis unfolding e by simp
qed

text \<open>
  Releasing a layer removes its backing store.  When \<open>Put\<close> of the quotaed driver succeeds, the
  backing store of the layer is gone, whatever the wrapped driver's own \<open>Put\<close> reported.
\<close>

theorem quotaed_Put_removes_store:
  assumes "quotaed_Put (wired_cfg env run r) i w = (Inr (), w')"
  shows "files w' (path_clean (backingStorePath (path_join [r, ''backing_stores'']) i)) = None"
  using assms
  by (auto simp: quotaed_Put_def wired_cfg_def backing_Delete_def elim!: bindE_InrE handleE_InrE
      dest: remove_all_gone)

definition unmounted_env :: "unit env" where
  "unmounted_env = idle_env\<lparr>exec := \<lambda>args k. (if hd args = ''mountpoint'' then Inl (Errorf ''not a mountpoint'') else Inr [], k)\<rparr>"

lemma quotaed_Put_removes_store_witness:
  "\<exists>w'. quotaed_Put (wired_cfg unmounted_env id ''/g'') ''i'' backing_world = (Inr (), w') \<and>
    files w' ''/g/backing_stores/i'' = None"
proof -
  let ?cfg = "wired_cfg unmounted_env id ''/g'' :: unit host_state quotaed_cfg"
  have put: "\<exists>w1. ignoreE (aufs_Put unmounted_env (path_join [''/g'', ''aufs'']) ''i'') backing_world = (Inr (), w1) \<and>
      no_faults w1 \<and> kernel w1 = ()" (is "\<exists>w1. ?put w1")
  proof -
    obtain x w1 where run: "ignoreE (aufs_Put unmounted_env (path_join [''/g'', ''aufs'']) ''i'') backing_world = (x, w1)"
      by (cases "ignoreE (aufs_Put unmounted_env (path_join [''/g'', ''aufs'']) ''i'') backing_world")
    have "frame gview (ignoreE (aufs_Put unmounted_env (path_join [''/g'', ''aufs'']) ''i''))"
      using aufs.Put_frame by (intro frame_rules) (simp add: aufs_driver_def)
    from no_faults_gview [OF frameD [OF this run]] have "no_faults w1" by simp
    moreover have "calm (aufs_Put unmounted_env (path_join [''/g'', ''aufs'']) ''i'')"
      using aufs.Put_calm [of unmounted_env] by (simp add: aufs_driver_def)
    from run calmD [OF this] have "x = Inr ()"
      by (auto simp: ignoreE_def handleE_def split: prod.splits sum.splits failure.splits)
    ultimately show ?thesis using run by simp
  qed
  then obtain w1 where w1: "?put w1" by blast
  have "\<exists>w'. quotaed_Put ?cfg ''i'' backing_world = (Inr (), w')"
    using w1 by (simp add: quotaed_Put_def bindE_def handleE_def wired_cfg_def aufs_driver_def unmount_mnt_def
        isMountPoint_def loop_Unmount_def loop_umount_once_def backing_Delete_def remove_all_def on_kernel_def
        unmounted_env_def lift_error_def no_faults_def os_check_def)
  then obtain w' where "quotaed_Put ?cfg ''i'' backing_world = (Inr (), w')" by blast
  with quotaed_Put_removes_store [OF this] show ?thesis by (simp add: backingStorePath_def backing_paths)
qed

end
