(* ===== verification/Aufs_Cake.thy ===== *)
theory Aufs_Cake
  imports Quotaed_Driver
begin

text \<open>
  \<open>layercake.AufsCake\<close> (\<open>src/layercake/aufs.go\<close>): a cake that wraps another one and keeps, in
  two directories of small text files below the graph root, which namespaced copy was made from
  which layer.  \<open>child-parent/c\<close> holds the ID of the layer that \<open>c\<close> is a copy of;
  \<open>parent-child/p\<close> holds the IDs of the copies of \<open>p\<close>, one per line.

  The embedded cake is a record and the wrapper an update of it.  The locale \<open>metadata_store\<close>
  extends the contract of the wrapped store by what the wrapper needs (it leaves the metadata
  files alone, and does not depend on files), and shows that the wrapper is a layer store again,
  in which a copy counts as a child of the layer it was made from.
\<close>

section \<open>The metadata files\<close>

definition parentChildDir :: "string \<Rightarrow> string" where
  "parentChildDir graphRoot = path_join [graphRoot, ''garden-info'', ''parent-child'']"

definition childParentDir :: "string \<Rightarrow> string" where
  "childParentDir graphRoot = path_join [graphRoot, ''garden-info'', ''child-parent'']"

text \<open>\<open>readInfo\<close> ignores its path argument and always reads from the child-parent directory.\<close>

definition readInfo :: "string \<Rightarrow> string \<Rightarrow> layer_id \<Rightarrow> ('z os_state_scheme, string) prog" where
  "readInfo graphRoot path i =
     handleE (read_file (path_join [childParentDir graphRoot, GraphID i]))
       (\<lambda>e. if is_not_exist e then ret [] else throw e) ret"

definition hasInfo :: "string \<Rightarrow> layer_id \<Rightarrow> ('z os_state_scheme, bool) prog" where
  "hasInfo path i =
     handleE (os_stat (path_join [path, GraphID i]))
       (\<lambda>e. if is_not_exist e then ret False else throw e) (\<lambda>_. ret True)"

definition addInfo :: "string \<Rightarrow> string \<Rightarrow> string \<Rightarrow> ('z os_state_scheme, unit) prog" where
  "addInfo path file text =
     bindE (mkdir_all path) (\<lambda>_.
     bindE (open_append (path_join [path, file])) (\<lambda>handle.
     write_handle handle (text @ [newline])))"

definition removeInfo :: "string \<Rightarrow> string \<Rightarrow> string \<Rightarrow> ('z os_state_scheme, unit) prog" where
  "removeInfo path file text =
     (let filePath = path_join [path, file] in
      handleE (read_file filePath)
        (\<lambda>e. if is_not_exist e then ret () else throw e)
        (\<lambda>fileData.
          let finalGraphIDs = filter (\<lambda>i. i \<noteq> text \<and> i \<noteq> []) (split_on newline fileData) in
          bindE (remove_all filePath) (\<lambda>_.
          forE finalGraphIDs (\<lambda>i. addInfo path file i))))"

section \<open>The methods\<close>

definition aufs_cake_Create ::
  "'z os_state_scheme cake \<Rightarrow> (string list \<Rightarrow> ('z os_state_scheme, unit) prog) \<Rightarrow> string \<Rightarrow>
    layer_id \<Rightarrow> layer_id \<Rightarrow> string \<Rightarrow> ('z os_state_scheme, unit) prog" where
  "aufs_cake_Create cake runner graphRoot childID parentID i =
     (if \<not> is_namespaced childID then Create cake childID parentID i
      else
      bindE (hasInfo (childParentDir graphRoot) childID) (\<lambda>isAlreadyNamespaced.
      if isAlreadyNamespaced then throw (Errorf (GraphID childID @ '' already exists''))
      else
      bindE (Create cake childID (DockerImageID []) []) (\<lambda>_.
      bindE (Get cake childID) (\<lambda>_.
      bindE (Path cake parentID) (\<lambda>sourcePath.
      deferE (Unmount cake parentID) (
      bindE (Path cake childID) (\<lambda>destinationPath.
      bindE (runner [''sh'', ''-c'', ''cp -a '' @ sourcePath @ ''/. '' @ destinationPath]) (\<lambda>_.
      bindE (addInfo (parentChildDir graphRoot) (GraphID parentID) (GraphID childID)) (\<lambda>_.
      addInfo (childParentDir graphRoot) (GraphID childID) (GraphID parentID))))))))))"

definition aufs_cake_IsLeaf ::
  "'z os_state_scheme cake \<Rightarrow> string \<Rightarrow> layer_id \<Rightarrow> ('z os_state_scheme, bool) prog" where
  "aufs_cake_IsLeaf cake graphRoot i =
     bindE (IsLeaf cake i) (\<lambda>isDockerLeaf.
     if \<not> isDockerLeaf then ret False
     else bindE (hasInfo (parentChildDir graphRoot) i) (\<lambda>isParent. ret (\<not> isParent)))"

primrec not_parents ::
  "string \<Rightarrow> layer_id list \<Rightarrow> layer_id list \<Rightarrow> ('z os_state_scheme, layer_id list) prog" where
  "not_parents graphRoot [] leaves = ret leaves"
| "not_parents graphRoot (dockerLeaf # dockerLeaves) leaves =
     bindE (hasInfo (parentChildDir graphRoot) dockerLeaf) (\<lambda>isParent.
       not_parents graphRoot dockerLeaves (if isParent then leaves else leaves @ [dockerLeaf]))"

definition aufs_cake_GetAllLeaves ::
  "'z os_state_scheme cake \<Rightarrow> string \<Rightarrow> ('z os_state_scheme, layer_id list) prog" where
  "aufs_cake_GetAllLeaves cake graphRoot =
     bindE (GetAllLeaves cake) (\<lambda>dockerLeaves. not_parents graphRoot dockerLeaves [])"

definition aufs_cake_Get ::
  "'z os_state_scheme cake \<Rightarrow> string \<Rightarrow> layer_id \<Rightarrow> ('z os_state_scheme, image) prog" where
  "aufs_cake_Get cake graphRoot i =
     bindE (Get cake i) (\<lambda>img.
     if Parent img = [] then
       bindE (readInfo graphRoot (childParentDir graphRoot) i) (\<lambda>parentData.
       ret (img\<lparr>Parent := trim_space parentData\<rparr>))
     else ret img)"

definition aufs_cake_Remove ::
  "'z os_state_scheme cake \<Rightarrow> string \<Rightarrow> layer_id \<Rightarrow> ('z os_state_scheme, unit) prog" where
  "aufs_cake_Remove cake graphRoot i =
     bindE (Remove cake i) (\<lambda>_.
     bindE (readInfo graphRoot (childParentDir graphRoot) i) (\<lambda>parentData.
     let parentGraphID = trim_space parentData in
     handleE (os_remove (path_join [childParentDir graphRoot, GraphID i]))
       (\<lambda>e. if is_not_exist e then ret ()
            else throw (Errorf (''layercake: Remove failed to remove file '' @ err_msg e)))
       (\<lambda>_. removeInfo (parentChildDir graphRoot) parentGraphID (GraphID i))))"

definition aufs_cake ::
  "'z os_state_scheme cake \<Rightarrow> (string list \<Rightarrow> ('z os_state_scheme, unit) prog) \<Rightarrow> string \<Rightarrow>
    'z os_state_scheme cake" where
  "aufs_cake cake runner graphRoot = cake\<lparr>
     Create := aufs_cake_Create cake runner graphRoot,
     IsLeaf := aufs_cake_IsLeaf cake graphRoot,
     GetAllLeaves := aufs_cake_GetAllLeaves cake graphRoot,
     Get := aufs_cake_Get cake graphRoot,
     Remove := aufs_cake_Remove cake graphRoot\<rparr>"

section \<open>Paths of the metadata files\<close>

abbreviation child_file :: "string \<Rightarrow> string \<Rightarrow> string" where
  "child_file r i \<equiv> path_join [childParentDir r, i]"

abbreviation parent_file :: "string \<Rightarrow> string \<Rightarrow> string" where
  "parent_file r i \<equiv> path_join [parentChildDir r, i]"

lemma ValidateID_plain_name: "ValidateID i \<Longrightarrow> plain_name i"
  using ValidateID_plain_chars [of i] by (auto simp: plain_name_def ValidateID_def)

lemma plain_meta_names [simp]:
  "plain_name ''garden-info''" "plain_name ''parent-child''" "plain_name ''child-parent''"
  by (simp_all add: plain_name_def)

lemma meta_dirs:
  assumes "clean_abs r"
  obtains cs where "list_all plain_name cs" and "r = abs_path cs"
    and "parentChildDir r = abs_path (cs @ [''garden-info'', ''parent-child''])"
    and "childParentDir r = abs_path (cs @ [''garden-info'', ''child-parent''])"
  using assms by (rule clean_abs_comps)
    (simp add: parentChildDir_def childParentDir_def path_join_plain2)

lemma meta_files:
  assumes "clean_abs r"
  obtains cs where "list_all plain_name cs" and "r = abs_path cs"
    and "parentChildDir r = abs_path (cs @ [''garden-info'', ''parent-child''])"
    and "childParentDir r = abs_path (cs @ [''garden-info'', ''child-parent''])"
    and "\<And>i. plain_name i \<Longrightarrow> parent_file r i = abs_path (cs @ [''garden-info'', ''parent-child'', i])"
    and "\<And>i. plain_name i \<Longrightarrow> child_file r i = abs_path (cs @ [''garden-info'', ''child-parent'', i])"
proof (rule meta_dirs [OF assms])
  fix cs
  assume cs: "list_all plain_name cs" "r = abs_path cs"
    "parentChildDir r = abs_path (cs @ [''garden-info'', ''parent-child''])"
    "childParentDir r = abs_path (cs @ [''garden-info'', ''child-parent''])"
  show thesis by (rule that [OF cs]) (use cs(1) in \<open>simp_all add: cs(3,4) path_join_plain\<close>)
qed

lemma clean_meta:
  assumes "clean_abs r"
  shows "clean_abs (parentChildDir r)" "clean_abs (childParentDir r)"
    "plain_name i \<Longrightarrow> clean_abs (parent_file r i)" "plain_name i \<Longrightarrow> clean_abs (child_file r i)"
proof -
  show d: "clean_abs (parentChildDir r)" "clean_abs (childParentDir r)"
    by (rule meta_dirs [OF assms], simp add: clean_abs_abs_path)+
  show "plain_name i \<Longrightarrow> clean_abs (parent_file r i)" "plain_name i \<Longrightarrow> clean_abs (child_file r i)"
    using d by (simp_all add: clean_abs_join)
qed

lemma meta_files_distinct:
  assumes "clean_abs r" and "plain_name i" and "plain_name j"
  shows "parent_file r i \<noteq> child_file r j" "parent_file r i = parent_file r j \<longleftrightarrow> i = j"
    "child_file r i = child_file r j \<longleftrightarrow> i = j"
  by (rule meta_files [OF assms(1)]; use assms(2,3) in \<open>simp add: abs_path_inject\<close>)+

lemma meta_file_not_dir:
  assumes "clean_abs r" and "plain_name i"
    and "f \<in> {parent_file r i, child_file r i}" and "d \<in> {parentChildDir r, childParentDir r}"
  shows "f \<notin> set (path_prefixes d)"
proof (rule meta_files [OF assms(1)])
  fix cs
  assume cs: "list_all plain_name cs"
    "parentChildDir r = abs_path (cs @ [''garden-info'', ''parent-child''])"
    "childParentDir r = abs_path (cs @ [''garden-info'', ''child-parent''])"
    and f: "\<And>i. plain_name i \<Longrightarrow> parent_file r i = abs_path (cs @ [''garden-info'', ''parent-child'', i])"
    "\<And>i. plain_name i \<Longrightarrow> child_file r i = abs_path (cs @ [''garden-info'', ''child-parent'', i])"
  have short: "abs_path (cs @ [''garden-info'', x, i]) \<notin> set (path_prefixes (abs_path (cs @ [''garden-info'', y])))"
    if "plain_name x" "plain_name y" for x y
    by (rule path_prefixes_short) (use cs(1) assms(2) that in simp_all)
  with assms(3,4) f [OF assms(2)] cs(2,3) show ?thesis by auto
qed

section \<open>Adding and removing lines\<close>

definition lines_text :: "string list \<Rightarrow> string" where
  "lines_text js = concat (map (\<lambda>j. j @ [newline]) js)"

lemma lines_text_simps [simp]:
  "lines_text [] = []" "lines_text (j # js) = j @ newline # lines_text js"
  "lines_text (js @ ks) = lines_text js @ lines_text ks"
  by (simp_all add: lines_text_def)

text \<open>Splitting the text gives the lines back, with an empty string after the last.\<close>

lemma split_lines_text: "\<forall>j \<in> set js. no_space j \<Longrightarrow> split_on newline (lines_text js) = js @ [[]]"
  by (induction js) (simp_all add: split_on_append no_space_newline)

text \<open>What the operations need of a directory of info files and a name in it.\<close>

definition info_dir :: "string \<Rightarrow> bool" where
  "info_dir d \<longleftrightarrow> (\<exists>cs. d = abs_path cs \<and> cs \<noteq> [] \<and> list_all plain_name cs)"

lemma info_dirs: "clean_abs r \<Longrightarrow> info_dir (parentChildDir r) \<and> info_dir (childParentDir r)"
  by (rule meta_dirs, assumption) (auto simp: info_dir_def)

lemma info_dir_file:
  assumes "info_dir d" and "plain_name n"
  shows "clean_abs d" and "clean_abs (path_join [d, n])" and "path_dir (path_join [d, n]) = d"
    and "path_join [d, n] \<notin> set (path_prefixes d)"
proof -
  from assms(1) obtain cs where cs: "d = abs_path cs" "cs \<noteq> []" "list_all plain_name cs"
    by (auto simp: info_dir_def)
  show d: "clean_abs d" using cs by (simp add: clean_abs_abs_path)
  show "clean_abs (path_join [d, n])" by (rule clean_abs_join [OF d assms(2)])
  show "path_dir (path_join [d, n]) = d" by (rule path_dir_join [OF d assms(2)])
  show "path_join [d, n] \<notin> set (path_prefixes d)"
    using cs assms(2) by (simp add: path_join_plain path_prefixes_short)
qed

lemma addInfo_ok:
  assumes "no_faults w" and "info_dir d" and "dir_ready d w" and "plain_name n"
    and "text_at w (path_join [d, n]) s"
  shows "\<exists>w'. addInfo d n t w = (Inr (), w') \<and> touches d (path_join [d, n]) w w' \<and>
    content w' (path_join [d, n]) = Some (s @ t @ [newline])"
proof -
  note f = info_dir_file [OF assms(2,4)]
  let ?w = "fill_dirs (path_prefixes d) w"
  have "mkdir_all d w = (Inr (), ?w)" by (rule mkdir_all_ok [OF assms(1) f(1) assms(3)])
  moreover have "is_dir_at (files ?w) (path_dir (path_join [d, n]))"
    using assms(2,3) f(3) fill_dirs_made [of d w] by (auto simp: info_dir_def)
  moreover have "text_at ?w (path_join [d, n]) s"
    using assms(5) f(4) by (simp add: text_at_def content_def)
  ultimately show ?thesis
    using append_ok [of ?w "path_join [d, n]" s "t @ [newline]" d] assms(1) f(2)
      touches_trans [OF touches_fill_dirs]
    by (auto simp: addInfo_def bindE_def)
qed

lemma addInfos_ok:
  assumes "no_faults w" and "info_dir d" and "dir_ready d w" and "plain_name n"
    and "text_at w (path_join [d, n]) s"
  shows "\<exists>w'. forE js (addInfo d n) w = (Inr (), w') \<and> touches d (path_join [d, n]) w w' \<and>
    (if js = [] then w' = w else content w' (path_join [d, n]) = Some (s @ lines_text js))"
  using assms(1,3,5)
proof (induction js arbitrary: w s)
  case (Cons j js)
  note f = info_dir_file [OF assms(2,4)]
  obtain w1 where w1: "addInfo d n j w = (Inr (), w1)" "touches d (path_join [d, n]) w w1"
    "content w1 (path_join [d, n]) = Some (s @ j @ [newline])"
    using addInfo_ok [OF Cons.prems(1) assms(2) Cons.prems(2) assms(4) Cons.prems(3)] by metis
  have "no_faults w1" "dir_ready d w1" "text_at w1 (path_join [d, n]) (s @ j @ [newline])"
    using touches_no_faults [OF w1(2)] touches_dir_ready [OF w1(2) f(4)] Cons.prems w1(3)
    by (auto simp: text_at_def)
  from Cons.IH [OF this] obtain w2 where w2: "forE js (addInfo d n) w1 = (Inr (), w2)"
    "touches d (path_join [d, n]) w1 w2"
    "if js = [] then w2 = w1 else content w2 (path_join [d, n]) = Some ((s @ j @ [newline]) @ lines_text js)"
    by blast
  have "content w2 (path_join [d, n]) = Some (s @ lines_text (j # js))"
    using w2(3) w1(3) by (auto split: if_splits)
  then show ?case using w1(1) w2(1) touches_trans [OF w1(2) w2(2)] by (simp add: bindE_def)
qed (simp add: touches_refl)

lemma removeInfo_ok:
  assumes "no_faults w" and "info_dir d" and "dir_ready d w" and "plain_name n"
    and "content w (path_join [d, n]) = Some (lines_text js)"
    and "\<forall>j \<in> set js. no_space j \<and> j \<noteq> []"
  shows "\<exists>w'. removeInfo d n t w = (Inr (), w') \<and> touches d (path_join [d, n]) w w' \<and>
    (let ks = filter (\<lambda>j. j \<noteq> t) js in
     if ks = [] then files w' (path_join [d, n]) = None
     else content w' (path_join [d, n]) = Some (lines_text ks))"
proof -
  note f = info_dir_file [OF assms(2,4)]
  let ?ks = "filter (\<lambda>j. j \<noteq> t) js"
  have "filter (\<lambda>i. i \<noteq> t \<and> i \<noteq> []) (js @ [[]]) = ?ks"
    using assms(6) by (auto intro: filter_cong)
  then have ks: "filter (\<lambda>i. i \<noteq> t \<and> i \<noteq> []) (split_on newline (lines_text js)) = ?ks"
    using split_lines_text [of js] assms(6) by simp
  obtain w1 where w1: "remove_all (path_join [d, n]) w = (Inr (), w1)"
    "touches d (path_join [d, n]) w w1" "files w1 (path_join [d, n]) = None"
    using touches_remove_all [OF assms(1) f(2)] by blast
  have "no_faults w1" "dir_ready d w1" "text_at w1 (path_join [d, n]) []"
    using touches_no_faults [OF w1(2)] touches_dir_ready [OF w1(2) f(4)] assms(1,3) w1(3)
    by (auto simp: text_at_def)
  from addInfos_ok [OF this(1) assms(2) this(2) assms(4) this(3), of ?ks] obtain w2 where
    w2: "forE ?ks (addInfo d n) w1 = (Inr (), w2)" "touches d (path_join [d, n]) w1 w2"
    "if ?ks = [] then w2 = w1 else content w2 (path_join [d, n]) = Some (lines_text ?ks)" by auto
  have "removeInfo d n t w = (Inr (), w2)"
    using read_file_ok [OF assms(1) f(2) assms(5)] w1(1) w2(1) ks
    by (simp add: removeInfo_def handleE_def bindE_def Let_def)
  moreover have "if ?ks = [] then files w2 (path_join [d, n]) = None
     else content w2 (path_join [d, n]) = Some (lines_text ?ks)"
    using w2(3) w1(3) by (auto split: if_splits)
  ultimately show ?thesis using touches_trans [OF w1(2) w2(2)] by (auto simp: Let_def)
qed

lemma hasInfo_ok:
  assumes "no_faults w" and "info_dir d" and "plain_name (GraphID i)"
    and "text_at w (path_join [d, GraphID i]) s"
  shows "hasInfo d i w = (Inr (files w (path_join [d, GraphID i]) \<noteq> None), w)"
proof -
  have "not_link w (path_join [d, GraphID i])"
    using assms(4) by (auto simp: text_at_def content_def not_link_def split: option.splits file_kind.splits)
  from os_stat_ok [OF assms(1) info_dir_file(2) [OF assms(2,3)] this] show ?thesis
    by (auto simp: hasInfo_def handleE_def split: option.splits)
qed

section \<open>The invariant of the metadata\<close>

text \<open>The layers that the child-parent files call copies of \<open>p\<close>.\<close>

definition copies :: "string \<Rightarrow> 'z os_state_scheme \<Rightarrow> string \<Rightarrow> string set" where
  "copies r w p = {i. ValidateID i \<and> content w (child_file r i) = Some (p @ [newline])}"

definition child_ok :: "string \<Rightarrow> (string \<rightharpoonup> image) \<Rightarrow> 'z os_state_scheme \<Rightarrow> string \<Rightarrow> bool" where
  "child_ok r L w i \<longleftrightarrow> files w (child_file r i) = None \<or>
     (\<exists>p img. ValidateID p \<and> content w (child_file r i) = Some (p @ [newline]) \<and>
        L i = Some img \<and> Parent img = [])"

definition parent_ok :: "string \<Rightarrow> 'z os_state_scheme \<Rightarrow> string \<Rightarrow> bool" where
  "parent_ok r w p \<longleftrightarrow> (\<exists>js. distinct js \<and> set js = copies r w p \<and>
     (if js = [] then files w (parent_file r p) = None
      else content w (parent_file r p) = Some (lines_text js)))"

text \<open>
  Only registered layers without a parent of their own have a child-parent file, it names a valid
  ID, and the parent-child file of a layer lists exactly its copies, and is absent without any.
\<close>

definition meta_inv :: "string \<Rightarrow> (string \<rightharpoonup> image) \<Rightarrow> 'z os_state_scheme \<Rightarrow> bool" where
  "meta_inv r L w \<longleftrightarrow> no_faults w \<and> dir_ready (parentChildDir r) w \<and> dir_ready (childParentDir r) w \<and>
     (\<forall>i. ValidateID i \<longrightarrow> child_ok r L w i \<and> parent_ok r w i)"

text \<open>The layers as the wrapper presents them: a copy has the layer it was made from as its parent.\<close>

definition recorded_parent :: "string \<Rightarrow> 'z os_state_scheme \<Rightarrow> string \<Rightarrow> string" where
  "recorded_parent r w i = (case content w (child_file r i) of None \<Rightarrow> [] | Some s \<Rightarrow> trim_space s)"

definition aufs_image :: "string \<Rightarrow> 'z os_state_scheme \<Rightarrow> image \<Rightarrow> image" where
  "aufs_image r w img =
     (if Parent img = [] then img\<lparr>Parent := recorded_parent r w (ID img)\<rparr> else img)"

definition aufs_layers ::
  "string \<Rightarrow> ('z os_state_scheme \<Rightarrow> (string \<rightharpoonup> image)) \<Rightarrow> 'z os_state_scheme \<Rightarrow> (string \<rightharpoonup> image)" where
  "aufs_layers r layers w i = map_option (aufs_image r w) (layers w i)"

lemma aufs_layers_cong:
  "layers w' = layers w \<Longrightarrow> (\<And>j img. layers w j = Some img \<Longrightarrow> aufs_image r w' img = aufs_image r w img) \<Longrightarrow>
    aufs_layers r layers w' = aufs_layers r layers w"
  by (rule ext) (simp add: aufs_layers_def map_option_case split: option.split)

lemma dom_aufs_layers [simp]: "dom (aufs_layers r layers w) = dom (layers w)"
  by (auto simp: aufs_layers_def dom_def)

lemma ID_aufs_image [simp]: "ID (aufs_image r w img) = ID img"
  by (simp add: aufs_image_def)

lemma trim_line: "ValidateID p \<Longrightarrow> trim_space (p @ [newline]) = p"
  by (simp add: trim_space_line ValidateID_no_space)

lemma child_cases:
  assumes "child_ok r L w i"
  obtains (absent) "files w (child_file r i) = None" and "recorded_parent r w i = []"
  | (present) p img where "ValidateID p" and "content w (child_file r i) = Some (p @ [newline])"
      and "recorded_parent r w i = p" and "L i = Some img" and "Parent img = []"
proof -
  from assms consider "files w (child_file r i) = None"
    | p img where "ValidateID p" "content w (child_file r i) = Some (p @ [newline])"
        "L i = Some img" "Parent img = []"
    by (auto simp: child_ok_def)
  then show ?thesis
  proof cases
    case 1
    then have "recorded_parent r w i = []" by (simp add: recorded_parent_def content_def)
    with 1 show ?thesis by (rule absent)
  next
    case (2 p img)
    then have "recorded_parent r w i = p" by (simp add: recorded_parent_def trim_line)
    with 2 show ?thesis using present by blast
  qed
qed

lemma child_text:
  assumes "child_ok r L w i"
  shows "\<exists>s. text_at w (child_file r i) s"
  using assms by (rule child_cases) (auto simp: text_at_def)

lemma parent_text:
  assumes "parent_ok r w i"
  shows "\<exists>s. text_at w (parent_file r i) s"
  using assms by (auto simp: parent_ok_def text_at_def split: if_splits)

text \<open>The parent-child file exists exactly when there are copies.\<close>

lemma parent_file_iff:
  assumes "parent_ok r w i"
  shows "files w (parent_file r i) = None \<longleftrightarrow> copies r w i = {}"
proof -
  from assms obtain js where js: "set js = copies r w i"
    "if js = [] then files w (parent_file r i) = None
      else content w (parent_file r i) = Some (lines_text js)"
    by (auto simp: parent_ok_def)
  then show ?thesis by (cases "js = []") (auto simp: content_def)
qed

lemma leaf_aufs_layers:
  assumes inv: "meta_inv r (layers w) w" and valid: "ValidateID i"
    and ids: "\<And>s img. layers w s = Some img \<Longrightarrow> ValidateID s \<and> ID img = s"
  shows "leaf (aufs_layers r layers w) i \<longleftrightarrow> leaf (layers w) i \<and> copies r w i = {}"
proof -
  have ne: "i \<noteq> []" by (rule ValidateID_nonempty [OF valid])
  have parent: "Parent (aufs_image r w img) = i \<longleftrightarrow> Parent img = i \<or> j \<in> copies r w i"
    if j: "layers w j = Some img" for j img
  proof -
    have "child_ok r (layers w) w j" and vj: "ValidateID j" and "ID img = j"
      using inv ids [OF j] by (auto simp: meta_inv_def)
    from this(1) show ?thesis
    proof (cases rule: child_cases)
      case absent
      then show ?thesis using ne \<open>ID img = j\<close> by (auto simp: aufs_image_def copies_def content_def)
    next
      case (present p img')
      then show ?thesis using ne \<open>ID img = j\<close> j vj by (auto simp: aufs_image_def copies_def)
    qed
  qed
  have copy: "j \<in> dom (layers w)" if "j \<in> copies r w i" for j
  proof -
    from that have "child_ok r (layers w) w j" "files w (child_file r j) \<noteq> None"
      using inv content_present [of w "child_file r j"] by (auto simp: meta_inv_def copies_def)
    then show ?thesis by (auto elim: child_cases)
  qed
  show ?thesis unfolding leaf_def dom_aufs_layers
    using parent copy by (auto simp: aufs_layers_def) blast+
qed

section \<open>What the wrapper needs of the wrapped cake\<close>

text \<open>A path below the graph root, outside the metadata directory.\<close>

definition outside :: "string \<Rightarrow> string \<Rightarrow> bool" where
  "outside r p \<longleftrightarrow> (\<exists>cs x ds. r = abs_path cs \<and> list_all plain_name (cs @ x # ds) \<and>
     x \<noteq> ''garden-info'' \<and> p = abs_path (cs @ x # ds))"

lemma outside_meta_files:
  assumes "clean_abs r" and "outside r q" and "plain_name i"
    and "f \<in> {parent_file r i, child_file r i}" and "d \<in> {parentChildDir r, childParentDir r}"
  shows "q \<noteq> f" "\<not> below f q" "q \<notin> set (path_prefixes d)"
proof -
  obtain cs where cs: "list_all plain_name cs" "r = abs_path cs"
    "parentChildDir r = abs_path (cs @ [''garden-info'', ''parent-child''])"
    "childParentDir r = abs_path (cs @ [''garden-info'', ''child-parent''])"
    "parent_file r i = abs_path (cs @ [''garden-info'', ''parent-child'', i])"
    "child_file r i = abs_path (cs @ [''garden-info'', ''child-parent'', i])"
    using meta_files [OF assms(1)] assms(3) by metis
  obtain es x ds where q: "r = abs_path es" "list_all plain_name (es @ x # ds)" "x \<noteq> ''garden-info''"
    "q = abs_path (es @ x # ds)"
    using assms(2) unfolding outside_def by blast
  have es: "es = cs" using q(1,2) cs(1,2) abs_path_inject by auto
  obtain y where y: "plain_name y" "f = abs_path (cs @ [''garden-info'', y, i])"
    using assms(4) cs(5,6) plain_meta_names by blast
  have f: "list_all plain_name (cs @ [''garden-info'', y, i])" using cs(1) y(1) assms(3) by simp
  show "q \<noteq> f" using abs_path_inject [OF q(2) f] q(3,4) y(2) es by simp
  show "\<not> below f q"
  proof
    assume "below f q"
    with below_abs_path [OF f _ q(2)] y(2) q(4) have "prefix (cs @ [''garden-info'', y, i]) (es @ x # ds)"
      by simp
    with es q(3) show False by simp
  qed
  obtain z where z: "plain_name z" "d = abs_path (cs @ [''garden-info'', z])"
    using assms(5) cs(3,4) plain_meta_names by blast
  show "q \<notin> set (path_prefixes d)"
  proof
    assume "q \<in> set (path_prefixes d)"
    then obtain c where c: "prefix c (cs @ [''garden-info'', z])" "q = abs_path c"
      using path_prefixes_abs [of "cs @ [''garden-info'', z]"] z cs(1) by auto
    have "list_all plain_name c"
      using c(1) z(1) cs(1) set_mono_prefix [OF c(1)] by (auto simp: list_all_iff)
    then have "c = es @ x # ds" using c(2) q(2,4) abs_path_inject by simp
    with c(1) es q(3) show False by simp
  qed
qed

lemma touches_outside:
  assumes "clean_abs r" and "plain_name i" and "touches d f w w'"
    and "f \<in> {parent_file r i, child_file r i}" and "d \<in> {parentChildDir r, childParentDir r}"
    and "outside r q"
  shows "files w' q = files w q"
  using touches_file [OF assms(3)] outside_meta_files [OF assms(1,6,2,4,5)] by blast

text \<open>A step that leaves the metadata as it is.\<close>

definition meta_same :: "string \<Rightarrow> 'z os_state_scheme \<Rightarrow> 'z os_state_scheme \<Rightarrow> bool" where
  "meta_same r w w' \<longleftrightarrow> os_fault w' = os_fault w \<and>
     (dir_ready (parentChildDir r) w \<longrightarrow> dir_ready (parentChildDir r) w') \<and>
     (dir_ready (childParentDir r) w \<longrightarrow> dir_ready (childParentDir r) w') \<and>
     (\<forall>i. ValidateID i \<longrightarrow> files w' (child_file r i) = files w (child_file r i) \<and>
        files w' (parent_file r i) = files w (parent_file r i))"

lemma meta_same_refl: "meta_same r w w"
  by (simp add: meta_same_def)

lemma content_files: "files w' f = files w f \<Longrightarrow> content w' f = content w f"
  by (simp add: content_def)

lemma copies_cong:
  "(\<And>i. ValidateID i \<Longrightarrow> files w' (child_file r i) = files w (child_file r i)) \<Longrightarrow>
    copies r w' p = copies r w p"
  using content_files [of w' _ w] by (auto simp: copies_def)

lemma parent_ok_cong:
  "copies r w' q = copies r w q \<Longrightarrow> files w' (parent_file r q) = files w (parent_file r q) \<Longrightarrow>
    parent_ok r w' q = parent_ok r w q"
  using content_files [of w' "parent_file r q" w] by (simp add: parent_ok_def)

lemma meta_same_inv:
  assumes "meta_same r w w'" and "meta_inv r L w"
  shows "meta_inv r L w'"
proof -
  have c: "content w' (child_file r i) = content w (child_file r i)"
    "content w' (parent_file r i) = content w (parent_file r i)" if "ValidateID i" for i
    using assms(1) that by (auto simp: meta_same_def intro: content_files)
  have "copies r w' p = copies r w p" for p
    by (rule copies_cong) (use assms(1) in \<open>simp add: meta_same_def\<close>)
  then have "child_ok r L w' i = child_ok r L w i" "parent_ok r w' i = parent_ok r w i"
    if "ValidateID i" for i
    using assms(1) c [OF that] that by (simp_all add: child_ok_def parent_ok_def meta_same_def)
  with assms show ?thesis by (simp add: meta_inv_def meta_same_def no_faults_def)
qed

lemma recorded_parent_same:
  "meta_same r w w' \<Longrightarrow> ValidateID i \<Longrightarrow> recorded_parent r w' i = recorded_parent r w i"
  using content_files [of w' "child_file r i" w] by (simp add: recorded_parent_def meta_same_def)

text \<open>A layer that has no copies and is not a copy itself can go.\<close>

lemma meta_inv_drop:
  assumes "meta_inv r L w" and "files w (child_file r i) = None"
  shows "meta_inv r (L(i := None)) w"
proof -
  have "child_ok r (L(i := None)) w j" if "child_ok r L w j" for j
    using that assms(2) by (cases "j = i") (auto simp: child_ok_def)
  with assms(1) show ?thesis by (simp add: meta_inv_def)
qed

text \<open>Changing one metadata file leaves the others.\<close>

lemma touches_other_meta:
  assumes r: "clean_abs r" and p: "plain_name p" and j: "plain_name j" and t: "touches d f w w'"
    and f: "f \<in> {parent_file r p, child_file r p}" and d: "d \<in> {parentChildDir r, childParentDir r}"
    and q: "q \<in> {child_file r j, parent_file r j}" and ne: "q \<noteq> f"
  shows "files w' q = files w q"
proof (rule touches_file [OF t ne])
  show "q \<notin> set (path_prefixes d)" by (rule meta_file_not_dir [OF r j]) (use q d in auto)
  obtain cs where cs: "list_all plain_name cs"
    "\<And>i. plain_name i \<Longrightarrow> parent_file r i = abs_path (cs @ [''garden-info'', ''parent-child'', i])"
    "\<And>i. plain_name i \<Longrightarrow> child_file r i = abs_path (cs @ [''garden-info'', ''child-parent'', i])"
    using meta_files [OF r] by metis
  obtain x where x: "plain_name x" "q = abs_path (cs @ [''garden-info'', x, j])"
    using q cs(2,3) [OF j] plain_meta_names by blast
  obtain y where y: "plain_name y" "f = abs_path (cs @ [''garden-info'', y, p])"
    using f cs(2,3) [OF p] plain_meta_names by blast
  show "\<not> below f q"
    using below_abs_path [of "cs @ [''garden-info'', y, p]" "cs @ [''garden-info'', x, j]"]
      cs(1) x y p j by auto
qed

text \<open>
  Taking a copy \<open>i\<close> of \<open>p\<close> out of both directories.
\<close>

lemma meta_inv_unlink:
  assumes inv: "meta_inv r L w" and r: "clean_abs r" and i: "ValidateID i" and p: "ValidateID p"
    and child: "content w (child_file r i) = Some (p @ [newline])"
  shows "\<exists>w1 w2. os_remove (child_file r i) w = (Inr (), w1) \<and>
    removeInfo (parentChildDir r) p i w1 = (Inr (), w2) \<and> beyond_files w2 = beyond_files w \<and>
    meta_inv r (L(i := None)) w2 \<and>
    (\<forall>j. ValidateID j \<longrightarrow> j \<noteq> i \<longrightarrow> files w2 (child_file r j) = files w (child_file r j)) \<and>
    (\<forall>q. outside r q \<longrightarrow> files w2 q = files w q)"
proof -
  note pi = ValidateID_plain_name [OF i] and pp = ValidateID_plain_name [OF p]
  let ?pc = "parentChildDir r" and ?cp = "childParentDir r"
  let ?f = "parent_file r p"
  let ?w1 = "put_file (child_file r i) None w"
  have nf: "no_faults w" and ready: "dir_ready ?pc w" "dir_ready ?cp w"
    and ok: "\<And>j. ValidateID j \<Longrightarrow> child_ok r L w j \<and> parent_ok r w j"
    using inv by (simp_all add: meta_inv_def)
  note distinct = meta_files_distinct [OF r]
  have rem: "os_remove (child_file r i) w = (Inr (), ?w1)"
    by (rule os_remove_ok [OF nf clean_meta(4) [OF r pi] child])
  have ready1: "dir_ready ?pc ?w1" "dir_ready ?cp ?w1"
    using ready by (auto simp: dir_ready_def free_or_dir_def)
  obtain js where js: "distinct js" "set js = copies r w p"
    "if js = [] then files w ?f = None else content w ?f = Some (lines_text js)"
    using ok [OF p] by (auto simp: parent_ok_def)
  have "i \<in> set js" using js(2) i child by (simp add: copies_def)
  then have f: "content w ?f = Some (lines_text js)" using js(3) by (auto split: if_splits)
  have nosp: "\<forall>j \<in> set js. no_space j \<and> j \<noteq> []"
    using js(2) by (auto simp: copies_def ValidateID_no_space ValidateID_nonempty)
  let ?ks = "filter (\<lambda>j. j \<noteq> i) js"
  have "content ?w1 ?f = Some (lines_text js)"
    using f distinct(1) [OF pp pi] by (simp add: content_put_file)
  from removeInfo_ok [OF _ _ ready1(1) pp this nosp, of i] info_dirs [OF r] nf
  obtain w2 where w2: "removeInfo ?pc p i ?w1 = (Inr (), w2)" "touches ?pc ?f ?w1 w2"
    "if ?ks = [] then files w2 ?f = None else content w2 ?f = Some (lines_text ?ks)"
    by (auto simp: Let_def)
  have other: "files w2 q = files ?w1 q"
    if "plain_name j" "q \<in> {child_file r j, parent_file r j}" "q \<noteq> ?f" for q j
    by (rule touches_other_meta [OF r pp that(1) w2(2) _ _ that(2,3)]) simp_all
  have child2: "files w2 (child_file r j) = (if j = i then None else files w (child_file r j))"
    if "ValidateID j" for j
  proof -
    note pj = ValidateID_plain_name [OF that]
    show ?thesis
      using other [of j "child_file r j"] pj distinct(1) [OF pp pj] distinct(3) [OF pj pi] by auto
  qed
  have content2: "content w2 (child_file r j) = (if j = i then None else content w (child_file r j))"
    if "ValidateID j" for j
    using child2 [OF that] by (simp add: content_def)
  have parent2: "files w2 (parent_file r q) = files w (parent_file r q)" if "ValidateID q" "q \<noteq> p" for q
  proof -
    note pq = ValidateID_plain_name [OF that(1)]
    show ?thesis using other [of q "parent_file r q"] pq distinct(1) [OF pq pi]
        distinct(2) [OF pq pp] that(2) by auto
  qed
  have copies2: "copies r w2 q = (if q = p then copies r w p - {i} else copies r w q)" for q
    using child by (auto simp: copies_def content2 split: if_splits)
  have "child_ok r (L(i := None)) w2 j" if "ValidateID j" for j
    using ok [OF that] child2 [OF that] content_files [of w2 "child_file r j" w]
    by (cases "j = i") (auto simp: child_ok_def)
  moreover have "parent_ok r w2 q" if q: "ValidateID q" for q
  proof (cases "q = p")
    case True
    have "distinct ?ks" "set ?ks = copies r w2 p" using js copies2 by auto
    with w2(3) True show ?thesis unfolding parent_ok_def by blast
  next
    case False
    have "copies r w2 q = copies r w q" using copies2 [of q] False by simp
    from parent_ok_cong [OF this parent2 [OF q False]] ok [OF q] show ?thesis by simp
  qed
  moreover have "no_faults w2" using touches_no_faults [OF w2(2)] nf by simp
  moreover have "dir_ready ?pc w2" "dir_ready ?cp w2"
    using touches_dir_ready [OF w2(2)] ready1 meta_file_not_dir [OF r pp, of ?f] by auto
  moreover have "beyond_files w2 = beyond_files w" using w2(2) by (simp add: touches_def)
  moreover have "files w2 q = files w q" if "outside r q" for q
    using touches_outside [OF r pp w2(2) _ _ that] outside_meta_files(1) [OF r that pi] by auto
  ultimately show ?thesis using rem w2(1) child2 by (auto simp: meta_inv_def)
qed

section \<open>The wrapper is a layer store\<close>

locale metadata_store = layer_store cake layers good
  for cake :: "'z os_state_scheme cake"
    and layers :: "'z os_state_scheme \<Rightarrow> (string \<rightharpoonup> image)"
    and good :: "'z os_state_scheme \<Rightarrow> bool" +
  fixes graphRoot :: string
  assumes clean_root: "clean_abs graphRoot"
    and files_irrelevant: "beyond_files w = beyond_files w' \<Longrightarrow>
          (\<forall>q. outside graphRoot q \<longrightarrow> files w q = files w' q) \<Longrightarrow> layers w = layers w' \<and> good w = good w'"
    and Remove_meta: "good w \<Longrightarrow> no_faults w \<Longrightarrow> ValidateID (GraphID i) \<Longrightarrow>
          Remove cake i w = (r, w') \<Longrightarrow> meta_same graphRoot w w'"
    and Remove_all_or_nothing: "good w \<Longrightarrow> no_faults w \<Longrightarrow> ValidateID (GraphID i) \<Longrightarrow>
          Remove cake i w = (Inl f, w') \<Longrightarrow> layers w' = layers w"
begin

definition aufs_good :: "'z os_state_scheme \<Rightarrow> bool" where
  "aufs_good w \<longleftrightarrow> good w \<and> meta_inv graphRoot (layers w) w"

lemma readInfo_recorded:
  assumes "no_faults w" and "ValidateID (GraphID i)" and "child_ok graphRoot L w (GraphID i)"
  obtains s where "readInfo graphRoot path i w = (Inr s, w)"
    and "trim_space s = recorded_parent graphRoot w (GraphID i)"
  using assms(3)
proof (cases rule: child_cases)
  note clean = clean_meta(4) [OF clean_root ValidateID_plain_name [OF assms(2)]]
  case absent
  then show ?thesis using read_file_missing [OF assms(1) clean] that [of "[]"]
    by (simp add: readInfo_def handleE_def trim_space_def)
next
  note clean = clean_meta(4) [OF clean_root ValidateID_plain_name [OF assms(2)]]
  case (present p img)
  then show ?thesis using read_file_ok [OF assms(1) clean present(2)] that [of "p @ [newline]"]
    by (simp add: readInfo_def handleE_def trim_line)
qed

lemma hasInfo_copies:
  assumes "aufs_good w" and "ValidateID (GraphID i)"
  shows "hasInfo (parentChildDir graphRoot) i w = (Inr (copies graphRoot w (GraphID i) \<noteq> {}), w)"
proof -
  have ok: "no_faults w" "parent_ok graphRoot w (GraphID i)"
    using assms by (auto simp: aufs_good_def meta_inv_def)
  from parent_text [OF ok(2)] obtain s where "text_at w (parent_file graphRoot (GraphID i)) s" ..
  from hasInfo_ok [OF ok(1) _ ValidateID_plain_name [OF assms(2)] this] info_dirs [OF clean_root]
    parent_file_iff [OF ok(2)] show ?thesis by simp
qed

lemma aufs_leaf:
  assumes "aufs_good w" and "ValidateID i"
  shows "leaf (aufs_layers graphRoot layers w) i \<longleftrightarrow> leaf (layers w) i \<and> copies graphRoot w i = {}"
proof (rule leaf_aufs_layers)
  show "meta_inv graphRoot (layers w) w" "ValidateID i" using assms by (simp_all add: aufs_good_def)
  show "ValidateID s \<and> ID img = s" if "layers w s = Some img" for s img
    using valid_layers [OF _ that] assms(1) by (simp add: aufs_good_def)
qed

lemma aufs_Get_run:
  assumes "aufs_good w" and "layers w (GraphID i) = Some img"
  shows "aufs_cake_Get cake graphRoot i w = (Inr (aufs_image graphRoot w img), w)"
proof -
  have good: "good w" and nf: "no_faults w" using assms(1) by (simp_all add: aufs_good_def meta_inv_def)
  have v: "ValidateID (GraphID i)" "ID img = GraphID i"
    using valid_layers [OF good assms(2)] by simp_all
  then have "child_ok graphRoot (layers w) w (GraphID i)"
    using assms(1) by (simp add: aufs_good_def meta_inv_def)
  from readInfo_recorded [OF nf v(1) this] obtain s where
    "readInfo graphRoot (childParentDir graphRoot) i w = (Inr s, w)"
    "trim_space s = recorded_parent graphRoot w (GraphID i)" by metis
  with Get_present [OF good assms(2)] v(2) show ?thesis
    by (simp add: aufs_cake_Get_def bindE_def aufs_image_def)
qed

lemma not_parents_run:
  assumes "aufs_good w" and "\<forall>i \<in> set ids. ValidateID (GraphID i)"
  shows "not_parents graphRoot ids acc w =
    (Inr (acc @ filter (\<lambda>i. copies graphRoot w (GraphID i) = {}) ids), w)"
  using assms(2) by (induction ids arbitrary: acc) (simp_all add: bindE_def hasInfo_copies [OF assms(1)])

lemma aufs_Remove_run:
  assumes good: "aufs_good w" and v: "ValidateID (GraphID i)"
    and run: "aufs_cake_Remove cake graphRoot i w = (r, w')"
  shows "aufs_good w' \<and> (case r of
      Inr _ \<Rightarrow> aufs_layers graphRoot layers w' = (aufs_layers graphRoot layers w)(GraphID i := None)
    | Inl (Err _) \<Rightarrow> aufs_layers graphRoot layers w' = aufs_layers graphRoot layers w
    | Inl (Panic _) \<Rightarrow> False) \<and> (fst (Remove cake i w) = Inr () \<longrightarrow> r = Inr ())"
proof -
  let ?i = "GraphID i"
  have g: "good w" and inv: "meta_inv graphRoot (layers w) w" and nf: "no_faults w"
    using good by (simp_all add: aufs_good_def meta_inv_def)
  obtain r1 w1 where r1: "Remove cake i w = (r1, w1)" by (cases "Remove cake i w")
  note same = Remove_meta [OF g nf v r1]
  have inv1: "meta_inv graphRoot (layers w) w1" by (rule meta_same_inv [OF same inv])
  have img1: "aufs_image graphRoot w1 img = aufs_image graphRoot w img" if "layers w j = Some img" for j img
    using recorded_parent_same [OF same, of "ID img"] valid_layers [OF g that] by (simp add: aufs_image_def)
  show ?thesis
  proof (cases rule: Remove_cases [OF g v r1])
    case (2 e)
    with Remove_all_or_nothing [OF g nf v] r1 have lay: "layers w1 = layers w" by blast
    have "w' = w1" "r = Inl (Err e)" using run r1 2(1) by (simp_all add: aufs_cake_Remove_def bindE_def)
    moreover have "aufs_good w1" using 2(2) inv1 lay by (simp add: aufs_good_def)
    moreover have "aufs_layers graphRoot layers w1 = aufs_layers graphRoot layers w"
      by (rule aufs_layers_cong [OF lay img1])
    ultimately show ?thesis using r1 2(1) by simp
  next
    case 1
    have nf1: "no_faults w1" and ok1: "child_ok graphRoot (layers w) w1 ?i"
      using inv1 v by (simp_all add: meta_inv_def)
    obtain s where read: "readInfo graphRoot (childParentDir graphRoot) i w1 = (Inr s, w1)"
      and s: "trim_space s = recorded_parent graphRoot w1 ?i"
      by (rule readInfo_recorded [OF nf1 v ok1])
    note clean = clean_meta(4) [OF clean_root ValidateID_plain_name [OF v]]
    have fin: ?thesis if w': "r = Inr ()" "beyond_files w' = beyond_files w1"
        "\<forall>q. outside graphRoot q \<longrightarrow> files w' q = files w1 q"
      and m: "meta_inv graphRoot ((layers w)(?i := None)) w'"
      and f: "\<forall>j. ValidateID j \<longrightarrow> j \<noteq> ?i \<longrightarrow> files w' (child_file graphRoot j) = files w1 (child_file graphRoot j)"
    proof -
      have lay: "layers w' = (layers w)(?i := None)" and "good w'"
        using files_irrelevant [OF w'(2,3)] 1 by simp_all
      have "aufs_image graphRoot w' img = aufs_image graphRoot w img"
        if j: "layers w j = Some img" "j \<noteq> ?i" for j img
      proof -
        have "ValidateID j" "ID img = j" using valid_layers [OF g j(1)] by simp_all
        with f j(2) have "recorded_parent graphRoot w' j = recorded_parent graphRoot w1 j"
          using content_files [of w' "child_file graphRoot j" w1] by (simp add: recorded_parent_def)
        with img1 [OF j(1)] \<open>ID img = j\<close> show ?thesis by (simp add: aufs_image_def split: if_splits)
      qed
      then have "aufs_layers graphRoot layers w' = (aufs_layers graphRoot layers w)(?i := None)"
        using lay by (auto simp: aufs_layers_def fun_eq_iff map_option_case split: option.split)
      moreover have "aufs_good w'" using lay \<open>good w'\<close> m by (simp add: aufs_good_def)
      ultimately show ?thesis using w'(1) by simp
    qed
    from ok1 show ?thesis
    proof (cases rule: child_cases)
      case absent
      have "r = Inr ()" "w' = w1"
        using run r1 1(1) read os_remove_missing [OF nf1 clean absent(1)]
        by (simp_all add: aufs_cake_Remove_def bindE_def handleE_def)
      then show ?thesis using fin meta_inv_drop [OF inv1 absent(1)] by simp
    next
      case (present p img)
      from meta_inv_unlink [OF inv1 clean_root v present(1,2)] obtain w2 w3 where
        w3: "os_remove (child_file graphRoot ?i) w1 = (Inr (), w2)"
        "removeInfo (parentChildDir graphRoot) p ?i w2 = (Inr (), w3)"
        "beyond_files w3 = beyond_files w1" "meta_inv graphRoot ((layers w)(?i := None)) w3"
        "\<forall>j. ValidateID j \<longrightarrow> j \<noteq> ?i \<longrightarrow> files w3 (child_file graphRoot j) = files w1 (child_file graphRoot j)"
        "\<forall>q. outside graphRoot q \<longrightarrow> files w3 q = files w1 q"
        by blast
      have "r = Inr ()" "w' = w3"
        using run r1 1(1) read s present(3) w3(1,2)
        by (simp_all add: aufs_cake_Remove_def bindE_def handleE_def)
      then show ?thesis using fin w3(3-6) by simp
    qed
  qed
qed

end

sublocale metadata_store \<subseteq> aufs: layer_store "aufs_cake cake runner graphRoot"
  "aufs_layers graphRoot layers" aufs_good for runner
proof
  fix w :: "'z os_state_scheme" and s img i
  assume good: "aufs_good w"
  then have g: "good w" by (simp add: aufs_good_def)
  show "finite (dom (aufs_layers graphRoot layers w))" using finite_layers [OF g] by simp
  show "ValidateID s \<and> ID img = s" if "aufs_layers graphRoot layers w s = Some img"
    using that valid_layers [OF g] by (auto simp: aufs_layers_def)
  show "Get (aufs_cake cake runner graphRoot) i w = (Inr img, w)"
    if "aufs_layers graphRoot layers w (GraphID i) = Some img"
    using that aufs_Get_run [OF good] by (auto simp: aufs_layers_def aufs_cake_def)
  show "\<exists>e. Get (aufs_cake cake runner graphRoot) i w = (Inl (Err e), w)"
    if "ValidateID (GraphID i)" "aufs_layers graphRoot layers w (GraphID i) = None"
    using that Get_absent [OF g, of i]
    by (auto simp: aufs_layers_def aufs_cake_def aufs_cake_Get_def bindE_def)
  show "IsLeaf (aufs_cake cake runner graphRoot) i w =
      (Inr (leaf (aufs_layers graphRoot layers w) (GraphID i)), w)"
  proof (cases "leaf (layers w) (GraphID i)")
    case True
    then have "ValidateID (GraphID i)" using leaf_dom valid_layers [OF g] by blast
    with True show ?thesis
      using IsLeaf_exact [OF g, of i] hasInfo_copies [OF good] aufs_leaf [OF good]
      by (simp add: aufs_cake_def aufs_cake_IsLeaf_def bindE_def)
  next
    case False
    have "\<not> leaf (aufs_layers graphRoot layers w) (GraphID i)"
    proof
      assume l: "leaf (aufs_layers graphRoot layers w) (GraphID i)"
      from leaf_dom [OF l] have "GraphID i \<in> dom (layers w)" by simp
      then have "ValidateID (GraphID i)" using valid_layers [OF g] by blast
      with l False show False using aufs_leaf [OF good] by simp
    qed
    with False show ?thesis using IsLeaf_exact [OF g, of i]
      by (simp add: aufs_cake_def aufs_cake_IsLeaf_def bindE_def)
  qed
  obtain ids where ids: "GetAllLeaves cake w = (Inr ids, w)" "distinct (map GraphID ids)"
    "set (map GraphID ids) = {s. leaf (layers w) s}"
    using GetAllLeaves_exact [OF g] by blast
  have v: "\<forall>i \<in> set ids. ValidateID (GraphID i)"
  proof
    fix j assume "j \<in> set ids"
    then have "leaf (layers w) (GraphID j)" using ids(3) by auto
    then show "ValidateID (GraphID j)" using leaf_dom valid_layers [OF g] by blast
  qed
  let ?ids = "filter (\<lambda>i. copies graphRoot w (GraphID i) = {}) ids"
  have "GetAllLeaves (aufs_cake cake runner graphRoot) w = (Inr ?ids, w)"
    using not_parents_run [OF good v] ids(1)
    by (simp add: aufs_cake_def aufs_cake_GetAllLeaves_def bindE_def)
  moreover have "distinct (map GraphID ?ids)" using ids(2) by (simp add: distinct_map_filter)
  moreover have "set (map GraphID ?ids) = {s. leaf (aufs_layers graphRoot layers w) s}"
  proof -
    have "leaf (aufs_layers graphRoot layers w) s \<longleftrightarrow> leaf (layers w) s \<and> copies graphRoot w s = {}" for s
    proof (cases "ValidateID s")
      case False
      then have "s \<notin> dom (layers w)" using valid_layers [OF g] by blast
      then show ?thesis using leaf_dom [of "layers w" s] leaf_dom [of "aufs_layers graphRoot layers w" s] by auto
    qed (rule aufs_leaf [OF good])
    then show ?thesis using ids(3) by auto
  qed
  ultimately show "\<exists>ids. GetAllLeaves (aufs_cake cake runner graphRoot) w = (Inr ids, w) \<and>
      distinct (map GraphID ids) \<and> set (map GraphID ids) = {s. leaf (aufs_layers graphRoot layers w) s}"
    by blast
next
  fix w w' :: "'z os_state_scheme" and i and r :: "unit outcome"
  assume "aufs_good w" "ValidateID (GraphID i)"
    "Remove (aufs_cake cake runner graphRoot) i w = (r, w')"
  from aufs_Remove_run [OF this(1,2)] this(3)
  show "aufs_good w' \<and> (case r of
             Inr _ \<Rightarrow> aufs_layers graphRoot layers w' = (aufs_layers graphRoot layers w)(GraphID i := None)
           | Inl (Err _) \<Rightarrow> aufs_layers graphRoot layers w' = aufs_layers graphRoot layers w \<or>
               aufs_layers graphRoot layers w' = (aufs_layers graphRoot layers w)(GraphID i := None)
           | Inl (Panic _) \<Rightarrow> False)"
    by (auto simp: aufs_cake_def split: sum.splits failure.splits)
qed

context metadata_store
begin

lemma aufs_contract:
  "layer_store (aufs_cake cake runner graphRoot) (aufs_layers graphRoot layers)
     (\<lambda>w. good w \<and> meta_inv graphRoot (layers w) w)"
proof -
  have "aufs_good = (\<lambda>w. good w \<and> meta_inv graphRoot (layers w) w)"
    by (rule ext) (simp add: aufs_good_def)
  then show ?thesis using aufs.layer_store_axioms by simp
qed

end

end
