(* ===== verification/Shed_Store.thy ===== *)
theory Shed_Store
  imports Aufs_Cake
begin

text \<open>
  The store that \<open>Wire\<close> (\<open>src/rootfs_provider/rootfs_provider.go\<close>) builds: the metadata wrapper
  around docker's graph with the quotaed aufs driver, all below one graph root.

  Every file that the driver and the backing stores change lies below \<open>aufs\<close> or
  \<open>backing_stores\<close>, so that the metadata below \<open>garden-info\<close> is untouched and the wired store
  meets the contract \<open>metadata_store\<close>.
\<close>

section \<open>Files outside the metadata\<close>

text \<open>The metadata files of an ID and the directories that lead to them.\<close>

definition meta_path :: "string \<Rightarrow> string \<Rightarrow> bool" where
  "meta_path r q \<longleftrightarrow> q \<in> set (path_prefixes (parentChildDir r)) \<union> set (path_prefixes (childParentDir r)) \<or>
     (\<exists>i. ValidateID i \<and> (q = child_file r i \<or> q = parent_file r i))"

lemma meta_path_comps:
  assumes "clean_abs r" and "meta_path r q"
  obtains cs qs ys where "r = abs_path cs" and "list_all plain_name cs" and "q = abs_path qs"
    and "list_all plain_name qs" and "prefix qs (cs @ ''garden-info'' # ys)"
proof (rule meta_files [OF assms(1)])
  fix cs
  assume cs: "list_all plain_name cs" "r = abs_path cs"
    "parentChildDir r = abs_path (cs @ [''garden-info'', ''parent-child''])"
    "childParentDir r = abs_path (cs @ [''garden-info'', ''child-parent''])"
    and f: "\<And>i. plain_name i \<Longrightarrow> parent_file r i = abs_path (cs @ [''garden-info'', ''parent-child'', i])"
    "\<And>i. plain_name i \<Longrightarrow> child_file r i = abs_path (cs @ [''garden-info'', ''child-parent'', i])"
  note result = that [OF cs(2,1)]
  have dir: thesis if "q \<in> set (path_prefixes (abs_path (cs @ [''garden-info'', d])))" "plain_name d" for d
  proof -
    let ?ds = "cs @ [''garden-info'', d]"
    have pl: "list_all plain_name ?ds" using cs(1) that(2) by simp
    have "?ds \<noteq> []" by simp
    from path_prefixes_abs [OF pl this] that(1)
    obtain c where c: "prefix c ?ds" "q = abs_path c" by auto
    moreover have "list_all plain_name c"
      using pl set_mono_prefix [OF c(1)] unfolding list_all_iff by blast
    ultimately show ?thesis using result by blast
  qed
  have info: thesis if "ValidateID i" "q = abs_path (cs @ [''garden-info'', d, i])" "plain_name d" for i d
    by (rule result [OF that(2)]) (use cs(1) that ValidateID_plain_name in auto)
  from assms(2) consider (pc) "q \<in> set (path_prefixes (parentChildDir r))"
    | (cp) "q \<in> set (path_prefixes (childParentDir r))"
    | (child) i where "ValidateID i" "q = child_file r i"
    | (parent) i where "ValidateID i" "q = parent_file r i"
    by (auto simp: meta_path_def)
  then show thesis
  proof cases
    case pc
    then show ?thesis unfolding cs(3) by (rule dir) simp
  next
    case cp
    then show ?thesis unfolding cs(4) by (rule dir) simp
  next
    case (child i)
    then show ?thesis using f(2) [OF ValidateID_plain_name] info [OF child(1)] by simp
  next
    case (parent i)
    then show ?thesis using f(1) [OF ValidateID_plain_name] info [OF parent(1)] by simp
  qed
qed

lemma outside_meta_path:
  assumes "clean_abs r" and "outside r p" and "meta_path r q"
  shows "q \<noteq> p \<and> \<not> below p q"
proof -
  from assms(2) obtain ds x es where p: "r = abs_path ds" "list_all plain_name (ds @ x # es)"
    "x \<noteq> ''garden-info''" "p = abs_path (ds @ x # es)"
    unfolding outside_def by blast
  obtain cs qs ys where q: "r = abs_path cs" "list_all plain_name cs" "q = abs_path qs"
    "list_all plain_name qs" "prefix qs (cs @ ''garden-info'' # ys)"
    by (rule meta_path_comps [OF assms(1,3)])
  have "cs = ds" using p(1,2) q(1,2) abs_path_inject by auto
  have "\<not> prefix (ds @ x # es) qs"
  proof
    assume "prefix (ds @ x # es) qs"
    from prefix_order.trans [OF this q(5)] p(3) \<open>cs = ds\<close> show False by simp
  qed
  moreover have "q = p \<longleftrightarrow> qs = ds @ x # es"
    using p(2,4) q(3,4) abs_path_inject by simp
  moreover have "below p q \<Longrightarrow> prefix (ds @ x # es) qs"
    using below_abs_path [of "ds @ x # es" qs] p(2,4) q(3,4) by simp
  ultimately show ?thesis by auto
qed

lemma outside_clean: "outside r p \<Longrightarrow> clean_abs p"
  by (auto simp: outside_def intro: clean_abs_abs_path)

lemma outside_not_root: "outside r p \<Longrightarrow> p \<noteq> ''/''"
  using abs_path_inject [of _ "[]"] by (auto simp: outside_def abs_path_def)

section \<open>Files of the driver\<close>

text \<open>
  The files that the driver opens by the ID of a layer: its list of ancestors and its backing
  store.  As long as none of them is a symbolic link, opening them reaches no other file.
\<close>

abbreviation layers_file :: "string \<Rightarrow> string \<Rightarrow> string" where
  "layers_file r i \<equiv> path_join [path_join [r, ''aufs''], ''layers'', i]"

abbreviation backing_file :: "string \<Rightarrow> string \<Rightarrow> string" where
  "backing_file r i \<equiv> path_join [path_join [r, ''backing_stores''], i]"

definition driver_file :: "string \<Rightarrow> string \<Rightarrow> bool" where
  "driver_file r q \<longleftrightarrow> (\<exists>i. ValidateID i \<and> (q = layers_file r i \<or> q = backing_file r i))"

definition link_free :: "string \<Rightarrow> 'z os_state_scheme \<Rightarrow> bool" where
  "link_free r w \<longleftrightarrow> (\<forall>q. driver_file r q \<longrightarrow> not_link w q)"

text \<open>A step of the driver: the metadata stays as it was in \<open>w0\<close>, and no link appears.\<close>

definition shed_same :: "string \<Rightarrow> 'z os_state_scheme \<Rightarrow> 'z os_state_scheme \<Rightarrow> bool" where
  "shed_same r w0 w \<longleftrightarrow> meta_same r w0 w \<and> link_free r w"

lemma plain_shed_names [simp]:
  "plain_name ''aufs''" "plain_name ''backing_stores''" "plain_name ''mnt''" "plain_name ''diff''"
  "plain_name ''layers''"
  by (simp_all add: plain_name_def)

lemma plain_removing: "plain_name i \<Longrightarrow> plain_name (i @ ''-removing'')"
  by (auto simp: plain_name_def)

lemma outside_below:
  assumes "clean_abs r" and "plain_name i" and "plain_name x" and "x \<noteq> ''garden-info''"
  shows "outside r (path_join [path_join [r, x], i])"
    and "plain_name d \<Longrightarrow> outside r (path_join [path_join [r, x], d, i])"
proof -
  from assms(1) obtain cs where cs: "r = abs_path cs" "list_all plain_name cs" by (rule clean_abs_comps)
  have x: "path_join [r, x] = abs_path (cs @ [x])" using cs assms(3) by (simp add: path_join_plain)
  have "path_join [path_join [r, x], i] = abs_path (cs @ x # [i])"
    using x cs(2) assms by (simp add: path_join_plain)
  then show "outside r (path_join [path_join [r, x], i])"
    unfolding outside_def using cs assms by (metis list_all_append list.pred_inject(1,2))
  show "outside r (path_join [path_join [r, x], d, i])" if "plain_name d"
  proof -
    have "path_join [path_join [r, x], d, i] = abs_path (cs @ x # [d, i])"
      using x cs(2) assms that by (simp add: path_join_plain2)
    then show ?thesis
      unfolding outside_def using cs assms that by (metis list_all_append list.pred_inject(1,2))
  qed
qed

lemma driver_file_outside: "clean_abs r \<Longrightarrow> driver_file r q \<Longrightarrow> outside r q"
  using outside_below(2) [of r _ "''aufs''" "''layers''"] outside_below(1) [of r _ "''backing_stores''"]
  by (auto simp: driver_file_def ValidateID_plain_name)

text \<open>No driver file lies in the directories that a removal moves away.\<close>

lemma driver_file_not_removing:
  assumes "clean_abs r" and "plain_name n" and "d \<in> {''mnt'', ''diff''}" and "driver_file r q"
  shows "q \<noteq> path_join [path_join [r, ''aufs''], d, n] \<and> \<not> below (path_join [path_join [r, ''aufs''], d, n]) q"
proof -
  from assms(1) obtain cs where cs: "r = abs_path cs" "list_all plain_name cs" by (rule clean_abs_comps)
  have d: "plain_name d" using assms(3) by auto
  have p: "path_join [path_join [r, ''aufs''], d, n] = abs_path (cs @ [''aufs'', d, n])"
    using cs assms(2) d by (simp add: path_join_plain path_join_plain2)
  have pn: "list_all plain_name (cs @ [''aufs'', d, n])" using cs(2) d assms(2) by simp
  obtain i where i: "ValidateID i" "q = layers_file r i \<or> q = backing_file r i"
    using assms(4) by (auto simp: driver_file_def)
  note pi = ValidateID_plain_name [OF i(1)]
  have q: "q = abs_path (cs @ [''aufs'', ''layers'', i]) \<or> q = abs_path (cs @ [''backing_stores'', i])"
    using i(2) cs pi by (auto simp: path_join_plain path_join_plain2)
  have l: "list_all plain_name (cs @ [''aufs'', ''layers'', i])" "list_all plain_name (cs @ [''backing_stores'', i])"
    using cs(2) pi by simp_all
  have ne: "d \<noteq> ''layers''" using assms(3) by auto
  have "q \<noteq> abs_path (cs @ [''aufs'', d, n])"
    using q abs_path_inject [OF l(1) pn] abs_path_inject [OF l(2) pn] ne by auto
  moreover have "\<not> below (abs_path (cs @ [''aufs'', d, n])) q"
    using q below_abs_path [OF pn _ l(1)] below_abs_path [OF pn _ l(2)] ne by auto
  ultimately show ?thesis unfolding p by blast
qed

lemma outside_prefix_not_meta:
  assumes "clean_abs r" and "outside r p" and "q \<in> set (path_prefixes p)" and "ValidateID i"
  shows "q \<noteq> child_file r i \<and> q \<noteq> parent_file r i"
proof -
  note pi = ValidateID_plain_name [OF assms(4)]
  obtain cs where cs: "list_all plain_name cs" "r = abs_path cs"
    "parent_file r i = abs_path (cs @ [''garden-info'', ''parent-child'', i])"
    "child_file r i = abs_path (cs @ [''garden-info'', ''child-parent'', i])"
    using meta_files [OF assms(1)] pi by metis
  obtain es x ds where p: "r = abs_path es" "list_all plain_name (es @ x # ds)" "x \<noteq> ''garden-info''"
    "p = abs_path (es @ x # ds)"
    using assms(2) unfolding outside_def by blast
  have es: "es = cs" using p(1,2) cs(1,2) abs_path_inject by auto
  obtain c where c: "prefix c (es @ x # ds)" "q = abs_path c"
    using path_prefixes_abs [OF p(2)] assms(3) p(4) by auto
  have pc: "list_all plain_name c" using c(1) p(2) set_mono_prefix [OF c(1)] by (auto simp: list_all_iff)
  have "q \<noteq> abs_path (cs @ [''garden-info'', y, i])" if "plain_name y" for y
  proof
    assume "q = abs_path (cs @ [''garden-info'', y, i])"
    then have "c = cs @ [''garden-info'', y, i]"
      using c(2) pc abs_path_inject [OF pc] cs(1) that pi by simp
    with c(1) es p(3) show False by simp
  qed
  then show ?thesis using cs(3,4) by simp
qed

section \<open>Steps that keep the metadata\<close>

text \<open>A step that leaves every metadata path alone, or removes what is there, keeps the metadata.\<close>

lemma meta_same_step:
  assumes "meta_same r w0 w" and "os_fault w' = os_fault w"
    and "\<And>q. meta_path r q \<Longrightarrow> files w' q = files w q"
  shows "meta_same r w0 w'"
proof -
  have "dir_ready d w' = dir_ready d w" if "d \<in> {parentChildDir r, childParentDir r}" for d
    using assms(3) that by (auto simp: dir_ready_def free_or_dir_def meta_path_def)
  moreover have "files w' (child_file r i) = files w (child_file r i)"
    "files w' (parent_file r i) = files w (parent_file r i)" if "ValidateID i" for i
    using assms(3) that by (auto simp: meta_path_def)
  ultimately show ?thesis using assms(1,2) by (simp add: meta_same_def)
qed

lemma link_free_step:
  assumes "link_free r w"
    and "\<And>q. driver_file r q \<Longrightarrow> files w' q = files w q \<or> not_link w' q"
  shows "link_free r w'"
proof -
  have "not_link w' q" if "driver_file r q" for q
    using assms(1) assms(2) [OF that] that by (auto simp: link_free_def not_link_def)
  then show ?thesis by (simp add: link_free_def)
qed

lemma shed_same_step:
  assumes "shed_same r w0 w" and "os_fault w' = os_fault w"
    and "\<And>q. meta_path r q \<Longrightarrow> files w' q = files w q"
    and "\<And>q. driver_file r q \<Longrightarrow> files w' q = files w q \<or> not_link w' q"
  shows "shed_same r w0 w'"
  using assms meta_same_step link_free_step unfolding shed_same_def by blast

lemma keeps_same_files:
  assumes "\<And>w. files (snd (m w)) = files w \<and> os_fault (snd (m w)) = os_fault w"
  shows "keeps (shed_same r w0) m"
  unfolding keeps_def using assms by (auto intro: shed_same_step)

lemma keeps_same_frame: "frame hview m \<Longrightarrow> keeps (shed_same r w0) m"
  by (rule keeps_same_files) (auto simp: frame_def hview_def gview_def)

lemma keeps_same_reads_only: "reads_only m \<Longrightarrow> keeps (shed_same r w0) m"
  by (rule keeps_same_files) (simp add: reads_only_def)

lemma keeps_same_check: "keeps (shed_same r w0) (os_check oper p)"
  by (rule keeps_same_reads_only, rule reads_only_check)

lemma keeps_same_modW:
  "(\<And>w. files (f w) = files w) \<Longrightarrow> (\<And>w. os_fault (f w) = os_fault w) \<Longrightarrow> keeps (shed_same r w0) (modW f)"
  by (rule keeps_same_files) simp

lemma keeps_same_remove_all:
  assumes "clean_abs r" and "outside r p"
  shows "keeps (shed_same r w0) (remove_all p)"
  unfolding remove_all_def
proof (rule keeps_bindE [OF keeps_same_check], rule keeps_modW)
  fix w assume "shed_same r w0 w"
  then show "shed_same r w0 (w\<lparr>files := \<lambda>q. if q = path_clean p \<or> below (path_clean p) q then None else files w q\<rparr>)"
    by (rule shed_same_step)
      (use outside_meta_path [OF assms] outside_clean [OF assms(2)] in \<open>auto simp: not_link_def\<close>)
qed

lemma keeps_same_os_remove:
  assumes "clean_abs r" and "outside r p"
  shows "keeps (shed_same r w0) (os_remove p)"
  unfolding os_remove_def
proof (rule keeps_bindE [OF keeps_same_check])
  have "shed_same r w0 (put_file p None w)" if "shed_same r w0 w" for w
    using that by (rule shed_same_step) (use outside_meta_path [OF assms] in \<open>auto simp: not_link_def\<close>)
  then show "keeps (shed_same r w0) (\<lambda>w. case files w (path_clean p) of
       None \<Rightarrow> (Inl (Err (NotExist p)), w)
     | Some i \<Rightarrow> if kind i = Directory \<and> \<not> empty_dir (files w) (path_clean p) then
           (Inl (Err (Errorf (''remove '' @ p @ '': directory not empty''))), w)
         else (Inr (), put_file (path_clean p) None w))"
    using outside_clean [OF assms(2)] by (auto simp: keeps_def split: option.split)
qed

lemma keeps_same_rename:
  assumes "clean_abs r" and "outside r p" and "outside r q"
    and "\<And>x. driver_file r x \<Longrightarrow> x \<noteq> q \<and> \<not> below q x"
  shows "keeps (shed_same r w0) (os_rename p q)"
  unfolding os_rename_def
proof (rule keeps_bindE [OF keeps_same_check])
  have "shed_same r w0 (w\<lparr>files := \<lambda>x. if x = q \<or> below q x then files w (p @ drop (length q) x)
      else if x = p \<or> below p x then None else files w x\<rparr>)" if "shed_same r w0 w" for w
    using that by (rule shed_same_step)
      (use outside_meta_path [OF assms(1,2)] outside_meta_path [OF assms(1,3)] assms(4) in
        \<open>auto simp: not_link_def\<close>)
  then show "keeps (shed_same r w0) (\<lambda>w. let a = path_clean p; b = path_clean q in
     case rename_refused (files w) a b of
       Some e \<Rightarrow> (Inl (Err e), w)
     | None \<Rightarrow> (Inr (), w\<lparr>files := (\<lambda>r. if r = b \<or> below b r then files w (a @ drop (length b) r)
                                  else if r = a \<or> below a r then None else files w r)\<rparr>))"
    using outside_clean [OF assms(2)] outside_clean [OF assms(3)]
    by (auto simp: keeps_def Let_def split: option.split)
qed

lemma frame_hview_set_active: "frame hview (set_active i n)"
  unfolding set_active_def by (rule frame_modW) (simp add: hview_def gview_def)

lemma frame_hview_unmount: "frame hview (aufs_unmount env rootPath i)"
  unfolding aufs_unmount_def mounted_def by (intro frame_rules aufs_Unmount_rules)

lemma frame_hview_Put: "frame hview (aufs_Put env rootPath i)"
  unfolding aufs_Put_def
  by (intro frame_rules getParentIds_rules frame_hview_set_active frame_hview_unmount)

lemma keeps_same_Put:
  assumes r: "clean_abs r" and i: "plain_name i" and retrier: "retrier_ok hview run"
  shows "keeps (shed_same r w0) (quotaed_Put (wired_cfg env run r) i)"
proof -
  have run: "frame hview (run (unmount_mnt env p))" for p
    using retrier by (simp add: retrier_ok_def unmount_mnt_rules)
  have store: "outside r (backing_file r i)"
    by (rule outside_below [OF r i]) simp_all
  show ?thesis
    unfolding quotaed_Put_def wired_cfg_def quotaed_cfg.simps aufs_driver_def driver.simps
      backing_Delete_def backingStorePath_def
    by (intro keeps_rules keeps_same_frame [OF run] keeps_same_frame [OF frame_hview_Put]
        keeps_same_frame [OF loop_Unmount_rules(1) [OF retrier]]
        keeps_same_remove_all [OF r store])
qed

lemma keeps_same_remove_dir:
  assumes r: "clean_abs r" and i: "plain_name i" and d: "d \<in> {''mnt'', ''diff''}"
    and rest: "keeps (shed_same r w0) rest"
  shows "keeps (shed_same r w0) (remove_dir (path_join [r, ''aufs'']) d i rest)"
proof -
  have "plain_name d" using d by auto
  then have p: "outside r (path_join [path_join [r, ''aufs''], d, j])" if "plain_name j" for j
    by (intro outside_below(2) [OF r that]) simp_all
  note free = driver_file_not_removing [OF r plain_removing [OF i] d]
  show ?thesis unfolding remove_dir_def Let_def
    by (intro keeps_rules keeps_same_rename [OF r p [OF i] p [OF plain_removing [OF i]] free]
        keeps_same_remove_all [OF r p [OF plain_removing [OF i]]] rest)
qed

lemma keeps_same_aufs_Remove:
  assumes r: "clean_abs r" and i: "plain_name i"
  shows "keeps (shed_same r w0) (aufs_Remove env (path_join [r, ''aufs'']) i)"
proof -
  have "outside r (layers_file r i)"
    by (rule outside_below(2) [OF r i]) simp_all
  then show ?thesis unfolding aufs_Remove_def
    by (intro keeps_rules keeps_same_frame [OF frame_hview_unmount]
        keeps_same_remove_dir [OF r i] insertI1 insertI2 keeps_same_os_remove [OF r])
qed

lemma keeps_same_graph_Delete:
  assumes "\<And>j. ValidateID j \<Longrightarrow> keeps (shed_same r w0) (drv_Remove (driver g) j)"
    and "graph_inv g w" and "i \<in> set (idIndex w)" and "shed_same r w0 w"
    and "graph_Delete g i w = (x, w')"
  shows "shed_same r w0 w'"
proof -
  have v: "ValidateID i" and ix: "index_Get (idIndex w) i = Inr i"
    using assms(2,3) by (auto simp: graph_inv_def index_Get_valid)
  define rest where "rest =
     bindE (handleE (mktemp g) (\<lambda>_. ret False) (\<lambda>_. ret True)) (\<lambda>tmp.
     bindE (modW (\<lambda>w. w\<lparr>idIndex := index_Delete i (idIndex w)\<rparr>)) (\<lambda>_.
     bindE (if tmp then handleE (os_check OpRename (imageRoot g i)) (\<lambda>_. ret False) (\<lambda>_.
              bindE (modW (\<lambda>w. w\<lparr>imageDirs := (imageDirs w)(i := None)\<rparr>)) (\<lambda>_. ret True))
            else ret False) (\<lambda>moved.
     bindE (ignoreE (drv_Remove (driver g) i)) (\<lambda>_.
     if moved then os_check OpRemoveAll (path_join [root g, ''_tmp''])
     else bindE (os_check OpRemoveAll (imageRoot g i)) (\<lambda>_.
       modW (\<lambda>w. w\<lparr>imageDirs := (imageDirs w)(i := None)\<rparr>))))))"
  have dir: "keeps (shed_same r w0) (modW (\<lambda>w. w\<lparr>imageDirs := (imageDirs w)(i := None)\<rparr>))"
    by (rule keeps_same_modW) simp_all
  have index: "keeps (shed_same r w0) (modW (\<lambda>w. w\<lparr>idIndex := index_Delete i (idIndex w)\<rparr>))"
    by (rule keeps_same_modW) simp_all
  have "keeps (shed_same r w0) rest"
    unfolding rest_def mktemp_def
    by (intro keeps_rules keeps_same_check dir index assms(1) v)
  moreover have "rest w = (x, w')"
    using assms(5) by (simp add: graph_Delete_def ix rest_def)
  ultimately show ?thesis using keepsD assms(4) by metis
qed

section \<open>The wired store\<close>

text \<open>The invariant of the graph and of the driver's files.\<close>

definition host_inv :: "'z graph_state_scheme graph \<Rightarrow> 'z graph_state_scheme \<Rightarrow> bool" where
  "host_inv g w \<longleftrightarrow> graph_inv g w \<and> link_free (root g) w"

text \<open>What removing a layer does beyond the graph.\<close>

lemma wired_Remove:
  assumes retrier: "retrier_ok hview run" and r: "clean_abs r"
    and g: "g = wired_graph env run decompress r"
    and inv: "graph_inv g w" and links: "link_free r w" and v: "ValidateID (GraphID i)"
    and run: "Remove (docker_cake g) i w = (x, w')"
  shows "shed_same r w w' \<and> (\<forall>f. no_faults w \<longrightarrow> x = Inl f \<longrightarrow> graph_layers g w' = graph_layers g w)"
proof -
  have "docker_store g" unfolding g by (rule wired_docker_store [OF retrier])
  then have drv: "graph_driver (driver g)" by (simp add: docker_store_def)
  obtain r1 w1 where put: "drv_Put (driver g) (GraphID i) w = (r1, w1)"
    by (cases "drv_Put (driver g) (GraphID i) w")
  have view: "gview w1 = gview w" by (rule frameD [OF graph_driver.Put_frame [OF drv] put])
  have step: "case r1 of Inl f \<Rightarrow> x = Inl f \<and> w' = w1 | Inr _ \<Rightarrow> graph_Delete g (GraphID i) w1 = (x, w')"
    using run put by (auto simp: docker_cake_def docker_Remove_def bindE_def split: sum.splits)
  have inv1: "graph_inv g w1" using inv graph_inv_cong [OF view] by simp
  have "shed_same r w w" using links by (simp add: shed_same_def meta_same_refl)
  then have same: "shed_same r w w1"
    using keepsD [OF keeps_same_Put [OF r ValidateID_plain_name [OF v] retrier]] put
    by (simp add: g wired_graph_def quotaed_driver_def)
  have rem: "keeps (shed_same r w) (drv_Remove (driver g) j)" if "ValidateID j" for j
    using keeps_same_aufs_Remove [OF r ValidateID_plain_name [OF that]]
    by (simp add: g wired_graph_def quotaed_driver_def wired_cfg_def aufs_driver_def)
  have lay1: "graph_layers g w1 = graph_layers g w" by (rule graph_layers_cong [OF view])
  show ?thesis
  proof (cases r1)
    case (Inl f)
    with step same lay1 show ?thesis by simp
  next
    case (Inr u)
    with step have del: "graph_Delete g (GraphID i) w1 = (x, w')" by simp
    show ?thesis
    proof (cases "GraphID i \<in> set (idIndex w1)")
      case True
      have "no_faults w1" if "no_faults w" using that view by (simp add: gview_eq no_faults_def)
      with graph_driver.graph_Delete_no_faults [OF drv inv1 refl True] del
      show ?thesis using keeps_same_graph_Delete [OF rem inv1 True same del] by auto
    next
      case False
      have "index_Get (idIndex w1) (GraphID i) = Inl (Errorf (''no such id: '' @ GraphID i))"
        using inv1 v False by (subst index_Get_valid) (auto simp: graph_inv_def)
      with del have "w' = w1" by (simp add: graph_Delete_def)
      with same lay1 show ?thesis by simp
    qed
  qed
qed

lemma wired_metadata_store:
  assumes retrier: "retrier_ok hview run" and r: "clean_abs r"
  shows "metadata_store (docker_cake (wired_graph env run decompress r))
    (graph_layers (wired_graph env run decompress r)) (host_inv (wired_graph env run decompress r)) r"
proof -
  let ?g = "wired_graph env run decompress r"
  have root: "root ?g = r" by (simp add: wired_graph_def)
  have store: "docker_store ?g" by (rule wired_docker_store [OF retrier])
  note rem = wired_Remove [OF retrier r refl]
  show ?thesis
  proof (intro metadata_store.intro metadata_store_axioms.intro)
    have "layer_store (docker_cake ?g) (graph_layers ?g) (\<lambda>w. graph_inv ?g w \<and> link_free r w)"
      by (rule layer_store.strengthen [OF docker_store.store_contract [OF store]])
        (use rem in \<open>auto simp: shed_same_def\<close>)
    then show "layer_store (docker_cake ?g) (graph_layers ?g) (host_inv ?g)"
      unfolding host_inv_def root .
    show "clean_abs r" by (rule r)
    show "graph_layers ?g w = graph_layers ?g w' \<and> host_inv ?g w = host_inv ?g w'"
      if "beyond_files w = beyond_files w'" "\<forall>q. outside r q \<longrightarrow> files w q = files w' q" for w w'
    proof -
      have "link_free r w = link_free r w'"
        using that(2) driver_file_outside [OF r] by (auto simp: link_free_def not_link_def)
      with graph_layers_cong graph_inv_cong gview_beyond [OF that(1)] show ?thesis
        unfolding host_inv_def root by blast
    qed
  qed (use rem in \<open>auto simp: host_inv_def root shed_same_def\<close>)
qed

section \<open>The store of the server\<close>

text \<open>
  The graphs that \<open>Wire\<close> can build below a root directory: whatever the system calls, the retrier
  (a library that runs the work it is given and nothing else) and the decompression are.  Then the
  layers that clients see through the wrapper, and the invariant of graph, driver files and
  metadata together.
\<close>

definition server_graph :: "string \<Rightarrow> ('k, 'z) host_state_scheme graph \<Rightarrow> bool" where
  "server_graph r g \<longleftrightarrow> clean_abs r \<and>
     (\<exists>env run decompress. retrier_ok hview run \<and> g = wired_graph env run decompress r)"

lemma server_graphE:
  assumes "server_graph r g"
  obtains env run decompress where "clean_abs r" and "retrier_ok hview run"
    and "g = wired_graph env run decompress r"
  using assms by (auto simp: server_graph_def)

lemma root_server: "server_graph r g \<Longrightarrow> root g = r"
  by (auto simp: server_graph_def wired_graph_def)

lemma server_docker_store: "server_graph r g \<Longrightarrow> docker_store g"
  by (erule server_graphE) (simp add: wired_docker_store)

lemma server_metadata_store:
  "server_graph r g \<Longrightarrow> metadata_store (docker_cake g) (graph_layers g) (host_inv g) r"
  by (erule server_graphE) (simp add: wired_metadata_store)

definition shed_layers ::
  "('k, 'z) host_state_scheme graph \<Rightarrow> ('k, 'z) host_state_scheme \<Rightarrow> string \<rightharpoonup> image" where
  "shed_layers g w = aufs_layers (root g) (graph_layers g) w"

definition shed_inv :: "('k, 'z) host_state_scheme graph \<Rightarrow> ('k, 'z) host_state_scheme \<Rightarrow> bool" where
  "shed_inv g w \<longleftrightarrow> host_inv g w \<and> meta_inv (root g) (graph_layers g w) w"

lemma shed_contract:
  assumes "server_graph r g"
  shows "layer_store (aufs_cake (docker_cake g) runner r) (shed_layers g) (shed_inv g)"
  (is "layer_store ?c ?l ?i")
proof -
  have "?l = aufs_layers r (graph_layers g)" "?i = (\<lambda>w. host_inv g w \<and> meta_inv r (graph_layers g w) w)"
    by (auto simp: shed_layers_def shed_inv_def root_server [OF assms])
  then show ?thesis
    using metadata_store.aufs_contract [OF server_metadata_store [OF assms]] by simp
qed

text \<open>The contract on a concrete root directory.\<close>

abbreviation garden_root :: string where
  "garden_root \<equiv> ''/var/vcap/data/garden/aufs_graph''"

lemma clean_garden_root: "clean_abs garden_root"
  by code_simp

interpretation shed_meta: metadata_store
  "docker_cake (wired_graph env (shed_retrier tick) decompress garden_root)"
  "graph_layers (wired_graph env (shed_retrier tick) decompress garden_root)"
  "host_inv (wired_graph env (shed_retrier tick) decompress garden_root)"
  garden_root
  for env tick decompress
  by (rule wired_metadata_store [OF shed_retrier_ok clean_garden_root])

end
