(* ===== verification/Quota_Manager.thy ===== *)
theory Quota_Manager
  imports Shed_Store
begin

text \<open>
  Disk usage: \<open>src/quota_manager\<close> (\<open>aufs_base_sizer.go\<close>, \<open>aufs_diff_sizer.go\<close>,
  \<open>aufs_quota_manager.go\<close>, \<open>disabled_quota_manager.go\<close>) and
  \<open>src/rootfs_provider/metrics_adapter.go\<close>.

  \<open>BaseSize\<close> follows the chain of parents with no bound, so it is a \<open>partial_function\<close>: \<open>None\<close> is a
  loop that never ends, which a cyclic chain would be.  Sizes are \<open>uint64\<close> and sums wrap.
\<close>

section \<open>The layers under a container\<close>

partial_function (option) base_loop ::
  "'w cake \<Rightarrow> string \<Rightarrow> uint64 \<Rightarrow> 'w \<Rightarrow> (uint64 outcome \<times> 'w) option" where
  "base_loop cake graphID sz w =
     (if graphID = [] then Some (Inr sz, w)
      else case Get cake (DockerImageID graphID) w of
        (Inl (Err e), w') \<Rightarrow> Some (Inl (Err (Errorf (''base-size '' @ graphID @ '': '' @ err_msg e))), w')
      | (Inl (Panic s), w') \<Rightarrow> Some (Inl (Panic s), w')
      | (Inr img, w') \<Rightarrow> base_loop cake (Parent img) (sz + Size img) w')"

definition BaseSize :: "'w cake \<Rightarrow> string \<Rightarrow> 'w \<Rightarrow> (uint64 outcome \<times> 'w) option" where
  "BaseSize cake containerRootFSPath w = base_loop cake (path_base containerRootFSPath) 0 w"

text \<open>A chain of layers from \<open>i\<close> up to one without a parent.\<close>

fun chain :: "(string \<rightharpoonup> image) \<Rightarrow> string \<Rightarrow> image list \<Rightarrow> bool" where
  "chain L i [] \<longleftrightarrow> i = []"
| "chain L i (img # imgs) \<longleftrightarrow> i \<noteq> [] \<and> L i = Some img \<and> chain L (Parent img) imgs"

definition sum_sizes :: "image list \<Rightarrow> uint64" where
  "sum_sizes imgs = sum_list (map Size imgs)"

text \<open>A chain that is broken at \<open>j\<close>: the layers up to there are present, \<open>j\<close> is not.\<close>

fun broken_chain :: "(string \<rightharpoonup> image) \<Rightarrow> string \<Rightarrow> image list \<Rightarrow> string \<Rightarrow> bool" where
  "broken_chain L i [] j \<longleftrightarrow> i = j \<and> ValidateID j \<and> L j = None"
| "broken_chain L i (img # imgs) j \<longleftrightarrow> i \<noteq> [] \<and> L i = Some img \<and> broken_chain L (Parent img) imgs j"

context layer_store
begin

lemma base_loop_chain:
  assumes "good w"
  shows "chain (layers w) i imgs \<Longrightarrow> base_loop cake i sz w = Some (Inr (sz + sum_sizes imgs), w)"
proof (induction imgs arbitrary: i sz)
  case Nil
  then show ?case by (simp add: base_loop.simps [of cake "[]"] sum_sizes_def)
next
  case (Cons img imgs)
  then have "Get cake (DockerImageID i) w = (Inr img, w)"
    using Get_present [OF assms, of "DockerImageID i" img] by simp
  with Cons show ?case by (simp add: base_loop.simps [of cake i] sum_sizes_def add.assoc)
qed

lemma base_loop_broken:
  assumes "good w"
  shows "broken_chain (layers w) i imgs j \<Longrightarrow> \<exists>e. base_loop cake i sz w = Some (Inl (Err e), w)"
proof (induction imgs arbitrary: i sz)
  case Nil
  then have "i \<noteq> []" and "\<exists>e. Get cake (DockerImageID i) w = (Inl (Err e), w)"
    using Get_absent [OF assms, of "DockerImageID i"] by (auto dest: ValidateID_nonempty)
  then show ?case by (auto simp: base_loop.simps [of cake i])
next
  case (Cons img imgs)
  then have "Get cake (DockerImageID i) w = (Inr img, w)"
    using Get_present [OF assms, of "DockerImageID i" img] by simp
  with Cons show ?case by (simp add: base_loop.simps [of cake i])
qed

end

section \<open>The container's own layer\<close>

text \<open>
  The usage of the file system that is mounted at the layer's directory, as \<open>df\<close> prints it.  The
  text of a failing command's output is left out of the error message.
\<close>

text \<open>\<open>fmt.Sscanf\<close> with \<open>%d\<close> into a \<open>uint64\<close>: leading blanks, digits, no overflow.\<close>

definition scan_uint64 :: "string \<Rightarrow> uint64 option" where
  "scan_uint64 s =
     (let ds = takeWhile is_digit (dropWhile (\<lambda>c. c = CHR '' '' \<or> c = CHR 0x09) s) in
      if ds = [] \<or> 2 ^ 64 \<le> read_nat ds then None else Some (word_of_nat (read_nat ds)))"

definition df_command :: "string \<Rightarrow> string" where
  "df_command path = ''df -B 1 '' @ path @ '' | tail -n1 | awk -v N=3 '' @ [CHR 0x27] @ ''{print $N}'' @ [CHR 0x27]"

definition DiffSize :: "'k env \<Rightarrow> string \<Rightarrow> (('k, 'z) host_state_scheme, uint64) prog" where
  "DiffSize env containerRootFSPath =
     (let df = bindE (handleE (on_kernel (exec env [''sh'', ''-c'', df_command (GetDiffLayerPath containerRootFSPath)]))
            (\<lambda>e. throw (Errorf (''get usage: df: '' @ err_msg e))) ret) (\<lambda>out.
          ret (case scan_uint64 out of None \<Rightarrow> 0 | Some n \<Rightarrow> n))
      in handleE (os_stat containerRootFSPath)
        (\<lambda>e. if is_not_exist e then throw (Errorf (''get usage: '' @ err_msg e)) else df)
        (\<lambda>_. df))"

section \<open>Usage\<close>

record disk_stat =
  TotalBytesUsed :: uint64
  ExclusiveBytesUsed :: uint64

record disk_limits =
  ByteSoft :: uint64
  ByteHard :: uint64

definition no_stat :: disk_stat where
  "no_stat = \<lparr>TotalBytesUsed = 0, ExclusiveBytesUsed = 0\<rparr>"

definition no_limits :: disk_limits where
  "no_limits = \<lparr>ByteSoft = 0, ByteHard = 0\<rparr>"

text \<open>The two sizers are interfaces of the manager.\<close>

definition GetUsage ::
  "(string \<Rightarrow> 'w \<Rightarrow> (uint64 outcome \<times> 'w) option) \<Rightarrow> (string \<Rightarrow> ('w, uint64) prog) \<Rightarrow>
    string \<Rightarrow> 'w \<Rightarrow> (disk_stat outcome \<times> 'w) option" where
  "GetUsage baseSizer diffSizer path w =
     (case baseSizer path w of
        None \<Rightarrow> None
      | Some (Inl f, w1) \<Rightarrow> Some (Inl f, w1)
      | Some (Inr base, w1) \<Rightarrow>
          Some (bindE (diffSizer path) (\<lambda>diff.
            ret \<lparr>TotalBytesUsed = diff + base, ExclusiveBytesUsed = diff\<rparr>) w1))"

definition SetLimits :: "string \<Rightarrow> disk_limits \<Rightarrow> ('w, unit) prog" where
  "SetLimits path limits = ret ()"

definition GetLimits :: "string \<Rightarrow> ('w, disk_limits) prog" where
  "GetLimits path = ret no_limits"

definition quota_Setup :: "('w, unit) prog" where
  "quota_Setup = ret ()"

text \<open>The disabled manager reports no usage.\<close>

definition disabled_GetUsage :: "string \<Rightarrow> ('w, disk_stat) prog" where
  "disabled_GetUsage path = ret no_stat"

text \<open>The metrics of a layer: the usage of the path its ID is mounted at.\<close>

definition Metrics ::
  "(string \<Rightarrow> 'w \<Rightarrow> (disk_stat outcome \<times> 'w) option) \<Rightarrow> (layer_id \<Rightarrow> string) \<Rightarrow> layer_id \<Rightarrow>
    'w \<Rightarrow> (disk_stat outcome \<times> 'w) option" where
  "Metrics usage id2path i w = usage (id2path i) w"

text \<open>The base name of the mount path of a layer is its graph ID again.\<close>

lemma path_base_abs:
  assumes "n \<noteq> []" and "slash \<notin> set n"
  shows "path_base (d @ slash # n) = n"
proof -
  have "last n \<noteq> slash" using assms last_in_set by metis
  then have "rev n \<noteq> []" "hd (rev n) \<noteq> slash" using assms(1) by (simp_all add: hd_rev)
  then have "dropWhile (\<lambda>c. c = slash) (rev n @ slash # rev d) = rev n @ slash # rev d"
    by (cases "rev n") auto
  moreover have "takeWhile (\<lambda>c. c \<noteq> slash) (rev n @ slash # rev d) = rev n"
    using assms(2) takeWhile_append2 [of "rev n" "\<lambda>c. c \<noteq> slash" "slash # rev d"] by auto
  ultimately show ?thesis using assms(1) by (simp add: path_base_def)
qed

lemma path_base_mnt:
  assumes "clean_abs (RootPath cfg)" and "ValidateID (GraphID i)"
  shows "path_base (GetMntPath cfg i) = GraphID i"
proof -
  obtain cs where cs: "RootPath cfg = abs_path cs" "list_all plain_name cs"
    using assms(1) by (rule clean_abs_comps)
  note pn = ValidateID_plain_name [OF assms(2)]
  have "path_join [abs_path cs, ''aufs'', ''mnt'', GraphID i] = abs_path (cs @ [''aufs'', ''mnt'', GraphID i])"
    using path_join_all [OF cs(2), of "[''aufs'', ''mnt'', GraphID i]"] pn by simp
  also have "\<dots> = abs_path (cs @ [''aufs'', ''mnt'']) @ slash # GraphID i"
    by (simp add: abs_path_def join_with_append [of "cs @ [''aufs'', ''mnt'']" "[GraphID i]", simplified])
  finally show ?thesis
    using pn by (simp add: GetMntPath_def makeMntPath_def cs(1) path_base_abs plain_name_def)
qed

end
