(* ===== verification/Cakeordinator.thy ===== *)
theory Cakeordinator
  imports Container_Layers Quota_Manager
begin

text \<open>
  \<open>CakeOrdinator\<close> (\<open>src/rootfs_provider/cakeordinator.go\<close>): creating, measuring and destroying
  the layers of containers, and collecting garbage.

  The first part is what each method does; the second is how the methods interleave.  \<open>Create\<close>
  holds the read side of a \<open>sync.RWMutex\<close> and \<open>GC\<close> its write side; \<open>Destroy\<close> and \<open>Metrics\<close> take no
  lock.
\<close>

section \<open>The methods\<close>

record 'w cake_ordinator =
  ordCake :: "'w cake"
  ordFetcher :: "'w fetcher"
  ordLayers :: "string \<Rightarrow> fetched \<Rightarrow> rootfs_spec \<Rightarrow> ('w, string \<times> string list) prog"
  ordMetrics :: "layer_id \<Rightarrow> 'w \<Rightarrow> (disk_stat outcome \<times> 'w) option"
  ordGC :: "'w cake \<Rightarrow> 'w \<Rightarrow> (unit outcome \<times> 'w) option"

record bundle_spec =
  specRoot :: string
  specEnv :: "string list"

definition fetcherDiskQuota :: "rootfs_spec \<Rightarrow> int64" where
  "fetcherDiskQuota spec = (if QuotaScope spec = DiskLimitScopeExclusive then 0 else QuotaSize spec)"

definition Cakeordinator_Create ::
  "'w cake_ordinator \<Rightarrow> string \<Rightarrow> rootfs_spec \<Rightarrow> ('w, bundle_spec) prog" where
  "Cakeordinator_Create c i spec =
     bindE (Fetch (ordFetcher c) (RootFS spec) (Username spec) (Password spec) (fetcherDiskQuota spec)) (\<lambda>img.
     bindE (ordLayers c i img spec) (\<lambda>(rootFS, env).
     ret \<lparr>specRoot = rootFS, specEnv = env\<rparr>))"

definition Cakeordinator_Metrics ::
  "'w cake_ordinator \<Rightarrow> string \<Rightarrow> 'w \<Rightarrow> (disk_stat outcome \<times> 'w) option" where
  "Cakeordinator_Metrics c i w = ordMetrics c (ContainerID i) w"

definition Destroy :: "'w cake_ordinator \<Rightarrow> string \<Rightarrow> ('w, unit) prog" where
  "Destroy c i =
     handleE (Get (ordCake c) (ContainerID i)) (\<lambda>_. ret ()) (\<lambda>_. Remove (ordCake c) (ContainerID i))"

definition Cakeordinator_GC :: "'w cake_ordinator \<Rightarrow> 'w \<Rightarrow> (unit outcome \<times> 'w) option" where
  "Cakeordinator_GC c w = ordGC c (ordCake c) w"

section \<open>Interleavings\<close>

text \<open>
  The goroutines that call the methods.  The state of the \<open>RWMutex\<close> is the set of readers and the
  writer; a step that takes a lock is enabled when the lock can be taken.
\<close>

datatype method_pc =
    Outside | WantRead | Creating | WantWrite | Collecting | Destroying | Measuring

record rw_state =
  readers :: "nat set"
  writer :: "nat option"
  calls :: "nat \<Rightarrow> method_pc"

definition rw_init :: rw_state where
  "rw_init = \<lparr>readers = {}, writer = None, calls = (\<lambda>_. Outside)\<rparr>"

inductive rw_step :: "rw_state \<Rightarrow> rw_state \<Rightarrow> bool" where
  Create_call: "calls s t = Outside \<Longrightarrow> rw_step s (s\<lparr>calls := (calls s)(t := WantRead)\<rparr>)"
| Create_RLock: "calls s t = WantRead \<Longrightarrow> writer s = None \<Longrightarrow>
    rw_step s (s\<lparr>readers := insert t (readers s), calls := (calls s)(t := Creating)\<rparr>)"
| Create_RUnlock: "calls s t = Creating \<Longrightarrow>
    rw_step s (s\<lparr>readers := readers s - {t}, calls := (calls s)(t := Outside)\<rparr>)"
| GC_call: "calls s t = Outside \<Longrightarrow> rw_step s (s\<lparr>calls := (calls s)(t := WantWrite)\<rparr>)"
| GC_Lock: "calls s t = WantWrite \<Longrightarrow> writer s = None \<Longrightarrow> readers s = {} \<Longrightarrow>
    rw_step s (s\<lparr>writer := Some t, calls := (calls s)(t := Collecting)\<rparr>)"
| GC_Unlock: "calls s t = Collecting \<Longrightarrow>
    rw_step s (s\<lparr>writer := None, calls := (calls s)(t := Outside)\<rparr>)"
| Destroy_call: "calls s t = Outside \<Longrightarrow> rw_step s (s\<lparr>calls := (calls s)(t := Destroying)\<rparr>)"
| Destroy_return: "calls s t = Destroying \<Longrightarrow> rw_step s (s\<lparr>calls := (calls s)(t := Outside)\<rparr>)"
| Metrics_call: "calls s t = Outside \<Longrightarrow> rw_step s (s\<lparr>calls := (calls s)(t := Measuring)\<rparr>)"
| Metrics_return: "calls s t = Measuring \<Longrightarrow> rw_step s (s\<lparr>calls := (calls s)(t := Outside)\<rparr>)"

inductive rw_reachable :: "rw_state \<Rightarrow> bool" where
  init: "rw_reachable rw_init"
| step: "rw_reachable s \<Longrightarrow> rw_step s s' \<Longrightarrow> rw_reachable s'"

inductive_cases rw_stepE: "rw_step s s'"

definition rw_inv :: "rw_state \<Rightarrow> bool" where
  "rw_inv s \<longleftrightarrow> (\<forall>t. t \<in> readers s \<longleftrightarrow> calls s t = Creating) \<and>
     (\<forall>t. writer s = Some t \<longleftrightarrow> calls s t = Collecting) \<and>
     (writer s \<noteq> None \<longrightarrow> readers s = {})"

lemma rw_inv_reachable: "rw_reachable s \<Longrightarrow> rw_inv s"
proof (induction rule: rw_reachable.induct)
  case init
  show ?case by (simp add: rw_inv_def rw_init_def)
next
  case (step s s')
  from step.hyps(2) step.IH show ?case
    by cases (auto simp: rw_inv_def, metis option.inject)
qed

section \<open>What the lock of the ordinator guarantees\<close>

text \<open>
  C25: No collection during a creation.  In every interleaving of the methods, while a thread is
  collecting no thread is inside \<open>Create\<close> and no other thread is collecting.
\<close>

theorem GC_excludes_Create:
  assumes "rw_reachable s" and "calls s t = Collecting"
  shows "calls s u \<noteq> Creating \<and> (u \<noteq> t \<longrightarrow> calls s u \<noteq> Collecting)"
proof -
  have inv: "\<forall>t. t \<in> readers s \<longleftrightarrow> calls s t = Creating" "\<forall>t. writer s = Some t \<longleftrightarrow> calls s t = Collecting"
    "writer s \<noteq> None \<longrightarrow> readers s = {}"
    using rw_inv_reachable [OF assms(1)] by (simp_all add: rw_inv_def)
  have w: "writer s = Some t" using inv(2) assms(2) by blast
  then have "u \<notin> readers s" using inv(3) by simp
  then show ?thesis using inv(1,2) w by (metis option.inject)
qed

definition collecting_state :: "nat \<Rightarrow> (nat \<Rightarrow> method_pc) \<Rightarrow> rw_state" where
  "collecting_state t c = \<lparr>readers = {}, writer = Some t, calls = c\<rparr>"

lemma collecting_reachable: "rw_reachable (collecting_state 1 ((\<lambda>_. Outside)(1 := Collecting)))"
proof -
  let ?s = "rw_init\<lparr>calls := (calls rw_init)(1 := WantWrite)\<rparr>"
  have "rw_reachable ?s" by (rule rw_reachable.step [OF rw_reachable.init GC_call]) (simp add: rw_init_def)
  then have "rw_reachable (?s\<lparr>writer := Some 1, calls := (calls ?s)(1 := Collecting)\<rparr>)"
    by (rule rw_reachable.step [OF _ GC_Lock]) (simp_all add: rw_init_def)
  then show ?thesis by (simp add: collecting_state_def rw_init_def)
qed

lemma GC_excludes_Create_witness:
  "calls (collecting_state 1 ((\<lambda>_. Outside)(1 := Collecting))) 2 \<noteq> Creating"
  using GC_excludes_Create [OF collecting_reachable, of 1 2] by (simp add: collecting_state_def)

end
