(* ===== verification/Health_Check.thy ===== *)
theory Health_Check
  imports Fetching
begin

text \<open>
  The health check of the graph directory, \<open>src/layercake/healthcheck.go\<close>: the directory is
  healthy when a temporary file can be made in it; the file is removed again.
\<close>

definition HealthCheck :: "(nat \<Rightarrow> string) \<Rightarrow> string \<Rightarrow> ('z os_state_scheme, unit) prog" where
  "HealthCheck rnd gp =
     bindE (handleE (temp_file rnd gp ''healthprobe'')
       (\<lambda>e. throw (Errorf (''graph directory '' @ [CHR 0x27] @ gp @ [CHR 0x27] @ '' is not writeable: '' @ err_msg e)))
       ret) (\<lambda>f.
     ignoreE (os_remove f))"

lemma temp_clean:
  assumes "clean_abs d" and "random_digits rnd" and "plain_name pat" and "\<exists>c \<in> set pat. c \<noteq> CHR ''.''"
    and "temp_name rnd fs (path_join [d, pat]) n i = Some q"
  shows "clean_abs q"
proof -
  obtain cs where cs: "d = abs_path cs" "list_all plain_name cs" by (rule clean_abs_comps [OF assms(1)])
  obtain j where q: "q = path_join [d, pat] @ rnd j" using temp_name_form [OF assms(5)] by blast
  have "plain_name (pat @ rnd j)"
    using assms(3,4) random_no_slash [OF assms(2)] by (auto simp: plain_name_def append_eq_Cons_conv)
  moreover have "path_join [d, pat] = abs_path (cs @ [pat])"
    unfolding cs(1) by (rule path_join_plain) (use cs(2) assms(3) in auto)
  then have "q = abs_path (cs @ [pat @ rnd j])"
    using q by (cases "cs = []") (simp_all add: abs_path_def join_with_append)
  ultimately show ?thesis using cs(2) by (simp add: clean_abs_abs_path)
qed

section \<open>What the check answers\<close>

text \<open>
  C37: The health check is exact.  On any file system, with any system call failing or not, it
  succeeds exactly when a file can be opened in the graph directory, which is a directory, and one of
  the ten thousand names that are tried is free.  Otherwise it answers with an error that names the
  directory and carries the error of the open call, and no file has changed.  On success every file
  is as before, unless removing the probe fails: then exactly that empty file is left behind.
\<close>

theorem HealthCheck_exact:
  assumes "clean_abs gp" and "random_digits rnd"
  shows "let p = path_join [gp, ''healthprobe''];
      writable = (os_fault w OpOpen p = None \<and> is_dir_at (files w) gp);
      message = (\<lambda>e. Err (Errorf (''graph directory '' @ [CHR 0x27] @ gp @ [CHR 0x27] @ '' is not writeable: '' @ err_msg e)))
    in case (temp_name rnd (files w) p 10000 0, HealthCheck rnd gp w) of
      (Some q, (Inr _, w')) \<Rightarrow> writable \<and> files w q = None \<and>
        w' = (if os_fault w OpRemove q = None then w else put_file q (Some (new_inode (Regular []))) w)
    | (None, (Inr _, w')) \<Rightarrow> False
    | (name, (Inl f, w')) \<Rightarrow> \<not> (writable \<and> name \<noteq> None) \<and> w' = w \<and>
        (\<exists>e. f = message e) \<and> (\<forall>e. os_fault w OpOpen p = Some e \<longrightarrow> f = message e)"
proof -
  let ?p = "path_join [gp, ''healthprobe'']"
  have p: "path_clean ?p = ?p"
    using clean_abs_join [OF assms(1), of "''healthprobe''"] by (simp add: plain_name_def)
  let ?message = "\<lambda>e. Err (Errorf (''graph directory '' @ [CHR 0x27] @ gp @ [CHR 0x27] @ '' is not writeable: '' @ err_msg e))"
  let ?writable = "os_fault w OpOpen ?p = None \<and> is_dir_at (files w) gp"
  let ?name = "temp_name rnd (files w) ?p 10000 0"
  show ?thesis
  proof (cases "?writable \<and> ?name \<noteq> None")
    case False
    have "\<exists>e. temp_file rnd gp ''healthprobe'' w = (Inl (Err e), w) \<and>
        (\<forall>f. os_fault w OpOpen ?p = Some f \<longrightarrow> f = e)"
      unfolding temp_file_def Let_def os_check_def bindE_def using False p
      by (cases "os_fault w OpOpen ?p"; cases ?name) simp_all
    then obtain e where e: "temp_file rnd gp ''healthprobe'' w = (Inl (Err e), w)"
      "\<forall>f. os_fault w OpOpen ?p = Some f \<longrightarrow> f = e" by blast
    from e(1) have "HealthCheck rnd gp w = (Inl (?message e), w)"
      by (simp add: HealthCheck_def bindE_def handleE_def throw_def)
    then show ?thesis using False e(2) unfolding Let_def by (auto simp del: append_Cons split: option.split)
  next
    case True
    then obtain q where name: "?name = Some q" by blast
    have "clean_abs q"
      by (rule temp_clean [OF assms _ _ name]) (simp_all add: plain_name_def)
    then have q: "path_clean q = q" by simp
    have free: "files w q = None" by (rule temp_name_free [OF name])
    have "HealthCheck rnd gp w =
        (Inr (), if os_fault w OpRemove q = None then w else put_file q (Some (new_inode (Regular []))) w)"
      unfolding HealthCheck_def temp_file_def Let_def os_check_def os_remove_def bindE_def using True name q free p
      by (auto simp: handleE_def ignoreE_def put_file_def new_inode_def fun_upd_idem split: option.split)
    with True name free show ?thesis by simp
  qed
qed

text \<open>A directory in which the check works, and the same on a read-only file system.\<close>

definition probe_world :: "(os_op \<Rightarrow> string \<Rightarrow> go_error option) \<Rightarrow> os_state" where
  "probe_world fault = \<lparr>files = [''/g'' \<mapsto> new_inode Directory], os_fault = fault\<rparr>"

lemma HealthCheck_exact_witness:
  "HealthCheck (\<lambda>_. ''7'') ''/g'' (probe_world (\<lambda>_ _. None)) = (Inr (), probe_world (\<lambda>_ _. None)) \<and>
    (\<exists>f. HealthCheck (\<lambda>_. ''7'') ''/g'' (probe_world (\<lambda>oper _. if oper = OpOpen then Some EOF else None)) =
      (Inl f, probe_world (\<lambda>oper _. if oper = OpOpen then Some EOF else None)))"
    (is "?works \<and> ?fails")
proof -
  let ?rnd = "\<lambda>_::nat. ''7''"
  have p: "path_join [''/g'', ''healthprobe''] = ''/g/healthprobe''" and c: "clean_abs ''/g''"
    by code_simp+
  have rnd: "random_digits ?rnd" by (simp add: random_digits_def is_digit_def)
  have name: "temp_name ?rnd [''/g'' \<mapsto> new_inode Directory] ''/g/healthprobe'' 10000 0 = Some ''/g/healthprobe7''"
    using temp_name.simps(2) [of ?rnd "[''/g'' \<mapsto> new_inode Directory]" "''/g/healthprobe''" 9999 0] by simp
  note exact = HealthCheck_exact [OF c rnd, unfolded p Let_def]
  let ?ok = "\<lambda>_ _. None" and ?ro = "\<lambda>oper _. if oper = OpOpen then Some EOF else None"
  have ?works
    using exact [of "probe_world ?ok"] name
    by (auto simp: probe_world_def is_dir_at_def split: prod.splits sum.splits)
  moreover have ?fails
    using exact [of "probe_world ?ro"] name
    by (auto simp: probe_world_def split: prod.splits sum.splits)
  ultimately show ?thesis by blast
qed

end
