(* ===== verification/Wire.thy ===== *)
theory Wire
  imports Cakeordinator Health_Check
begin

text \<open>
  Putting the parts together: \<open>Wire\<close> of \<open>src/rootfs_provider/rootfs_provider.go\<close>.

  What the libraries provide is a parameter: the environment \<open>env\<close> of system calls, the retrier,
  the decompression, the dialer, the tar archiver, the command runner, the namespacer (whose walk
  over the files is the theory \<open>Uid_Namespace\<close>).  The start-up effects come first, then the
  objects, which are records of the components' definitions.
\<close>

text \<open>A fatal log entry panics.\<close>

definition or_fatal :: "string \<Rightarrow> ('w, unit) prog \<Rightarrow> ('w, unit) prog" where
  "or_fatal msg m = handleE m (\<lambda>_. panic msg) ret"

definition Wire_start :: "'k env \<Rightarrow> string \<Rightarrow> (('k, 'z) host_state_scheme, unit) prog" where
  "Wire_start env graphRoot =
     bindE (ignoreE (on_kernel (exec env [''modprobe'', ''aufs'']))) (\<lambda>_.
     bindE (or_fatal ''failed-to-create-graph-directory'' (mkdir_all graphRoot)) (\<lambda>_.
     or_fatal ''failed-to-mkdir-backing-stores'' (mkdir_all (path_join [graphRoot, ''backing_stores'']))))"

text \<open>The cake: docker's graph, wrapped when its driver is aufs.\<close>

definition wired_cake ::
  "'z graph_state_scheme graph \<Rightarrow> (string list \<Rightarrow> ('z graph_state_scheme, unit) prog) \<Rightarrow> string \<Rightarrow>
    'z graph_state_scheme cake" where
  "wired_cake g runner graphRoot =
     (let cake = docker_cake g in
      if DriverName cake = ''aufs'' then aufs_cake cake runner graphRoot else cake)"

definition wired_fetcher ::
  "'z os_state_scheme cake \<Rightarrow> string \<Rightarrow> string \<Rightarrow> (string \<Rightarrow> ('z os_state_scheme, reader) prog) \<Rightarrow>
    (string \<Rightarrow> string \<Rightarrow> string \<Rightarrow> string \<Rightarrow> ('z os_state_scheme, 'z os_state_scheme conn) prog) \<Rightarrow>
    (layer_stream \<Rightarrow> digest \<Rightarrow> ('z os_state_scheme, verified) prog) \<Rightarrow> 'z os_state_scheme fetcher" where
  "wired_fetcher cake rootFS dockerRegistry tar dial verify =
     Retryable (CompositeFetcher (local_fetcher_of (wired_local cake rootFS tar))
       (remote_fetcher_of (wired_remote cake dockerRegistry dial verify)))"

text \<open>The threshold is given in megabytes.\<close>

definition wired_threshold :: "int64 \<Rightarrow> threshold" where
  "wired_threshold megabytes = NewThreshold (megabytes * 1024 * 1024)"

definition wired_ordinator ::
  "'z os_state_scheme cake \<Rightarrow> 'z os_state_scheme fetcher \<Rightarrow> 'z os_state_scheme namespacer \<Rightarrow>
    (string \<Rightarrow> 'z os_state_scheme \<Rightarrow> (disk_stat outcome \<times> 'z os_state_scheme) option) \<Rightarrow>
    (layer_id \<Rightarrow> string) \<Rightarrow> retainer \<Rightarrow> int64 \<Rightarrow> 'z os_state_scheme cake_ordinator" where
  "wired_ordinator cake fetcher namespacer usage id2path g megabytes = \<lparr>
     ordCake = cake,
     ordFetcher = fetcher,
     ordLayers = LayerCreator_Create (wired_creator cake namespacer),
     ordMetrics = Metrics usage id2path,
     ordGC = GC (Check g) (wired_threshold megabytes)\<rparr>"

definition wired_usage ::
  "'k env \<Rightarrow> ('k, 'z) host_state_scheme cake \<Rightarrow> string \<Rightarrow> ('k, 'z) host_state_scheme \<Rightarrow>
    (disk_stat outcome \<times> ('k, 'z) host_state_scheme) option" where
  "wired_usage env cake = GetUsage (BaseSize cake) (DiffSize env)"

text \<open>The images that are configured to stay are retained under the namespacer's key.\<close>

definition wired_retain ::
  "'z os_state_scheme fetcher \<Rightarrow> 'z os_state_scheme namespacer \<Rightarrow> string list \<Rightarrow> retainer \<Rightarrow>
    ('z os_state_scheme, retainer) prog" where
  "wired_retain fetcher namespacer persistentImages g =
     Retain_images (FetchID fetcher) ProvideID (CacheKey namespacer) persistentImages g"

lemma wired_cake_aufs:
  "wired_cake (wired_graph env run decompress r) runner r =
     aufs_cake (docker_cake (wired_graph env run decompress r)) runner r"
  by (simp add: wired_cake_def docker_cake_def docker_DriverName_def wired_graph_def
      quotaed_driver_def wired_cfg_def aufs_driver_def)

end
