(* ===== verification/Sample_Worlds.thy ===== *)
theory Sample_Worlds
  imports Wire
begin

text \<open>
  Concrete worlds: a store that holds a given list of images and no metadata files yet, a host with
  a table of mount points, and the IDs and images that the examples use.
\<close>

section \<open>A store of given images\<close>

type_synonym mounts = "string list"

definition mount_point_of :: "string \<Rightarrow> mounts \<Rightarrow> go_error + string" where
  "mount_point_of p k = (if p \<in> set k then Inr [] else Inl (Errorf ''exit status 1''))"

text \<open>
  The commands of \<open>src/docker_drivers/aufs\<close> on a table of mount points: \<open>mountpoint\<close> looks a path up,
  \<open>umount\<close> and the system call fail for a path that is not mounted, \<open>mount\<close> puts its last argument
  into the table; every other command succeeds.
\<close>

definition sample_exec :: "string list \<Rightarrow> mounts \<Rightarrow> (go_error + string) \<times> mounts" where
  "sample_exec args k =
     (if hd args = ''mountpoint'' then (mount_point_of (last args) k, k)
      else if hd args = ''umount'' then (mount_point_of (last args) k, removeAll (last args) k)
      else if hd args = ''mount'' then (Inr [], last args # k)
      else (Inr [], k))"

definition sample_env :: "mounts env" where
  "sample_env = \<lparr>exec = sample_exec, aufsMount = \<lambda>_ _ target _ k. (Inr (), target # k),
     syscall_Unmount = \<lambda>p k. if p \<in> set k then (Inr (), removeAll p k) else (Inl (Errorf ''invalid argument''), k),
     Mounted = \<lambda>p k. Inr (p \<in> set k),
     UntarUncompressed = \<lambda>_ _ k. (Inr (), k), directory_Size = \<lambda>_ _. Inr 0\<rparr>"

definition host_of :: "(string \<rightharpoonup> inode) \<Rightarrow> image list \<Rightarrow> mounts host_state" where
  "host_of fs imgs = \<lparr>files = fs, os_fault = \<lambda>_ _. None,
     idIndex = map ID imgs, imageDirs = map_of (map (\<lambda>im. (ID im, stored_dir im (Size im))) imgs),
     visitOrder = id, kernel = [], active = Map.empty\<rparr>"

abbreviation store_of :: "image list \<Rightarrow> mounts host_state" where
  "store_of imgs \<equiv> host_of Map.empty imgs"

definition plain_image :: "image \<Rightarrow> bool" where
  "plain_image im \<longleftrightarrow> ValidateID (ID im) \<and> ParentID im = [] \<and> 0 \<le> sint (Size im) \<and>
     (Parent im = [] \<or> ValidateID (Parent im))"

lemma no_faults_host_of [simp]: "no_faults (host_of fs imgs)"
  by (simp add: no_faults_def host_of_def)

lemma files_host_of [simp]: "files (host_of fs imgs) = fs"
  by (simp add: host_of_def)

lemma readable_no_faults: "no_faults w \<Longrightarrow> readable g w i"
  by (simp add: readable_def)

lemma stored_image_plain: "plain_image im \<Longrightarrow> stored_image im (Size im) = im"
  by (simp add: plain_image_def stored_image_def stored_parent_def digest_Validate_empty)

lemma loaded_host_of:
  assumes "im \<in> set imgs" and "distinct (map ID imgs)" and "\<forall>im \<in> set imgs. plain_image im"
  shows "loaded g (host_of fs imgs) (ID im) = Some im"
proof -
  have "imageDirs (host_of fs imgs) (ID im) = Some (stored_dir im (Size im))"
    using assms(1,2) by (auto simp: host_of_def map_of_eq_Some_iff comp_def)
  from loadImage_stored [OF readable_no_faults [OF no_faults_host_of] this] assms(1,3)
  have "loadImage g (ID im) (host_of fs imgs) = (Inr (stored_image im (Size im)), host_of fs imgs)"
    by (simp add: plain_image_def)
  then show ?thesis using stored_image_plain assms(1,3) by (simp add: loaded_def)
qed

lemma graph_inv_host_of:
  assumes "distinct (map ID imgs)" and "\<forall>im \<in> set imgs. plain_image im"
  shows "graph_inv g (host_of fs imgs)"
  using assms(2) loaded_host_of [OF _ assms, of _ g] assms(1)
  by (auto simp: graph_inv_def order_ok_def host_of_def plain_image_def image_ok_def)

lemma graph_layers_host_of:
  assumes "distinct (map ID imgs)" and "\<forall>im \<in> set imgs. plain_image im"
  shows "graph_layers g (host_of fs imgs) = map_of (map (\<lambda>im. (ID im, im)) imgs)"
proof
  fix i
  show "graph_layers g (host_of fs imgs) i = map_of (map (\<lambda>im. (ID im, im)) imgs) i"
  proof (cases "\<exists>im \<in> set imgs. ID im = i")
    case True
    then obtain im where im: "im \<in> set imgs" "ID im = i" by blast
    then have "map_of (map (\<lambda>im. (ID im, im)) imgs) i = Some im"
      using assms(1) by (auto simp: map_of_eq_Some_iff comp_def)
    moreover have "i \<in> set (idIndex (host_of fs imgs))" using im by (auto simp: host_of_def)
    ultimately show ?thesis using loaded_host_of [OF im(1) assms] im(2) by (simp add: graph_layers_def)
  next
    case False
    then have "map_of (map (\<lambda>im. (ID im, im)) imgs) i = None" by (auto simp: map_of_eq_None_iff)
    moreover have "i \<notin> set (idIndex (host_of fs imgs))" using False by (auto simp: host_of_def)
    ultimately show ?thesis by (simp add: graph_layers_def)
  qed
qed

text \<open>Without metadata files, the metadata invariant holds and no layer has a recorded parent.\<close>

definition no_meta :: "string \<Rightarrow> (string \<rightharpoonup> inode) \<Rightarrow> bool" where
  "no_meta r fs \<longleftrightarrow> (\<forall>i. ValidateID i \<longrightarrow> fs (child_file r i) = None \<and> fs (parent_file r i) = None) \<and>
     (\<forall>d \<in> {parentChildDir r, childParentDir r}. \<forall>q \<in> set (path_prefixes d). \<forall>j. fs q = Some j \<longrightarrow> kind j = Directory) \<and>
     (\<forall>q j t. fs q = Some j \<longrightarrow> kind j \<noteq> Symlink t)"

lemma no_meta_empty: "no_meta r Map.empty"
  by (simp add: no_meta_def)

lemma meta_inv_no_meta:
  assumes "no_meta r (files w)" and "no_faults w"
  shows "meta_inv r L w"
proof -
  have free: "files w (child_file r i) = None" "files w (parent_file r i) = None" if "ValidateID i" for i
    using assms(1) that unfolding no_meta_def by blast+
  then have "content w (child_file r i) = None" if "ValidateID i" for i using that by (simp add: content_def)
  then have "copies r w i = {}" for i by (auto simp: copies_def)
  with free have each: "child_ok r L w i \<and> parent_ok r w i" if "ValidateID i" for i
    using that by (simp add: child_ok_def parent_ok_def)
  have dirs: "dir_ready d w" if "d \<in> {parentChildDir r, childParentDir r}" for d
    unfolding dir_ready_def
  proof
    fix q assume "q \<in> set (path_prefixes d)"
    with assms(1) that have "\<forall>j. files w q = Some j \<longrightarrow> kind j = Directory" unfolding no_meta_def by blast
    then show "free_or_dir w q" by (simp add: free_or_dir_def split: option.split)
  qed
  show ?thesis unfolding meta_inv_def using assms(2) dirs each by blast
qed

lemma shed_host_of:
  assumes "distinct (map ID imgs)" and "\<forall>im \<in> set imgs. plain_image im" and "no_meta (root g) fs"
  shows "shed_inv g (host_of fs imgs)"
    and "shed_layers g (host_of fs imgs) = map_of (map (\<lambda>im. (ID im, im)) imgs)"
proof -
  have "link_free (root g) (host_of fs imgs)"
    unfolding link_free_def
  proof (intro allI impI)
    fix q
    have "\<forall>j t. fs q = Some j \<longrightarrow> kind j \<noteq> Symlink t" using assms(3) unfolding no_meta_def by blast
    then show "not_link (host_of fs imgs) q" by (cases "fs q") (auto simp: not_link_def split: file_kind.split)
  qed
  then show "shed_inv g (host_of fs imgs)"
    using assms(3) by (simp add: shed_inv_def host_inv_def graph_inv_host_of [OF assms(1,2)] meta_inv_no_meta)
  have free: "fs (child_file (root g) i) = None" if "ValidateID i" for i
    using assms(3) that unfolding no_meta_def by blast
  have same: "aufs_image (root g) (host_of fs imgs) img = img" if "ValidateID (ID img)" for img
    by (simp add: aufs_image_def recorded_parent_def content_def free [OF that])
  show "shed_layers g (host_of fs imgs) = map_of (map (\<lambda>im. (ID im, im)) imgs)"
  proof
    fix i
    show "shed_layers g (host_of fs imgs) i = map_of (map (\<lambda>im. (ID im, im)) imgs) i"
    proof (cases "map_of (map (\<lambda>im. (ID im, im)) imgs) i")
      case (Some img)
      from map_of_SomeD [OF this] have "ValidateID (ID img)" using assms(2) by (auto simp: plain_image_def)
      with Some same show ?thesis by (simp add: shed_layers_def aufs_layers_def graph_layers_host_of [OF assms(1,2)])
    qed (simp add: shed_layers_def aufs_layers_def graph_layers_host_of [OF assms(1,2)])
  qed
qed

lemma shed_store_of:
  assumes "distinct (map ID imgs)" and "\<forall>im \<in> set imgs. plain_image im"
  shows "shed_inv g (store_of imgs)"
    and "shed_layers g (store_of imgs) = map_of (map (\<lambda>im. (ID im, im)) imgs)"
  using shed_host_of [OF assms no_meta_empty] .

section \<open>Example images\<close>

definition base_id :: string where "base_id = replicate 64 (CHR ''a'')"
definition top_id :: string where "top_id = replicate 64 (CHR ''b'')"

definition base_image :: image where
  "base_image = empty_image\<lparr>ID := base_id, Size := 70\<rparr>"

definition top_image :: image where
  "top_image = empty_image\<lparr>ID := top_id, Parent := base_id, Size := 30\<rparr>"

abbreviation two_layers :: "mounts host_state" where
  "two_layers \<equiv> store_of [base_image, top_image]"

lemma sample_ids [simp]: "ValidateID base_id" "ValidateID top_id" "base_id \<noteq> top_id" "top_id \<noteq> base_id"
  "base_id \<noteq> []" "top_id \<noteq> []" "[] \<noteq> top_id"
  by (simp_all add: base_id_def top_id_def ValidateID_def list_all_iff is_lower_hex_def is_digit_def)

lemma sample_images [simp]:
  "ID base_image = base_id" "ID top_image = top_id" "Parent base_image = []" "Parent top_image = base_id"
  "Size base_image = 70" "Size top_image = 30" "Container base_image = []" "Container top_image = []"
  "plain_image base_image" "plain_image top_image"
  by (simp_all add: base_image_def top_image_def empty_image_def plain_image_def)

lemma two_layers [simp]:
  "shed_inv g two_layers" "graph_inv g two_layers"
  "shed_layers g two_layers = [base_id \<mapsto> base_image, top_id \<mapsto> top_image]"
  "graph_layers g two_layers = [base_id \<mapsto> base_image, top_id \<mapsto> top_image]"
proof -
  have a: "distinct (map ID [base_image, top_image])" "\<forall>im \<in> set [base_image, top_image]. plain_image im"
    by simp_all
  show "shed_inv g two_layers" by (rule shed_store_of(1) [OF a])
  show "graph_inv g two_layers" by (rule graph_inv_host_of [OF a])
  show "shed_layers g two_layers = [base_id \<mapsto> base_image, top_id \<mapsto> top_image]"
    unfolding shed_store_of(2) [OF a] by auto
  show "graph_layers g two_layers = [base_id \<mapsto> base_image, top_id \<mapsto> top_image]"
    unfolding graph_layers_host_of [OF a] by auto
qed

lemma two_layers_leaf [simp]:
  "leaf [base_id \<mapsto> base_image, top_id \<mapsto> top_image] i \<longleftrightarrow> i = top_id"
  (is "leaf ?L i \<longleftrightarrow> _")
proof
  assume l: "leaf ?L i"
  have "?L top_id = Some top_image" by simp
  with l have "Parent top_image \<noteq> i" unfolding leaf_def by blast
  with leaf_dom [OF l] show "i = top_id" by auto
next
  have "\<forall>j img. ?L j = Some img \<longrightarrow> Parent img \<noteq> top_id" by simp
  then show "leaf ?L i" if "i = top_id" using that by (simp add: leaf_def)
qed

text \<open>A container's layer on the base image, and the layer of the container \<open>web\<close> alone.\<close>

definition run_id :: string where "run_id = replicate 64 (CHR ''c'')"

definition run_image :: image where
  "run_image = empty_image\<lparr>ID := run_id, Parent := base_id, Container := ''run'', Size := 5\<rparr>"

definition web_image :: image where
  "web_image = empty_image\<lparr>ID := shaID ''web'', Container := ''web'', Size := 5\<rparr>"

abbreviation one_container :: "mounts host_state" where
  "one_container \<equiv> store_of [base_image, run_image]"

abbreviation web_container :: "mounts host_state" where
  "web_container \<equiv> store_of [web_image]"

lemma run_id [simp]: "ValidateID run_id" "base_id \<noteq> run_id" "run_id \<noteq> base_id" "run_id \<noteq> top_id"
  by (simp_all add: run_id_def base_id_def top_id_def ValidateID_def list_all_iff is_lower_hex_def is_digit_def)

lemma valid_shaID_web [simp]: "ValidateID (shaID ''web'')"
  by (simp add: ValidateID_shaID_iff)

lemma sample_container [simp]:
  "ID run_image = run_id" "Parent run_image = base_id"
  "Container run_image = ''run''" "Size run_image = 5" "plain_image run_image"
  "ID web_image = shaID ''web''" "Parent web_image = []" "plain_image web_image"
  by (simp_all add: run_image_def web_image_def empty_image_def plain_image_def)

lemma one_container [simp]:
  "shed_inv g one_container"
  "shed_layers g one_container = [base_id \<mapsto> base_image, run_id \<mapsto> run_image]"
proof -
  have a: "distinct (map ID [base_image, run_image])" "\<forall>im \<in> set [base_image, run_image]. plain_image im"
    by simp_all
  show "shed_inv g one_container" by (rule shed_store_of(1) [OF a])
  show "shed_layers g one_container = [base_id \<mapsto> base_image, run_id \<mapsto> run_image]"
    unfolding shed_store_of(2) [OF a] by auto
qed

lemma web_container [simp]:
  "shed_inv g web_container" "shed_layers g web_container = [shaID ''web'' \<mapsto> web_image]"
  "leaf [shaID ''web'' \<mapsto> web_image] (shaID ''web'')"
proof -
  have a: "distinct (map ID [web_image])" "\<forall>im \<in> set [web_image]. plain_image im"
    by simp_all
  show "shed_inv g web_container" by (rule shed_store_of(1) [OF a])
  show "shed_layers g web_container = [shaID ''web'' \<mapsto> web_image]"
    unfolding shed_store_of(2) [OF a] by auto
  have "shaID ''web'' \<noteq> []" using ValidateID_shaID_iff [of "''web''"] ValidateID_nonempty by blast
  then show "leaf [shaID ''web'' \<mapsto> web_image] (shaID ''web'')"
    by (auto simp: leaf_def split: if_splits)
qed

abbreviation sample_graph :: "mounts host_state graph" where
  "sample_graph \<equiv> wired_graph sample_env (shed_retrier id) Inr garden_root"

lemma sample_server: "server_graph garden_root sample_graph"
  unfolding server_graph_def using shed_retrier_ok clean_garden_root by blast

end
