(* ===== verification/Collection.thy ===== *)
theory Collection
  imports Sample_Worlds
begin

text \<open>
  Collecting on the store of the server: the wrapper around docker's graph that \<open>Wire\<close> builds,
  with the cleaner and the image retainer.  The lemmas instantiate the contracts of the parts.
\<close>

section \<open>The store of the server as a layer store\<close>

lemma wired_cake_shed:
  "server_graph r g \<Longrightarrow> wired_cake g runner r = aufs_cake (docker_cake g) runner r"
  by (erule server_graphE) (simp add: wired_cake_aufs)

lemma shed_store:
  assumes "server_graph r g"
  shows "layer_store (wired_cake g runner r) (shed_layers g) (shed_inv g)"
  using shed_contract [OF assms] by (simp add: wired_cake_shed [OF assms])

lemma All_shed [simp]: "All (aufs_cake (docker_cake g) runner r) = docker_All g"
  by (simp add: aufs_cake_def docker_cake_def)

section \<open>The threshold\<close>

definition stored_bytes :: "(string \<rightharpoonup> image) \<Rightarrow> int" where
  "stored_bytes L = (\<Sum>i \<in> dom L. sint (Size (the (L i))))"

lemma total_size_layers:
  assumes "distinct imgs" and "set imgs = ran L" and "\<And>i img. L i = Some img \<Longrightarrow> ID img = i"
  shows "total_size imgs = stored_bytes L"
proof -
  have inj: "inj_on (\<lambda>i. the (L i)) (dom L)"
    by (rule inj_onI) (metis assms(3) domD option.sel)
  have "(\<lambda>i. the (L i)) ` dom L = ran L" by (force simp: ran_def)
  then have "stored_bytes L = (\<Sum>img \<in> ran L. sint (Size img))"
    unfolding stored_bytes_def by (metis (no_types, lifting) inj sum.reindex_cong)
  then show ?thesis
    using assms(1,2) by (simp add: total_size_def sum_list_distinct_conv_sum_set)
qed

lemma stored_bytes_shed [simp]: "stored_bytes (shed_layers g w) = stored_bytes (graph_layers g w)"
proof -
  have d: "dom (shed_layers g w) = dom (graph_layers g w)" by (simp add: shed_layers_def)
  have "Size (the (shed_layers g w i)) = Size (the (graph_layers g w i))" if "i \<in> dom (graph_layers g w)" for i
    using that by (auto simp: shed_layers_def aufs_layers_def aufs_image_def)
  then show ?thesis unfolding stored_bytes_def d by (simp cong: sum.cong)
qed

lemma Exceeded_run:
  assumes server: "server_graph r g" and inv: "shed_inv g w"
  obtains exceeded where "Exceeded th (wired_cake g runner r) w = (Inr exceeded, w)"
proof (cases th)
  case (Threshold t)
  obtain imgs where "docker_All g w = (Inr imgs, w)"
    using docker_store.All_exact [OF server_docker_store [OF server]] inv
    unfolding shed_inv_def host_inv_def by blast
  then show ?thesis using that Threshold wired_cake_shed [OF server] by (simp add: Exceeded_def bindE_def)
next
  case Disabled
  then show ?thesis using that [of False] by (simp add: Exceeded_def)
qed

lemma Exceeded_exact:
  assumes server: "server_graph r g" and inv: "shed_inv g w"
    and small: "stored_bytes (shed_layers g w) \<le> max_int64" and t: "0 \<le> sint t"
  shows "Exceeded (NewThreshold t) (wired_cake g runner r) w =
    (Inr (stored_bytes (shed_layers g w) > sint t), w)"
proof -
  have ginv: "graph_inv g w" using inv by (simp add: shed_inv_def host_inv_def)
  obtain imgs where imgs: "docker_All g w = (Inr imgs, w)" "set imgs = ran (graph_layers g w)" "distinct imgs"
    using docker_store.All_exact [OF server_docker_store [OF server] ginv] by blast
  have size: "total_size imgs = stored_bytes (graph_layers g w)"
    using total_size_layers [OF imgs(3,2)] graph_layers_ok [OF ginv] by (simp add: image_ok_def)
  have "\<forall>l \<in> set imgs. 0 \<le> sint (Size l)"
    using imgs(2) graph_layers_ok [OF ginv] by (auto simp: ran_def image_ok_def)
  from exceeds_iff_aux [OF this, of 0 t] size small t
  have "exceeds t 0 imgs \<longleftrightarrow> stored_bytes (graph_layers g w) > sint t" by simp
  then show ?thesis using imgs(1) t by (simp add: Exceeded_def NewThreshold_def wired_cake_shed [OF server] bindE_def)
qed

section \<open>A collection\<close>

lemma GC_shed:
  assumes server: "server_graph r g" and inv: "shed_inv g w"
  shows "\<exists>x w' exceeded. GC (Check h) th (wired_cake g runner r) w = Some (x, w') \<and>
    Exceeded th (wired_cake g runner r) w = (Inr exceeded, w) \<and>
    shed_inv g w' \<and> collects (held h) (shed_layers g w) (shed_layers g w') \<and>
    (\<forall>s. x \<noteq> Inl (Panic s)) \<and>
    (exceeded \<longrightarrow> x = Inr () \<longrightarrow>
       (\<forall>j. leaf (shed_layers g w') j \<longrightarrow> pinned (held h) (shed_layers g w') j)) \<and>
    (\<not> exceeded \<longrightarrow> x = Inr () \<and> w' = w)"
proof -
  obtain b where b: "Exceeded th (wired_cake g runner r) w = (Inr b, w)"
    by (rule Exceeded_run [OF server inv])
  from layer_store.GC_outcome [OF shed_store [OF server] tests_for_Check inv b] b show ?thesis by blast
qed

lemma Cakeordinator_GC_wired:
  "Cakeordinator_GC (wired_ordinator cake fetcher ns usage id2path h megabytes) w =
     GC (Check h) (wired_threshold megabytes) cake w"
  by (simp add: Cakeordinator_GC_def wired_ordinator_def)

section \<open>Removing a layer\<close>

lemma Remove_shed:
  assumes server: "server_graph r g" and inv: "shed_inv g w"
    and valid: "ValidateID (GraphID i)" and run: "Remove (wired_cake g runner r) i w = (x, w')"
  shows "shed_inv g w' \<and> (case x of
      Inr _ \<Rightarrow> shed_layers g w' = (shed_layers g w)(GraphID i := None)
    | Inl (Err _) \<Rightarrow> shed_layers g w' = shed_layers g w
    | Inl (Panic _) \<Rightarrow> False) \<and>
    (fst (Remove (docker_cake g) i w) = Inr () \<longrightarrow> x = Inr ())"
proof -
  have store: "metadata_store (docker_cake g) (graph_layers g) (host_inv g) r"
    by (rule server_metadata_store [OF server])
  have "root g = r" by (rule root_server [OF server])
  then have "metadata_store.aufs_good (graph_layers g) (host_inv g) r v = shed_inv g v"
    and "shed_layers g v = aufs_layers r (graph_layers g) v" for v
    by (auto simp: metadata_store.aufs_good_def [OF store] shed_inv_def shed_layers_def)
  moreover have "aufs_cake_Remove (docker_cake g) r i w = (x, w')"
    using run by (simp add: wired_cake_shed [OF server] aufs_cake_def)
  ultimately show ?thesis
    using metadata_store.aufs_Remove_run [OF store, of w i x w'] inv valid
    by (simp split: sum.splits failure.splits)
qed

lemma Destroy_shed:
  assumes server: "server_graph r g" and inv: "shed_inv g w"
    and c: "ordCake c = wired_cake g runner r" and i: "i \<noteq> []" and run: "Destroy c i w = (x, w')"
  shows "shed_inv g w' \<and> (case x of
       Inr _ \<Rightarrow> shed_layers g w' = (shed_layers g w)(shaID i := None)
     | Inl (Err _) \<Rightarrow> shed_layers g w' = shed_layers g w
     | Inl (Panic _) \<Rightarrow> False)"
proof -
  have v: "ValidateID (GraphID (ContainerID i))" using i by (simp add: ValidateID_shaID_iff)
  note store = shed_store [OF server, of runner]
  show ?thesis
  proof (cases "shed_layers g w (shaID i)")
    case (Some img)
    then have "Remove (wired_cake g runner r) (ContainerID i) w = (x, w')"
      using layer_store.Get_present [OF store inv, of "ContainerID i"] run c
      by (simp add: Destroy_def handleE_def)
    from Remove_shed [OF server inv v this] show ?thesis by (simp split: sum.splits failure.splits)
  next
    case None
    then have "x = Inr ()" "w' = w"
      using layer_store.Get_absent [OF store inv v] run c by (auto simp: Destroy_def handleE_def)
    moreover have "(shed_layers g w)(shaID i := None) = shed_layers g w" using None by auto
    ultimately show ?thesis using inv by simp
  qed
qed

lemma path_base_wired:
  "server_graph r g \<Longrightarrow> RootPath cfg = r \<Longrightarrow> ValidateID (GraphID i) \<Longrightarrow> path_base (GetMntPath cfg i) = GraphID i"
  by (rule path_base_mnt) (auto simp: server_graph_def)

section \<open>Example parts\<close>

definition sample_fetcher :: "mounts host_state fetcher" where
  "sample_fetcher = \<lparr>Fetch = \<lambda>_ _ _ _. throw EOF, FetchID = \<lambda>_. ret (DockerImageID top_id)\<rparr>"

definition sample_namespacer :: "mounts host_state namespacer" where
  "sample_namespacer = \<lparr>CacheKey = ''key'', NamespaceAt = \<lambda>_. ret ()\<rparr>"

definition sample_usage :: "string \<Rightarrow> mounts host_state \<Rightarrow> (disk_stat outcome \<times> mounts host_state) option" where
  "sample_usage = wired_usage sample_env (wired_cake sample_graph (\<lambda>_. ret ()) garden_root)"

abbreviation sample_cake :: "mounts host_state cake" where
  "sample_cake \<equiv> wired_cake sample_graph (\<lambda>_. ret ()) garden_root"

definition sample_cfg :: "mounts host_state quotaed_cfg" where
  "sample_cfg = wired_cfg sample_env (shed_retrier id) garden_root"

abbreviation sample_ordinator :: "retainer \<Rightarrow> int64 \<Rightarrow> mounts host_state cake_ordinator" where
  "sample_ordinator \<equiv> wired_ordinator sample_cake sample_fetcher sample_namespacer sample_usage
     (GetMntPath sample_cfg)"

text \<open>A store that has the namespaced copy of an image.\<close>

definition copy_id :: layer_id where
  "copy_id = NamespacedID (DockerImageID base_id) ''key''"

definition copy_image :: image where
  "copy_image = empty_image\<lparr>ID := GraphID copy_id\<rparr>"

lemma copy_world:
  "shed_inv g (store_of [copy_image])" "GraphID copy_id \<in> dom (shed_layers g (store_of [copy_image]))"
proof -
  have "ValidateID (GraphID copy_id)"
    using GraphID_namespaced_valid [of copy_id] by (simp add: copy_id_def NamespacedID_def)
  then have "plain_image copy_image" by (simp add: plain_image_def copy_image_def empty_image_def)
  then have a: "distinct (map ID [copy_image])" "\<forall>im \<in> set [copy_image]. plain_image im" by simp_all
  show "shed_inv g (store_of [copy_image])" by (rule shed_store_of(1) [OF a])
  show "GraphID copy_id \<in> dom (shed_layers g (store_of [copy_image]))"
    unfolding shed_store_of(2) [OF a] by (simp add: copy_image_def)
qed

lemma clean_sample_root [simp]: "clean_abs garden_root"
  by (rule clean_garden_root)

end
