(* ===== verification/Driver_Steps.thy ===== *)
theory Driver_Steps
  imports Shed_Store
begin

text \<open>
  The calls that add layers to docker's graph (\<open>src/layercake/docker.go\<close>) or mount them, on the
  graph that \<open>Wire\<close> builds: what they do to the graph, that they leave the metadata of the wrapper
  alone, and which paths they give out.  The theory \<open>Aufs_Creation\<close> lifts this to the wrapper.
\<close>

section \<open>Files that are made\<close>

text \<open>
  A step that makes directories where nothing was, away from the metadata files, or writes plain
  files outside the metadata.
\<close>

lemma shed_same_mkdir1:
  assumes "\<And>i. ValidateID i \<Longrightarrow> q \<noteq> child_file r i \<and> q \<noteq> parent_file r i"
  shows "keeps (shed_same r w0) (mkdir1 q)"
proof -
  have "shed_same r w0 (put_file q (Some (new_inode Directory)) w)"
    if "shed_same r w0 w" and "files w q = None" for w
  proof -
    have "dir_ready d (put_file q (Some (new_inode Directory)) w)" if "dir_ready d w" for d
      using that by (auto simp: dir_ready_def free_or_dir_def)
    with that assms show ?thesis
      by (auto simp: shed_same_def meta_same_def link_free_def not_link_def)
  qed
  then show ?thesis by (auto simp: keeps_def mkdir1_def split: option.split)
qed

lemma keeps_same_mkdir_all:
  assumes r: "clean_abs r" and p: "outside r (path_clean p)"
  shows "keeps (shed_same r w0) (mkdir_all p)"
  unfolding mkdir_all_def
  by (intro keeps_rules keeps_same_check shed_same_mkdir1 outside_prefix_not_meta [OF r p])

lemma shed_same_put_regular:
  assumes "clean_abs r" and "outside r q" and "shed_same r w0 w" and "\<And>t. kind i \<noteq> Symlink t"
  shows "shed_same r w0 (put_file q (Some i) w)"
  by (rule shed_same_step [OF assms(3)])
    (use outside_meta_path [OF assms(1,2)] assms(4) in \<open>auto simp: not_link_def split: file_kind.split\<close>)

lemma keeps_same_write_handle:
  assumes "clean_abs r" and "outside r q"
  shows "keeps (shed_same r w0) (write_handle q s)"
  unfolding write_handle_def
  by (intro keeps_rules keeps_same_check keeps_modW)
    (auto intro: shed_same_put_regular [OF assms] split: option.split file_kind.split)

text \<open>Opening a driver file reaches the file itself.\<close>

lemma driver_file_real:
  assumes "clean_abs r" and "driver_file r p" and "shed_same r w0 w"
  shows "real_path p w = (Inr p, w)"
proof (rule real_path_ok)
  show "clean_abs p" by (rule outside_clean [OF driver_file_outside [OF assms(1,2)]])
  show "not_link w p" using assms(2,3) by (simp add: shed_same_def link_free_def)
qed

lemma os_create_driver_file:
  assumes r: "clean_abs r" and p: "driver_file r p" and same: "shed_same r w0 w"
    and run: "os_create p w = (x, w')"
  shows "shed_same r w0 w' \<and> (\<forall>q. x = Inr q \<longrightarrow> q = p)"
proof -
  note put = shed_same_put_regular [OF r driver_file_outside [OF r p] same]
  show ?thesis
  proof (cases "os_fault w OpOpen (path_clean p)")
    case None
    with run driver_file_real [OF r p same] same put show ?thesis
      by (auto simp: os_create_def os_check_def bindE_def split: option.splits file_kind.splits if_splits)
  qed (use run same in \<open>auto simp: os_create_def os_check_def bindE_def\<close>)
qed

lemma keeps_same_truncate:
  assumes r: "clean_abs r" and p: "driver_file r p"
  shows "keeps (shed_same r w0) (os_truncate p sz)"
  unfolding keeps_def
proof (intro allI impI)
  fix w :: "'a os_state_scheme" assume same: "shed_same r w0 w"
  note put = shed_same_put_regular [OF r driver_file_outside [OF r p] same]
  show "shed_same r w0 (snd (os_truncate p sz w))"
    using same put driver_file_real [OF r p same]
    by (auto simp: os_truncate_def os_check_def bindE_def split: option.split file_kind.split)
qed

section \<open>The driver\<close>

lemma getParentIds_reads: "reads_only (getParentIds rootPath i)"
  unfolding getParentIds_def by (intro reads_only_bindE reads_only_os reads_only_basic)

lemma keeps_same_createDirsFor:
  assumes r: "clean_abs r" and i: "plain_name i"
  shows "keeps (shed_same r w0) (createDirsFor (path_join [r, ''aufs'']) i)"
proof -
  have "outside r (path_clean (path_join [path_join [r, ''aufs''], d, i]))" if "d \<in> {''mnt'', ''diff''}" for d
  proof -
    have "outside r (path_join [path_join [r, ''aufs''], d, i])"
      by (rule outside_below(2) [OF r i]) (use that in auto)
    with outside_clean [OF this] show ?thesis by simp
  qed
  then show ?thesis unfolding createDirsFor_def
    by (intro keeps_rules keeps_same_mkdir_all [OF r]) simp
qed

lemma keeps_same_aufs_Create:
  assumes r: "clean_abs r" and i: "ValidateID i"
  shows "keeps (shed_same r w0) (aufs_Create (path_join [r, ''aufs'']) i parent)"
proof -
  have drv: "driver_file r (layers_file r i)" using i by (auto simp: driver_file_def)
  note out = driver_file_outside [OF r drv]
  note read = keeps_same_reads_only [OF getParentIds_reads]
  show ?thesis unfolding aufs_Create_def
  proof (rule keeps_bindE [OF keeps_same_createDirsFor [OF r ValidateID_plain_name [OF i]]],
      rule keeps_bind_post [OF os_create_driver_file [OF r drv]])
    fix f assume f: "f = layers_file r i"
    show "keeps (shed_same r w0) (if parent \<noteq> [] then
       bindE (getParentIds (path_join [r, ''aufs'']) parent) (\<lambda>ids.
       bindE (write_handle f (parent @ [newline])) (\<lambda>_.
       forE ids (\<lambda>j. write_handle f (j @ [newline])))) else ret ())"
      unfolding f by (intro keeps_rules read keeps_same_write_handle [OF r out])
  qed
qed

lemma frame_hview_mount: "frame hview (aufs_mount env rootPath i l)"
  unfolding aufs_mount_def mounted_def getParentLayerPaths_def Let_def
  by (intro frame_rules frame_hview_kernel reads_only_frame [OF getParentIds_reads])

lemma frame_hview_Get: "frame hview (aufs_Get env rootPath i l)"
  unfolding aufs_Get_def
  by (intro frame_rules frame_hview_mount frame_hview_set_active reads_only_frame [OF getParentIds_reads])

lemma frame_hview_ApplyDiff: "frame hview (aufs_ApplyDiff env rootPath i parent diff)"
  unfolding aufs_ApplyDiff_def aufs_DiffSize_def by (intro frame_rules frame_hview_kernel)

text \<open>\<open>Get\<close> gives out a directory of the layer.\<close>

definition layer_dir :: "string \<Rightarrow> string \<Rightarrow> bool" where
  "layer_dir r p \<longleftrightarrow> (\<exists>i. ValidateID i \<and>
     (\<exists>d \<in> {''mnt'', ''diff''}. p = path_join [path_join [r, ''aufs''], d, i]))"

lemma aufs_Get_result:
  assumes "ValidateID i" and "aufs_Get env (path_join [r, ''aufs'']) i l w = (Inr p, w')"
  shows "layer_dir r p"
  using assms unfolding aufs_Get_def layer_dir_def
  by (auto elim!: bindE_InrE split: if_splits)

lemma layer_dir_outside: "clean_abs r \<Longrightarrow> layer_dir r p \<Longrightarrow> outside r p"
  using outside_below(2) [of r _ "''aufs''"] by (auto simp: layer_dir_def ValidateID_plain_name)

lemma layer_dir_root: "clean_abs r \<Longrightarrow> layer_dir r p \<Longrightarrow> clean_abs p \<and> p \<noteq> ''/''"
  using layer_dir_outside outside_clean outside_not_root by blast

lemma layer_dir_not_driver:
  assumes "clean_abs r" and "layer_dir r p" and "driver_file r q"
  shows "q \<noteq> p \<and> \<not> below p q"
proof -
  from assms(2) obtain i d where "ValidateID i" "d \<in> {''mnt'', ''diff''}"
    "p = path_join [path_join [r, ''aufs''], d, i]" by (auto simp: layer_dir_def)
  then show ?thesis
    using driver_file_not_removing [OF assms(1) ValidateID_plain_name _ assms(3)] by simp
qed

section \<open>Registering\<close>

lemma frame_hview_storeImage:
  assumes "driver g = quotaed_driver (wired_cfg env run r)"
  shows "frame hview (storeImage g im layerData quota)"
proof -
  have diff: "frame hview (drv_ApplyDiff (driver g) i p d)" for i p d
    by (simp add: assms quotaed_driver_def wired_cfg_def aufs_driver_def frame_hview_ApplyDiff)
  have "frame hview (disassembleAndApplyTarLayer g i p d q)" for i p d q
    unfolding disassembleAndApplyTarLayer_def
    by (intro frame_rules) (auto intro: frame_rules diff split: sum.split)
  then have "frame hview (case layerData of None \<Rightarrow> ret 0
      | Some d \<Rightarrow> disassembleAndApplyTarLayer g (ID im) (Parent im) d quota)"
    by (auto split: option.split)
  then show ?thesis unfolding storeImage_def by (intro frame_rules)
qed

lemma keeps_same_graph_Exists:
  assumes "driver g = quotaed_driver (wired_cfg env run r)"
  shows "keeps (shed_same r w0) (graph_Exists g i)"
proof -
  have size: "keeps (shed_same r w0) (drv_DiffSize (driver g) j p)" for j p
    by (simp add: assms quotaed_driver_def wired_cfg_def aufs_driver_def aufs_DiffSize_def)
      (intro keeps_rules keeps_same_frame [OF frame_see_kernel])
  have load: "keeps (shed_same r w0) (loadImage g j)" for j
    by (rule keeps_same_reads_only [OF looks_at_reads_only [OF looks_at_loadImage]])
  have "keeps (shed_same r w0) (saveSize g j sz)" for j sz
    unfolding saveSize_def by (intro keeps_rules keeps_same_check keeps_same_modW) simp_all
  then show ?thesis unfolding graph_Exists_def graph_Get_def
    by (intro keeps_rules) (auto intro!: keeps_rules size load split: sum.split)
qed

lemma keeps_same_graph_register:
  assumes r: "clean_abs r" and g: "g = wired_graph env run decompress r" and i: "ValidateID (ID im)"
  shows "keeps (shed_same r w0) (graph_register g im layerData quota)"
proof -
  have drv: "driver g = quotaed_driver (wired_cfg env run r)" by (simp add: g wired_graph_def)
  have rem: "keeps (shed_same r w0) (drv_Remove (driver g) (ID im))"
    and make: "keeps (shed_same r w0) (drv_Create (driver g) (ID im) (Parent im))"
    using keeps_same_aufs_Remove [OF r ValidateID_plain_name [OF i]] keeps_same_aufs_Create [OF r i]
    by (simp_all add: drv quotaed_driver_def wired_cfg_def aufs_driver_def)
  have look: "keeps (shed_same r w0) (graph_Exists g (ID im))"
    by (rule keeps_same_graph_Exists [OF drv])
  have dir: "keeps (shed_same r w0) (modW (\<lambda>w. w\<lparr>imageDirs := (imageDirs w)(ID im := None)\<rparr>))"
    by (rule keeps_same_modW) simp_all
  have entry: "keeps (shed_same r w0) (modW (\<lambda>w. w\<lparr>imageDirs := (imageDirs w)(ID im \<mapsto> d),
      idIndex := index_Add (ID im) (idIndex w)\<rparr>))" for d
    by (rule keeps_same_modW) simp_all
  show ?thesis
    unfolding graph_register_def mktemp_def createRootFilesystemInDriver_def
    by (intro keeps_rules look keeps_same_check rem make dir entry
        keeps_same_frame [OF frame_hview_storeImage [OF drv]])
qed

section \<open>Mounting\<close>

lemma keeps_same_backing_Create:
  assumes r: "clean_abs r" and i: "ValidateID i"
  shows "keeps (shed_same r w0) (backing_Create env (path_join [r, ''backing_stores'']) i quota)"
proof -
  have drv: "driver_file r (backing_file r i)" using i by (auto simp: driver_file_def)
  have made: "shed_same r w0 w'" if "shed_same r w0 w" "os_create (backing_file r i) w = (x, w')" for w x w'
    using os_create_driver_file [OF r drv that] by simp
  have "keeps (shed_same r w0) (os_create (backing_file r i))"
    unfolding keeps_def using made prod.collapse by metis
  then show ?thesis unfolding backing_Create_def backingStorePath_def Let_def
    by (intro keeps_rules keeps_same_truncate [OF r drv] keeps_same_frame [OF frame_hview_kernel])
qed

lemma keeps_same_GetQuotaed:
  assumes r: "clean_abs r" and i: "ValidateID i" and retrier: "retrier_ok hview run"
  shows "keeps (shed_same r w0) (GetQuotaed (wired_cfg env run r) i l quota)"
proof -
  have store: "outside r (backing_file r i)"
    by (rule outside_below(1) [OF r ValidateID_plain_name [OF i]]) simp_all
  show ?thesis
    unfolding GetQuotaed_def wired_cfg_def quotaed_cfg.simps Let_def loop_MountFile_def
      backing_Delete_def backingStorePath_def aufs_driver_def driver.simps
    by (intro keeps_rules keeps_same_backing_Create [OF r i] keeps_same_frame [OF frame_hview_kernel]
        keeps_same_frame [OF frame_hview_Get] keeps_same_frame [OF loop_Unmount_rules(1) [OF retrier]]
        keeps_same_remove_all [OF r store])
qed

lemma GetQuotaed_result:
  assumes "ValidateID i" and "GetQuotaed (wired_cfg env run r) i l quota w = (Inr p, w')"
  shows "layer_dir r p"
  using assms(2) unfolding GetQuotaed_def Let_def
  by (auto elim!: bindE_InrE handleE_InrE simp: wired_cfg_def aufs_driver_def
      intro: aufs_Get_result [OF assms(1)])

lemma path_tries_rules:
  "frame v (drv_Get (driver g) i []) \<Longrightarrow> frame v (path_tries g i n x)"
  "keeps I (drv_Get (driver g) i []) \<Longrightarrow> keeps I (path_tries g i n x)"
  "calm (drv_Get (driver g) i []) \<Longrightarrow> calm (path_tries g i n (Inl (Err e)))"
  "calm (drv_Get (driver g) i []) \<Longrightarrow> calm (path_tries g i n (Inr p))"
proof -
  show "frame v (path_tries g i n x)" if "frame v (drv_Get (driver g) i [])"
    using that by (induction n arbitrary: x) (auto intro: frame_rules)
  show "keeps I (path_tries g i n x)" if "keeps I (drv_Get (driver g) i [])"
    using that by (induction n arbitrary: x) (auto intro: keeps_rules)
  have err: "calm (path_tries g i m (Inl (Err e)))" if "calm (drv_Get (driver g) i [])" for m e
  proof (induction m arbitrary: e)
    case (Suc m)
    with that show ?case by (auto intro!: calm_rules)
  qed (simp add: calm_def)
  then show "calm (path_tries g i n (Inl (Err e)))" if "calm (drv_Get (driver g) i [])"
    using that by simp
  show "calm (path_tries g i n (Inr p))" if "calm (drv_Get (driver g) i [])"
  proof (cases n)
    case (Suc m)
    with that err show ?thesis by (auto intro!: calm_rules)
  qed (simp add: calm_def)
qed

lemma path_tries_result:
  assumes "path_tries g i (Suc n) x w = (Inr p, w')"
  shows "\<exists>w1. drv_Get (driver g) i [] w1 = (Inr p, w')"
  using assms
proof (induction n arbitrary: x w)
  case (Suc n)
  from Suc.prems show ?case
    by (subst (asm) path_tries.simps(2))
      (auto simp: handleE_def simp del: path_tries.simps
        split: prod.splits sum.splits failure.splits dest!: Suc.IH)
qed (auto simp: handleE_def split: prod.splits sum.splits failure.splits)

section \<open>The wired store\<close>

text \<open>Registering an image at the store: nothing for a known ID, a new layer otherwise.\<close>

lemma host_register:
  assumes r: "clean_abs r" and retrier: "retrier_ok hview run"
    and g: "g = wired_graph env run decompress r" and inv: "host_inv g w" and nf: "no_faults w"
    and v: "ValidateID (ID im)" and p: "Parent im = [] \<or> ValidateID (Parent im)" and d: "ParentID im = []"
    and run: "graph_register g im layerData quota w = (x, w')"
  shows "host_inv g w' \<and> meta_same r w w' \<and> entered im (graph_layers g w) x (graph_layers g w') \<and>
    (layerData = None \<longrightarrow> Size im = 0 \<longrightarrow> created im (graph_layers g w) x (graph_layers g w'))"
proof -
  have store: "docker_store g" unfolding g by (rule wired_docker_store [OF retrier])
  have root: "root g = r" by (simp add: g wired_graph_def)
  have gi: "graph_inv g w" and links: "link_free r w" using inv root by (simp_all add: host_inv_def)
  have "shed_same r w w" using links by (simp add: shed_same_def meta_same_refl)
  from keepsD [OF keeps_same_graph_register [OF r g v] this run]
  have same: "meta_same r w w'" and links': "link_free r w'" by (simp_all add: shed_same_def)
  have sp: "stored_parent im = Parent im" by (simp add: stored_parent_def d digest_Validate_empty)
  have simg: "stored_image im sz = im\<lparr>Size := sz\<rparr>" for sz
    by (simp add: stored_image_def sp)
  show ?thesis
  proof (cases "ID im \<in> dom (graph_layers g w)")
    case True
    then have "x = Inr ()" "w' = w"
      using graph_driver.graph_register_known [OF docker_store.axioms [OF store] gi v] run graph_layers_dom [OF gi]
      by simp_all
    with inv True same show ?thesis by (simp add: entered_def created_def add_layer_def)
  next
    case False
    have "readable g w (ID im)" using nf by (simp add: readable_def)
    note new = graph_driver.graph_register_new [OF docker_store.axioms [OF store] gi refl v _ this, of layerData quota x w']
    have eff: "graph_inv g w' \<and> (case x of
      Inr _ \<Rightarrow> \<exists>sz. 0 \<le> sint sz \<and> (layerData = None \<longrightarrow> sz = 0) \<and>
                 graph_layers g w' = (graph_layers g w)(ID im \<mapsto> im\<lparr>Size := sz\<rparr>)
    | Inl (Err _) \<Rightarrow> graph_layers g w' = graph_layers g w
    | Inl (Panic _) \<Rightarrow> False)"
      using new False graph_layers_dom [OF gi] p sp run unfolding simg by simp
    then have "created im (graph_layers g w) x (graph_layers g w')" if "layerData = None" "Size im = 0"
      using that False by (auto simp: created_def add_layer_def split: sum.splits failure.splits)
    moreover have "entered im (graph_layers g w) x (graph_layers g w')"
      using eff False by (auto simp: entered_def split: sum.splits failure.splits)
    ultimately show ?thesis using eff same links' by (simp add: host_inv_def root)
  qed
qed

text \<open>A step that leaves graph and metadata as they are and does not panic.\<close>

definition settled ::
  "string \<Rightarrow> ('z os_state_scheme \<Rightarrow> bool) \<Rightarrow> ('z os_state_scheme \<Rightarrow> (string \<rightharpoonup> image)) \<Rightarrow>
    ('z os_state_scheme, 'a) prog \<Rightarrow> bool" where
  "settled r good layers m \<longleftrightarrow> steady good layers m \<and> (\<forall>w. good w \<longrightarrow> meta_same r w (snd (m w)))"

lemma host_settled:
  assumes "root g = r" and "frame gview m" and "calm m" and "\<And>w0. keeps (shed_same r w0) m"
  shows "settled r (host_inv g) (graph_layers g) m"
proof -
  have same: "shed_same r w w'" if "host_inv g w" "m w = (x, w')" for w x w'
  proof (rule keepsD [OF assms(4) _ that(2)])
    show "shed_same r w w" using that(1) assms(1) by (simp add: host_inv_def shed_same_def meta_same_refl)
  qed
  have "steady (host_inv g) (graph_layers g) m"
    unfolding steady_def
  proof (intro allI impI)
    fix w x w' assume w: "host_inv g w" "m w = (x, w')"
    have view: "gview w' = gview w" by (rule frameD [OF assms(2) w(2)])
    have "link_free r w'" using same [OF w] by (simp add: shed_same_def)
    with w(1) graph_inv_cong [OF view] graph_layers_cong [OF view] calmD [OF assms(3)] w(2) assms(1)
    show "host_inv g w' \<and> graph_layers g w' = graph_layers g w \<and> (\<forall>s. x \<noteq> Inl (Panic s))"
      unfolding host_inv_def by metis
  qed
  moreover have "meta_same r w (snd (m w))" if "host_inv g w" for w
    using same [OF that] by (metis prod.collapse shed_same_def)
  ultimately show ?thesis by (simp add: settled_def)
qed

lemma host_settled_hview: "root g = r \<Longrightarrow> frame hview m \<Longrightarrow> calm m \<Longrightarrow> settled r (host_inv g) (graph_layers g) m"
  by (rule host_settled) (auto simp: frame_hview intro: keeps_same_frame)

lemma GetQuotaed_rules:
  assumes "retrier_ok hview run"
  shows "frame gview (GetQuotaed (wired_cfg env run r) i l quota)"
    and "calm (GetQuotaed (wired_cfg env run r) i l quota)"
proof -
  have mount: "frame gview (loop_MountFile env p q)" "calm (loop_MountFile env p q)" for p q
    unfolding loop_MountFile_def by (intro frame_rules) (intro calm_rules)
  have un: "frame gview (loop_Unmount env run p)" for p
    using frame_hview [OF loop_Unmount_rules(1) [OF assms]] by blast
  have get: "frame gview (aufs_Get env rootPath i l)" for rootPath
    using frame_hview [OF frame_hview_Get] by blast
  have make: "calm (backing_Create env p i quota)" for p
    unfolding backing_Create_def Let_def by (intro calm_rules)
  show "frame gview (GetQuotaed (wired_cfg env run r) i l quota)"
    unfolding GetQuotaed_def Let_def wired_cfg_def quotaed_cfg.simps aufs_driver_def driver.simps
    by (intro frame_rules frame_backing_Create mount un get backing_Delete_rules)
  show "calm (GetQuotaed (wired_cfg env run r) i l quota)"
    unfolding GetQuotaed_def Let_def wired_cfg_def quotaed_cfg.simps aufs_driver_def driver.simps
    by (intro calm_rules make mount aufs_Get_calm loop_Unmount_rules(2) [OF assms] backing_Delete_rules)
qed

text \<open>The store's \<open>Path\<close>, \<open>QuotaedPath\<close> and \<open>Unmount\<close>.\<close>

lemma host_mounts:
  assumes r: "clean_abs r" and retrier: "retrier_ok hview run"
    and g: "g = wired_graph env run decompress r" and v: "ValidateID (GraphID i)"
  shows "settled r (host_inv g) (graph_layers g) (Path (docker_cake g) i)"
    and "settled r (host_inv g) (graph_layers g) (QuotaedPath (docker_cake g) i quota)"
    and "settled r (host_inv g) (graph_layers g) (Unmount (docker_cake g) i)"
    and "Path (docker_cake g) i w = (Inr p, w') \<Longrightarrow> layer_dir r p"
    and "QuotaedPath (docker_cake g) i quota w = (Inr p, w') \<Longrightarrow> layer_dir r p"
proof -
  have root: "root g = r" and drv: "driver g = quotaed_driver (wired_cfg env run r)"
    by (simp_all add: g wired_graph_def)
  have name: "docker_DriverName g = ''aufs''"
    by (simp add: docker_DriverName_def drv quotaed_driver_def wired_cfg_def aufs_driver_def)
  have get: "drv_Get (driver g) j l = aufs_Get env (path_join [r, ''aufs'']) j l" for j l
    by (simp add: drv quotaed_driver_def wired_cfg_def aufs_driver_def)
  have put: "drv_Put (driver g) j = quotaed_Put (wired_cfg env run r) j" for j
    by (simp add: drv quotaed_driver_def)
  have quotaed: "QuotaedPath (docker_cake g) i quota = GetQuotaed (wired_cfg env run r) (GraphID i) [] quota"
    by (simp add: docker_cake_def docker_QuotaedPath_def name) (simp add: drv quotaed_driver_def)
  have path: "Path (docker_cake g) i = path_tries g (GraphID i) 5 (Inr [])"
    by (simp add: docker_cake_def docker_Path_def)
  note store = wired_docker_store [OF retrier, of env decompress r, folded g]
  show "settled r (host_inv g) (graph_layers g) (Path (docker_cake g) i)"
    unfolding path
    by (rule host_settled_hview [OF root path_tries_rules(1) path_tries_rules(4)])
      (simp_all add: get frame_hview_Get aufs_Get_calm)
  show "settled r (host_inv g) (graph_layers g) (QuotaedPath (docker_cake g) i quota)"
    unfolding quotaed
    by (rule host_settled [OF root GetQuotaed_rules [OF retrier] keeps_same_GetQuotaed [OF r v retrier]])
  have un: "Unmount (docker_cake g) i = drv_Put (driver g) (GraphID i)"
    by (simp add: docker_cake_def docker_Unmount_def)
  have "frame gview (drv_Put (driver g) (GraphID i))" "calm (drv_Put (driver g) (GraphID i))"
    using graph_driver.Put_frame graph_driver.Put_calm docker_store.axioms [OF store] by blast+
  then show "settled r (host_inv g) (graph_layers g) (Unmount (docker_cake g) i)"
    unfolding un by (rule host_settled [OF root])
      (simp add: put keeps_same_Put [OF r ValidateID_plain_name [OF v] retrier])
  show "layer_dir r p" if result: "Path (docker_cake g) i w = (Inr p, w')"
  proof -
    obtain w1 where "drv_Get (driver g) (GraphID i) [] w1 = (Inr p, w')"
      using result path_tries_result unfolding path eval_nat_numeral by blast
    then show ?thesis unfolding get by (rule aufs_Get_result [OF v])
  qed
  show "layer_dir r p" if "QuotaedPath (docker_cake g) i quota w = (Inr p, w')"
    using that unfolding quotaed by (rule GetQuotaed_result [OF v])
qed

end
