(* ===== verification/Aufs_Creation.thy ===== *)
theory Aufs_Creation
  imports Driver_Steps
begin

text \<open>
  Creating layers through the metadata wrapper (\<open>Create\<close> of \<open>src/layercake/aufs.go\<close>).

  The locale \<open>growing_metadata_store\<close> extends \<open>metadata_store\<close> by what the wrapper needs when it
  adds layers; it shows that the wrapper is a \<open>creating_store\<close>: a container layer enters with the
  parent it was created with, a namespaced copy enters the graph without a parent and is linked to
  its origin by the metadata, so that clients see the origin as its parent.  Both contracts are
  interpreted on the store of the server.
\<close>

section \<open>Linking a copy to its origin\<close>

lemma meta_inv_add:
  assumes "meta_inv r L w" and "L i = None"
  shows "meta_inv r (L(i \<mapsto> img)) w"
proof -
  have "child_ok r (L(i \<mapsto> img)) w j" if "child_ok r L w j" for j
    using that assms(2) by (auto simp: child_ok_def)
  with assms(1) show ?thesis by (simp add: meta_inv_def)
qed

lemma meta_inv_link:
  assumes inv: "meta_inv r L w" and r: "clean_abs r" and i: "ValidateID i" and p: "ValidateID p"
    and free: "files w (child_file r i) = None" and img: "L i = Some img" "Parent img = []"
  obtains w1 w2 where "addInfo (parentChildDir r) p i w = (Inr (), w1)"
    and "addInfo (childParentDir r) i p w1 = (Inr (), w2)" and "beyond_files w2 = beyond_files w"
    and "meta_inv r L w2" and "content w2 (child_file r i) = Some (p @ [newline])"
    and "\<forall>j. ValidateID j \<longrightarrow> j \<noteq> i \<longrightarrow> files w2 (child_file r j) = files w (child_file r j)"
    and "\<forall>q. outside r q \<longrightarrow> files w2 q = files w q"
proof -
  note pi = ValidateID_plain_name [OF i] and pp = ValidateID_plain_name [OF p]
  let ?pc = "parentChildDir r" and ?cp = "childParentDir r"
  let ?f = "parent_file r p" and ?g = "child_file r i"
  have nf: "no_faults w" and ready: "dir_ready ?pc w" "dir_ready ?cp w"
    and ok: "\<And>j. ValidateID j \<Longrightarrow> child_ok r L w j \<and> parent_ok r w j"
    using inv by (simp_all add: meta_inv_def)
  note distinct = meta_files_distinct [OF r] and dirs = info_dirs [OF r]
  obtain js where js: "distinct js" "set js = copies r w p"
    "if js = [] then files w ?f = None else content w ?f = Some (lines_text js)"
    using ok [OF p] by (auto simp: parent_ok_def)
  have "i \<notin> set js" using js(2) free by (auto simp: copies_def content_def)
  have "text_at w ?f (lines_text js)" using js(3) by (auto simp: text_at_def split: if_splits)
  then obtain w1 where w1: "addInfo ?pc p i w = (Inr (), w1)" "touches ?pc ?f w w1"
    "content w1 ?f = Some (lines_text js @ i @ [newline])"
    using addInfo_ok [OF nf _ ready(1) pp] dirs by blast
  have g1: "files w1 ?g = None"
    using touches_other_meta [OF r pp pi w1(2), of ?g] distinct(1) [OF pp pi] free by simp
  have nf1: "no_faults w1" and ready1: "dir_ready ?pc w1" "dir_ready ?cp w1"
    using touches_no_faults [OF w1(2)] nf touches_dir_ready [OF w1(2)] ready
      meta_file_not_dir [OF r pp, of ?f] by auto
  then obtain w2 where w2: "addInfo ?cp i p w1 = (Inr (), w2)" "touches ?cp ?g w1 w2"
    "content w2 ?g = Some (p @ [newline])"
    using addInfo_ok [OF nf1 _ ready1(2) pi, of "[]" p] dirs g1 by (auto simp: text_at_def)
  have child2: "files w2 (child_file r j) = files w (child_file r j)" if "ValidateID j" "j \<noteq> i" for j
  proof -
    note pj = ValidateID_plain_name [OF that(1)]
    show ?thesis
      using touches_other_meta [OF r pp pj w1(2), of "child_file r j"]
        touches_other_meta [OF r pi pj w2(2), of "child_file r j"]
        distinct(1) [OF pp pj] distinct(3) [OF pj pi] that(2) by simp
  qed
  have parent2: "files w2 (parent_file r q) = files w1 (parent_file r q)" if "ValidateID q" for q
  proof -
    note pq = ValidateID_plain_name [OF that]
    show ?thesis using touches_other_meta [OF r pi pq w2(2), of "parent_file r q"]
        distinct(1) [OF pq pi] by simp
  qed
  have parent1: "files w1 (parent_file r q) = files w (parent_file r q)" if "ValidateID q" "q \<noteq> p" for q
  proof -
    note pq = ValidateID_plain_name [OF that(1)]
    show ?thesis using touches_other_meta [OF r pp pq w1(2), of "parent_file r q"]
        distinct(2) [OF pq pp] that(2) by simp
  qed
  have copies2: "copies r w2 q = (if q = p then insert i (copies r w p) else copies r w q)" for q
  proof -
    have "content w2 (child_file r j) = (if j = i then Some (p @ [newline]) else content w (child_file r j))"
      if "ValidateID j" for j
      using child2 [OF that] w2(3) content_files [of w2 "child_file r j" w] by auto
    moreover have "content w ?g = None" using free by (simp add: content_def)
    ultimately show ?thesis using i by (auto simp: copies_def split: if_splits)
  qed
  have "child_ok r L w2 j" if "ValidateID j" for j
    using ok [OF that] child2 [OF that] content_files [of w2 "child_file r j" w] w2(3) img p
    by (cases "j = i") (auto simp: child_ok_def)
  moreover have "parent_ok r w2 q" if q: "ValidateID q" for q
  proof (cases "q = p")
    case True
    have "content w2 ?f = Some (lines_text (js @ [i]))"
      using w1(3) content_files [OF parent2 [OF p]] by simp
    moreover have "distinct (js @ [i])" "set (js @ [i]) = copies r w2 p"
      using js(1,2) \<open>i \<notin> set js\<close> copies2 by auto
    ultimately show ?thesis unfolding True parent_ok_def by (metis snoc_eq_iff_butlast)
  next
    case False
    have "files w2 (parent_file r q) = files w (parent_file r q)"
      using parent2 [OF q] parent1 [OF q False] by simp
    moreover have "copies r w2 q = copies r w q" using copies2 [of q] False by simp
    ultimately show ?thesis using parent_ok_cong ok [OF q] by blast
  qed
  moreover have "no_faults w2" "dir_ready ?pc w2" "dir_ready ?cp w2"
    using touches_no_faults [OF w2(2)] nf1 touches_dir_ready [OF w2(2)] ready1
      meta_file_not_dir [OF r pi, of ?g] by auto
  ultimately have "meta_inv r L w2" by (simp add: meta_inv_def)
  moreover have "beyond_files w2 = beyond_files w" using w1(2) w2(2) by (simp add: touches_def)
  moreover have "files w2 q = files w q" if "outside r q" for q
    using touches_outside [OF r pp w1(2) _ _ that] touches_outside [OF r pi w2(2) _ _ that] by simp
  ultimately show ?thesis using that [OF w1(1) w2(1)] w2(3) child2 by blast
qed

section \<open>Steps of the wrapped store, seen through the wrapper\<close>

lemma map_upd_same: "L = L(k \<mapsto> x) \<Longrightarrow> \<exists>y. L k = Some y"
  by (metis fun_upd_same)

context metadata_store
begin

text \<open>A step that leaves the metadata lifts from the wrapped store to the wrapper.\<close>

lemma lift_same:
  assumes good: "aufs_good w" and same: "meta_same graphRoot w w'" and g: "good w'"
    and lay: "layers w' = layers w"
  shows "aufs_good w' \<and> aufs_layers graphRoot layers w' = aufs_layers graphRoot layers w"
proof -
  have gw: "good w" and inv: "meta_inv graphRoot (layers w) w" using good by (simp_all add: aufs_good_def)
  have "aufs_image graphRoot w' img = aufs_image graphRoot w img" if "layers w j = Some img" for j img
    using recorded_parent_same [OF same, of "ID img"] valid_layers [OF gw that] by (simp add: aufs_image_def)
  from aufs_layers_cong [OF lay this] meta_same_inv [OF same inv] g lay
  show ?thesis by (simp add: aufs_good_def)
qed

lemma lift_added:
  assumes good: "aufs_good w" and same: "meta_same graphRoot w w'" and g: "good w'"
    and lay: "layers w' = (layers w)(i \<mapsto> img)" and new: "i \<notin> dom (layers w)"
  shows "aufs_good w' \<and> aufs_layers graphRoot layers w' = (aufs_layers graphRoot layers w)(i \<mapsto> img) \<and>
    files w' (child_file graphRoot i) = None"
proof -
  have gw: "good w" and inv: "meta_inv graphRoot (layers w) w" using good by (simp_all add: aufs_good_def)
  have i: "ValidateID i" "ID img = i" using valid_layers [OF g, of i img] lay by simp_all
  have inv1: "meta_inv graphRoot (layers w) w'" by (rule meta_same_inv [OF same inv])
  have "child_ok graphRoot (layers w) w' i" using inv1 i(1) by (simp add: meta_inv_def)
  then have free: "files w' (child_file graphRoot i) = None"
    using new by (cases rule: child_cases) auto
  have "aufs_image graphRoot w' img = img"
    using free i(2) by (simp add: aufs_image_def recorded_parent_def content_def)
  moreover have "aufs_image graphRoot w' im = aufs_image graphRoot w im" if "layers w j = Some im" for j im
    using recorded_parent_same [OF same, of "ID im"] valid_layers [OF gw that] by (simp add: aufs_image_def)
  ultimately have "aufs_layers graphRoot layers w' = (aufs_layers graphRoot layers w)(i \<mapsto> img)"
    using lay by (auto simp: aufs_layers_def fun_eq_iff map_option_case split: option.split)
  with free meta_inv_add [OF inv1, of i img] g lay new show ?thesis by (auto simp: aufs_good_def)
qed

lemma lift_settled: "settled graphRoot good layers m \<Longrightarrow> steady aufs_good (aufs_layers graphRoot layers) m"
  unfolding steady_def
proof (intro allI impI)
  fix w r w'
  assume m: "settled graphRoot good layers m" and w: "aufs_good w" "m w = (r, w')"
  have "good w" using w(1) by (simp add: aufs_good_def)
  with m w(2) have "good w'" "layers w' = layers w" "\<forall>s. r \<noteq> Inl (Panic s)" "meta_same graphRoot w w'"
    unfolding settled_def steady_def by (metis snd_conv)+
  with lift_same [OF w(1)]
  show "aufs_good w' \<and> aufs_layers graphRoot layers w' = aufs_layers graphRoot layers w \<and> (\<forall>s. r \<noteq> Inl (Panic s))"
    by blast
qed

lemma lift_created:
  assumes good: "aufs_good w" and g: "good w'" and same: "meta_same graphRoot w w'"
    and made: "created img (layers w) r (layers w')"
  shows "aufs_good w' \<and> created img (aufs_layers graphRoot layers w) r (aufs_layers graphRoot layers w')"
proof (cases "layers w' = layers w")
  case True
  from lift_same [OF good same g True] made True show ?thesis
    by (auto simp: created_def add_layer_def dest: map_upd_same split: sum.splits failure.splits if_splits)
next
  case False
  with made have "r = Inr ()" "ID img \<notin> dom (layers w)" "layers w' = (layers w)(ID img \<mapsto> img)"
    by (auto simp: created_def add_layer_def split: sum.splits failure.splits if_splits)
  with lift_added [OF good same g] show ?thesis by (auto simp: created_def add_layer_def)
qed

lemma lift_entered:
  assumes good: "aufs_good w" and g: "good w'" and same: "meta_same graphRoot w w'"
    and made: "entered img (layers w) r (layers w')"
  shows "aufs_good w' \<and> entered img (aufs_layers graphRoot layers w) r (aufs_layers graphRoot layers w')"
proof (cases "layers w' = layers w")
  case True
  from lift_same [OF good same g True] made True show ?thesis
    by (auto simp: entered_def dest: map_upd_same split: sum.splits failure.splits if_splits)
next
  case False
  with made obtain sz where "r = Inr ()" "ID img \<notin> dom (layers w)" "0 \<le> sint sz"
    "layers w' = (layers w)(ID img \<mapsto> img\<lparr>Size := sz\<rparr>)"
    by (auto simp: entered_def split: sum.splits failure.splits if_splits)
  with lift_added [OF good same g] show ?thesis by (auto simp: entered_def)
qed

lemma lifted:
  assumes "settled graphRoot good layers m" and "aufs_good w" and "m w = (r, w')"
  shows "aufs_good w'" and "aufs_layers graphRoot layers w' = aufs_layers graphRoot layers w"
    and "r \<noteq> Inl (Panic s)" and "layers w' = layers w" and "meta_same graphRoot w w'"
proof -
  show "aufs_good w'" "aufs_layers graphRoot layers w' = aufs_layers graphRoot layers w" "r \<noteq> Inl (Panic s)"
    using steadyD [OF lift_settled [OF assms(1)] assms(2,3)] by simp_all
  have "good w" using assms(2) by (simp add: aufs_good_def)
  with assms(1,3) show "layers w' = layers w" "meta_same graphRoot w w'"
    unfolding settled_def steady_def by (metis snd_conv)+
qed

end

lemma server_steady:
  assumes "server_graph r g" and "settled r (host_inv g) (graph_layers g) m"
  shows "steady (shed_inv g) (shed_layers g) m"
proof -
  note store = server_metadata_store [OF assms(1)]
  have "shed_layers g = aufs_layers r (graph_layers g)"
    "shed_inv g = metadata_store.aufs_good (graph_layers g) (host_inv g) r"
    by (auto simp: shed_layers_def shed_inv_def root_server [OF assms(1)] metadata_store.aufs_good_def [OF store])
  then show ?thesis using metadata_store.lift_settled [OF store assms(2)] by simp
qed

section \<open>What the wrapper needs to add layers\<close>

text \<open>
  The wrapped store's own contract for new layers, and a runner whose only command, the recursive
  copy into the directory of a layer, disturbs neither graph nor metadata.
\<close>

definition cp_command :: "string \<Rightarrow> string \<Rightarrow> string list" where
  "cp_command sourcePath destinationPath =
     [''sh'', ''-c'', ''cp -a '' @ sourcePath @ ''/. '' @ destinationPath]"

locale growing_metadata_store = metadata_store cake layers good graphRoot
  for cake :: "'z os_state_scheme cake" and layers and good and graphRoot +
  fixes mount_point :: "string \<Rightarrow> bool"
    and runner :: "string list \<Rightarrow> ('z os_state_scheme, unit) prog"
  assumes Create_base: "good w \<Longrightarrow> no_faults w \<Longrightarrow> ValidateID (GraphID i) \<Longrightarrow>
        GraphID p = [] \<or> ValidateID (GraphID p) \<Longrightarrow> Create cake i p c w = (r, w') \<Longrightarrow>
        good w' \<and> meta_same graphRoot w w' \<and> created (new_layer i p c) (layers w) r (layers w')"
    and Register_base: "good w \<Longrightarrow> no_faults w \<Longrightarrow> ValidateID (ID img) \<Longrightarrow>
        Parent img = [] \<or> ValidateID (Parent img) \<Longrightarrow> ParentID img = [] \<Longrightarrow>
        Register cake img data w = (r, w') \<Longrightarrow>
        good w' \<and> meta_same graphRoot w w' \<and> entered img (layers w) r (layers w')"
    and RegisterWithQuota_base: "good w \<Longrightarrow> no_faults w \<Longrightarrow> ValidateID (ID img) \<Longrightarrow>
        Parent img = [] \<or> ValidateID (Parent img) \<Longrightarrow> ParentID img = [] \<Longrightarrow>
        RegisterWithQuota cake img data quota w = (r, w') \<Longrightarrow>
        good w' \<and> meta_same graphRoot w w' \<and> entered img (layers w) r (layers w')"
    and Path_base: "ValidateID (GraphID i) \<Longrightarrow> settled graphRoot good layers (Path cake i)"
    and Path_at: "ValidateID (GraphID i) \<Longrightarrow> Path cake i w = (Inr dir, w') \<Longrightarrow> mount_point dir"
    and QuotaedPath_base: "ValidateID (GraphID i) \<Longrightarrow> settled graphRoot good layers (QuotaedPath cake i quota)"
    and QuotaedPath_at: "ValidateID (GraphID i) \<Longrightarrow> QuotaedPath cake i quota w = (Inr dir, w') \<Longrightarrow>
        mount_point dir"
    and Unmount_base: "ValidateID (GraphID i) \<Longrightarrow> settled graphRoot good layers (Unmount cake i)"
    and Copy_base: "mount_point dir \<Longrightarrow> settled graphRoot good layers (runner (cp_command src dir))"
begin

text \<open>Recording the origin of a layer that was registered without a parent.\<close>

lemma link_run:
  assumes good: "aufs_good w" and i: "layers w i = Some (new_layer childID (DockerImageID []) [])"
    and child: "i = GraphID childID" and p: "ValidateID (GraphID parentID)"
    and free: "files w (child_file graphRoot i) = None"
  shows "\<exists>w'. bindE (addInfo (parentChildDir graphRoot) (GraphID parentID) i) (\<lambda>_.
      addInfo (childParentDir graphRoot) i (GraphID parentID)) w = (Inr (), w') \<and> aufs_good w' \<and>
    aufs_layers graphRoot layers w' = (aufs_layers graphRoot layers w)(i \<mapsto> new_layer childID parentID [])"
proof -
  have g: "good w" and inv: "meta_inv graphRoot (layers w) w" using good by (simp_all add: aufs_good_def)
  have v: "ValidateID i" using valid_layers [OF g i] by simp
  obtain w1 w2 where w: "addInfo (parentChildDir graphRoot) (GraphID parentID) i w = (Inr (), w1)"
    "addInfo (childParentDir graphRoot) i (GraphID parentID) w1 = (Inr (), w2)"
    "beyond_files w2 = beyond_files w" "meta_inv graphRoot (layers w) w2"
    "content w2 (child_file graphRoot i) = Some (GraphID parentID @ [newline])"
    "\<forall>j. ValidateID j \<longrightarrow> j \<noteq> i \<longrightarrow> files w2 (child_file graphRoot j) = files w (child_file graphRoot j)"
    "\<forall>q. outside graphRoot q \<longrightarrow> files w2 q = files w q"
    by (rule meta_inv_link [OF inv clean_root v p free i]) simp
  have lay: "layers w2 = layers w" and "good w2" using files_irrelevant [OF w(3,7)] g by simp_all
  have rec: "recorded_parent graphRoot w2 i = GraphID parentID"
    by (simp add: recorded_parent_def w(5) trim_line p)
  have "aufs_image graphRoot w2 img = aufs_image graphRoot w img"
    if j: "layers w j = Some img" "j \<noteq> i" for j img
  proof -
    have "ValidateID j" "ID img = j" using valid_layers [OF g j(1)] by simp_all
    with w(6) j(2) have "recorded_parent graphRoot w2 j = recorded_parent graphRoot w j"
      using content_files [of w2 "child_file graphRoot j" w] by (simp add: recorded_parent_def)
    with \<open>ID img = j\<close> show ?thesis by (simp add: aufs_image_def)
  qed
  moreover have "aufs_image graphRoot w2 (new_layer childID (DockerImageID []) []) = new_layer childID parentID []"
    using rec child by (simp add: aufs_image_def) (simp add: new_layer_def)
  ultimately have "aufs_layers graphRoot layers w2 =
      (aufs_layers graphRoot layers w)(i \<mapsto> new_layer childID parentID [])"
    using lay i by (auto simp: aufs_layers_def fun_eq_iff map_option_case split: option.split)
  moreover have "aufs_good w2" using \<open>good w2\<close> w(4) lay by (simp add: aufs_good_def)
  ultimately show ?thesis using w(1,2) by (simp add: bindE_def)
qed

text \<open>Copying the files and recording the origin.\<close>

definition copy_and_link :: "layer_id \<Rightarrow> layer_id \<Rightarrow> string \<Rightarrow> ('z os_state_scheme, unit) prog" where
  "copy_and_link childID parentID sourcePath =
     bindE (Path cake childID) (\<lambda>destinationPath.
     bindE (runner (cp_command sourcePath destinationPath)) (\<lambda>_.
     bindE (addInfo (parentChildDir graphRoot) (GraphID parentID) (GraphID childID)) (\<lambda>_.
     addInfo (childParentDir graphRoot) (GraphID childID) (GraphID parentID))))"

lemma copy_and_link_effect:
  assumes good: "aufs_good w" and i: "layers w (GraphID c) = Some (new_layer c (DockerImageID []) [])"
    and p: "ValidateID (GraphID p)" and free: "files w (child_file graphRoot (GraphID c)) = None"
    and run: "copy_and_link c p src w = (r, w')"
  shows "aufs_good w' \<and> (case r of
      Inr _ \<Rightarrow> aufs_layers graphRoot layers w' = (aufs_layers graphRoot layers w)(GraphID c \<mapsto> new_layer c p [])
    | Inl (Err _) \<Rightarrow> aufs_layers graphRoot layers w' = aufs_layers graphRoot layers w
    | Inl (Panic _) \<Rightarrow> False)"
proof -
  have v: "ValidateID (GraphID c)"
    using good i valid_layers by (auto simp: aufs_good_def)
  obtain r1 w1 where path: "Path cake c w = (r1, w1)" by (cases "Path cake c w")
  note one = lifted [OF Path_base [OF v] good path]
  show ?thesis
  proof (cases r1)
    case (Inl f)
    with one(3) obtain e where "f = Err e" by (cases f) auto
    with run path Inl one(1,2) show ?thesis by (auto simp: copy_and_link_def bindE_def)
  next
    case (Inr dir)
    obtain r2 w2 where cp: "runner (cp_command src dir) w1 = (r2, w2)"
      by (cases "runner (cp_command src dir) w1")
    note two = lifted [OF Copy_base [OF Path_at [OF v path [unfolded Inr]]] one(1) cp]
    show ?thesis
    proof (cases r2)
      case (Inl f)
      with two(3) obtain e where "f = Err e" by (cases f) auto
      with run path \<open>r1 = Inr dir\<close> cp Inl one(2) two(1,2) show ?thesis
        by (auto simp: copy_and_link_def bindE_def)
    next
      case (Inr u)
      have "files w2 (child_file graphRoot (GraphID c)) = None"
        using free v one(5) two(5) by (simp add: meta_same_def)
      moreover have "layers w2 (GraphID c) = Some (new_layer c (DockerImageID []) [])"
        using i one(4) two(4) by simp
      ultimately obtain w3 where w3: "bindE (addInfo (parentChildDir graphRoot) (GraphID p) (GraphID c)) (\<lambda>_.
          addInfo (childParentDir graphRoot) (GraphID c) (GraphID p)) w2 = (Inr (), w3)" "aufs_good w3"
        "aufs_layers graphRoot layers w3 = (aufs_layers graphRoot layers w2)(GraphID c \<mapsto> new_layer c p [])"
        using link_run [OF two(1) _ refl p] by blast
      have "copy_and_link c p src w = (Inr (), w3)"
        using path \<open>r1 = Inr dir\<close> cp Inr w3(1) by (simp add: copy_and_link_def bindE_def)
      with run w3(2,3) one(2) two(2) show ?thesis by auto
    qed
  qed
qed

lemma deferred_Unmount:
  assumes p: "ValidateID (GraphID p)" and m: "m w = (r, w1)" and good: "aufs_good w1"
  shows "\<exists>w2. deferE (Unmount cake p) m w = (r, w2) \<and> aufs_good w2 \<and>
    aufs_layers graphRoot layers w2 = aufs_layers graphRoot layers w1"
proof -
  obtain x w2 where un: "Unmount cake p w1 = (x, w2)" by (cases "Unmount cake p w1")
  note after = lifted [OF Unmount_base [OF p] good un]
  have "deferE (Unmount cake p) m w = (r, w2)"
    using m un after(3) by (auto simp: deferE_def split: sum.split failure.split)
  with after(1,2) show ?thesis by blast
qed

lemma aufs_Create_copy:
  assumes good: "aufs_good w" and n: "is_namespaced c"
    and new: "GraphID c \<notin> dom (aufs_layers graphRoot layers w)" and p: "ValidateID (GraphID p)"
    and run: "aufs_cake_Create cake runner graphRoot c p x w = (r, w')"
  shows "aufs_good w' \<and> copied c p (aufs_layers graphRoot layers w) r (aufs_layers graphRoot layers w')"
proof -
  let ?L = "aufs_layers graphRoot layers" and ?bare = "new_layer c (DockerImageID []) []"
  have g: "good w" and inv: "meta_inv graphRoot (layers w) w" using good by (simp_all add: aufs_good_def)
  have v: "ValidateID (GraphID c)" by (rule GraphID_namespaced_valid [OF n])
  have nf: "no_faults w" and "child_ok graphRoot (layers w) w (GraphID c)"
    using inv v by (simp_all add: meta_inv_def)
  from this(2) have free: "files w (child_file graphRoot (GraphID c)) = None"
    by (cases rule: child_cases) (use new in auto)
  have "hasInfo (childParentDir graphRoot) c w = (Inr False, w)"
    using hasInfo_ok [OF nf _ ValidateID_plain_name [OF v], of "childParentDir graphRoot" "[]"] free
      info_dirs [OF clean_root] by (simp add: text_at_def)
  then have start: "aufs_cake_Create cake runner graphRoot c p x w =
      bindE (Create cake c (DockerImageID []) []) (\<lambda>_. bindE (Get cake c) (\<lambda>_.
      bindE (Path cake p) (\<lambda>src. deferE (Unmount cake p) (copy_and_link c p src)))) w"
    using n by (simp add: aufs_cake_Create_def bindE_def copy_and_link_def cp_command_def)
  obtain r1 w1 where c1: "Create cake c (DockerImageID []) [] w = (r1, w1)"
    by (cases "Create cake c (DockerImageID []) [] w")
  have base: "good w1" "meta_same graphRoot w w1" "created ?bare (layers w) r1 (layers w1)"
    using Create_base [OF g nf v _ c1] by simp_all
  note one = lift_created [OF good base]
  show ?thesis
  proof (cases r1)
    case (Inl f)
    with one obtain e where "f = Err e" by (cases f) (auto simp: created_def add_layer_def)
    with run start c1 Inl one show ?thesis by (auto simp: bindE_def created_def add_layer_def copied_def)
  next
    case (Inr u)
    have added: "layers w1 = (layers w)(GraphID c \<mapsto> ?bare)"
      using base(3) Inr new by (simp add: created_def add_layer_def)
    have L1: "?L w1 = (?L w)(GraphID c \<mapsto> ?bare)" and good1: "aufs_good w1"
      and free1: "files w1 (child_file graphRoot (GraphID c)) = None"
      using lift_added [OF good base(2,1) added] new by auto
    have "Get cake c w1 = (Inr ?bare, w1)" by (rule Get_present [OF base(1)]) (simp add: added)
    then have next_step: "aufs_cake_Create cake runner graphRoot c p x w =
        bindE (Path cake p) (\<lambda>src. deferE (Unmount cake p) (copy_and_link c p src)) w1"
      using start c1 Inr by (simp add: bindE_def)
    obtain r2 w2 where path: "Path cake p w1 = (r2, w2)" by (cases "Path cake p w1")
    note two = lifted [OF Path_base [OF p] good1 path]
    show ?thesis
    proof (cases r2)
      case (Inl f)
      with two(3) obtain e where "f = Err e" by (cases f) auto
      with run next_step path Inl two(1,2) L1 show ?thesis by (auto simp: bindE_def copied_def)
    next
      case (Inr src)
      obtain r3 w3 where tail: "copy_and_link c p src w2 = (r3, w3)" by (cases "copy_and_link c p src w2")
      have "files w2 (child_file graphRoot (GraphID c)) = None"
        using free1 two(5) v by (simp add: meta_same_def)
      note eff = copy_and_link_effect [OF two(1) _ p this tail]
      have eff: "aufs_good w3 \<and> (case r3 of
          Inr _ \<Rightarrow> ?L w3 = (?L w2)(GraphID c \<mapsto> new_layer c p [])
        | Inl (Err _) \<Rightarrow> ?L w3 = ?L w2 | Inl (Panic _) \<Rightarrow> False)"
        using eff added two(4) by simp
      then obtain w4 where "deferE (Unmount cake p) (copy_and_link c p src) w2 = (r3, w4)"
        "aufs_good w4" "?L w4 = ?L w3"
        using deferred_Unmount [where m = "copy_and_link c p src" and w = w2, OF p tail] by blast
      then show ?thesis using run next_step path Inr eff two(2) L1
        by (auto simp: bindE_def copied_def split: sum.splits failure.splits)
    qed
  qed
qed

end

sublocale growing_metadata_store \<subseteq> growing: creating_store "aufs_cake cake runner graphRoot"
  "aufs_layers graphRoot layers" aufs_good mount_point
proof
  fix w w' :: "'z os_state_scheme" and i p c r img data quota dir
  assume good: "aufs_good w"
  then have g: "good w" and nf: "no_faults w" by (simp_all add: aufs_good_def meta_inv_def)
  let ?L = "aufs_layers graphRoot layers"
  show "aufs_good w' \<and> created (new_layer i p c) (?L w) r (?L w')"
    if "\<not> is_namespaced i" "ValidateID (GraphID i)" "GraphID p = [] \<or> ValidateID (GraphID p)"
      "Create (aufs_cake cake runner graphRoot) i p c w = (r, w')"
  proof -
    have "Create cake i p c w = (r, w')"
      using that(1,4) by (simp add: aufs_cake_def aufs_cake_Create_def)
    from Create_base [OF g nf that(2,3) this] lift_created [OF good] show ?thesis by blast
  qed
  show "aufs_good w' \<and> copied i p (?L w) r (?L w')"
    if "is_namespaced i" "GraphID i \<notin> dom (?L w)" "ValidateID (GraphID i)" "ValidateID (GraphID p)"
      "Create (aufs_cake cake runner graphRoot) i p c w = (r, w')"
    using aufs_Create_copy [OF good that(1,2,4)] that(5) by (simp add: aufs_cake_def)
  show "aufs_good w' \<and> entered img (?L w) r (?L w')"
    if "ValidateID (ID img)" "Parent img = [] \<or> ValidateID (Parent img)" "ParentID img = []"
      "Register (aufs_cake cake runner graphRoot) img data w = (r, w')"
  proof -
    have "Register cake img data w = (r, w')" using that(4) by (simp add: aufs_cake_def)
    from Register_base [OF g nf that(1-3) this] lift_entered [OF good] show ?thesis by blast
  qed
  show "aufs_good w' \<and> entered img (?L w) r (?L w')"
    if "ValidateID (ID img)" "Parent img = [] \<or> ValidateID (Parent img)" "ParentID img = []"
      "RegisterWithQuota (aufs_cake cake runner graphRoot) img data quota w = (r, w')"
  proof -
    have "RegisterWithQuota cake img data quota w = (r, w')" using that(4) by (simp add: aufs_cake_def)
    from RegisterWithQuota_base [OF g nf that(1-3) this] lift_entered [OF good] show ?thesis by blast
  qed
qed (auto simp: aufs_cake_def Path_at QuotaedPath_at
    intro: lift_settled Path_base QuotaedPath_base Unmount_base)

context growing_metadata_store
begin

lemma creating_contract:
  "creating_store (aufs_cake cake runner graphRoot) (aufs_layers graphRoot layers) aufs_good mount_point"
  by (rule growing.creating_store_axioms)

end

section \<open>The server's store grows\<close>

text \<open>
  A command that works below a directory: it does not touch the graph, and changes no file but the
  directory and what lies below it.
\<close>

definition changes_below :: "string \<Rightarrow> ('z graph_state_scheme, 'a) prog \<Rightarrow> bool" where
  "changes_below dir m \<longleftrightarrow> frame gview m \<and>
     (\<forall>w q. q \<noteq> dir \<longrightarrow> \<not> below dir q \<longrightarrow> files (snd (m w)) q = files w q)"

text \<open>
  What the server relies on of its command runner: \<open>cp -a\<close> changes its destination only, and a
  command that fails is an error.
\<close>

definition copies_below :: "(string list \<Rightarrow> ('z graph_state_scheme, unit) prog) \<Rightarrow> bool" where
  "copies_below runner \<longleftrightarrow>
     (\<forall>src dst. calm (runner (cp_command src dst)) \<and> changes_below dst (runner (cp_command src dst)))"

lemma keeps_same_below:
  assumes r: "clean_abs r" and d: "layer_dir r d" and m: "changes_below d m"
  shows "keeps (shed_same r w0) m"
  unfolding keeps_def
proof (intro allI impI)
  fix w assume "shed_same r w0 w"
  then show "shed_same r w0 (snd (m w))"
  proof (rule shed_same_step)
    have "gview (snd (m w)) = gview w" using m by (simp add: changes_below_def frame_def)
    then show "os_fault (snd (m w)) = os_fault w" by (simp add: gview_def)
    show "files (snd (m w)) q = files w q" if "meta_path r q" for q
      using m outside_meta_path [OF r layer_dir_outside [OF r d] that] by (simp add: changes_below_def)
    show "files (snd (m w)) q = files w q \<or> not_link (snd (m w)) q" if "driver_file r q" for q
      using m layer_dir_not_driver [OF r d that] by (simp add: changes_below_def)
  qed
qed

lemma settled_below:
  assumes "root g = r" and "clean_abs r" and "layer_dir r d" and "calm m" and "changes_below d m"
  shows "settled r (host_inv g) (graph_layers g) m"
  using host_settled [OF assms(1)] keeps_same_below [OF assms(2,3,5)] assms(4,5)
  by (auto simp: changes_below_def)

lemma wired_growing_store:
  assumes r: "clean_abs r" and retrier: "retrier_ok hview run" and cp: "copies_below runner"
  shows "growing_metadata_store (docker_cake (wired_graph env run decompress r))
    (graph_layers (wired_graph env run decompress r)) (host_inv (wired_graph env run decompress r)) r
    (layer_dir r) runner"
proof -
  let ?g = "wired_graph env run decompress r"
  have root: "root ?g = r" by (simp add: wired_graph_def)
  note mounts = host_mounts [OF r retrier refl] and register = host_register [OF r retrier refl]
  have regs: "docker_Create ?g i p c = graph_Register ?g (new_layer i p c) None" for i p c
    by (simp add: docker_Create_def docker_Register_def new_layer_def)
  have create: "host_inv ?g w' \<and> meta_same r w w' \<and>
      created (new_layer i p c) (graph_layers ?g w) x (graph_layers ?g w')"
    if "host_inv ?g w" "no_faults w" "ValidateID (GraphID i)" "GraphID p = [] \<or> ValidateID (GraphID p)"
      "Create (docker_cake ?g) i p c w = (x, w')" for w i p c x w'
  proof -
    have "graph_register ?g (new_layer i p c) None (- 1) w = (x, w')"
      using that(3,5) by (simp add: docker_cake_def regs graph_Register_def)
    from register [OF that(1,2) _ _ _ this] that(3,4) show ?thesis
      by (simp add: new_layer_def empty_image_def)
  qed
  show ?thesis
  proof (intro growing_metadata_store.intro growing_metadata_store_axioms.intro
      wired_metadata_store [OF retrier r] create mounts(1-3))
    show "host_inv ?g w' \<and> meta_same r w w' \<and> entered img (graph_layers ?g w) x (graph_layers ?g w')"
      if "host_inv ?g w" "no_faults w" "ValidateID (ID img)" "Parent img = [] \<or> ValidateID (Parent img)"
        "ParentID img = []" "Register (docker_cake ?g) img data w = (x, w')" for w img data x w'
      using register [OF that(1-5), of data "- 1"] that(3,6)
      by (simp add: docker_cake_def docker_Register_def graph_Register_def)
    show "host_inv ?g w' \<and> meta_same r w w' \<and> entered img (graph_layers ?g w) x (graph_layers ?g w')"
      if "host_inv ?g w" "no_faults w" "ValidateID (ID img)" "Parent img = [] \<or> ValidateID (Parent img)"
        "ParentID img = []" "RegisterWithQuota (docker_cake ?g) img data quota w = (x, w')"
      for w img data quota x w'
      using register [OF that(1-5), of data quota] that(3,6)
      by (simp add: docker_cake_def docker_RegisterWithQuota_def graph_RegisterWithQuota_def)
    show "settled r (host_inv ?g) (graph_layers ?g) (runner (cp_command src dir))"
      if "layer_dir r dir" for dir src
      by (rule settled_below [OF root r that]) (use cp in \<open>simp_all add: copies_below_def\<close>)
    show "layer_dir r dir" if "ValidateID (GraphID i)" "Path (docker_cake ?g) i w = (Inr dir, w')"
      for i w dir w' using that by (rule mounts(4))
    show "layer_dir r dir" if "ValidateID (GraphID i)" "QuotaedPath (docker_cake ?g) i quota w = (Inr dir, w')"
      for i quota w dir w' using that by (rule mounts(5))
  qed
qed

lemma server_creating_store:
  assumes "server_graph r g" and "copies_below runner"
  shows "creating_store (aufs_cake (docker_cake g) runner r) (shed_layers g) (shed_inv g) (layer_dir r)"
proof (rule server_graphE [OF assms(1)])
  fix env run decompress
  assume g: "clean_abs r" "retrier_ok hview run" "g = wired_graph env run decompress r"
  note growing = wired_growing_store [OF g(1,2) assms(2), of env decompress, folded g(3)]
  have "shed_layers g = aufs_layers r (graph_layers g)"
    "shed_inv g = metadata_store.aufs_good (graph_layers g) (host_inv g) r"
    by (auto simp: shed_layers_def shed_inv_def root_server [OF assms(1)]
        metadata_store.aufs_good_def [OF growing_metadata_store.axioms(1) [OF growing]])
  then show ?thesis using growing_metadata_store.creating_contract [OF growing] by simp
qed

text \<open>The runner of the server hands its command to the kernel.\<close>

definition kernel_runner :: "'k env \<Rightarrow> string list \<Rightarrow> (('k, 'z) host_state_scheme, unit) prog" where
  "kernel_runner env cmd = bindE (on_kernel (exec env cmd)) (\<lambda>_. ret ())"

lemma kernel_runner_rules: "frame hview (kernel_runner env c)" "calm (kernel_runner env c)"
  unfolding kernel_runner_def by (intro frame_rules frame_hview_kernel) (intro calm_rules)

lemma hview_changes_below: "frame hview m \<Longrightarrow> changes_below d m"
  by (simp add: changes_below_def frame_def hview_def)

lemma kernel_runner_copies: "copies_below (kernel_runner env)"
  unfolding copies_below_def by (intro allI conjI hview_changes_below kernel_runner_rules)

interpretation shed_growing: growing_metadata_store
  "docker_cake (wired_graph env (shed_retrier tick) decompress garden_root)"
  "graph_layers (wired_graph env (shed_retrier tick) decompress garden_root)"
  "host_inv (wired_graph env (shed_retrier tick) decompress garden_root)"
  garden_root "layer_dir garden_root" "kernel_runner env"
  for env tick decompress
  by (rule wired_growing_store [OF clean_garden_root shed_retrier_ok kernel_runner_copies])

end
