(* ===== verification/Uid_Namespace.thy ===== *)
theory Uid_Namespace
  imports Os_Files
begin

text \<open>
  Moving a root file system into a user namespace: \<open>src/pkg/chown/setuiding_chowner_linux.go\<close>,
  \<open>src/rootfs_provider/uid_translator.go\<close>, \<open>getuid_linux.go\<close> and \<open>namespace.go\<close>.

  \<open>filepath.Walk\<close> recurses over the directory tree; \<open>n\<close> bounds the depth, and a tree that is
  deeper would end in the marked panic.  The names that the system lists for a directory are the
  parameter \<open>ls\<close>, of which only \<open>listing\<close> is assumed.  The mappings of user and group IDs come from
  a library and are a record of functions.
\<close>

section \<open>Changing owner and mode\<close>

type_synonym 'z lister = "'z os_state_scheme \<Rightarrow> string \<Rightarrow> string list"

text \<open>What is listed depends on which files there are, and the names are names.\<close>

definition listing :: "'z lister \<Rightarrow> bool" where
  "listing ls \<longleftrightarrow> (\<forall>w w'. dom (files w) = dom (files w') \<longrightarrow> ls w = ls w') \<and>
     (\<forall>w p. list_all plain_name (ls w p))"

text \<open>The kernel drops the set-user-ID and set-group-ID bits of a file whose owner changes.\<close>

definition setid_bits :: "12 word" where
  "setid_bits = 3072"

definition chowned :: "int \<Rightarrow> int \<Rightarrow> inode \<Rightarrow> inode" where
  "chowned uid gid i = i\<lparr>owner := (uid, gid),
     mode := (case kind i of Regular _ \<Rightarrow> and (mode i) (not setid_bits) | _ \<Rightarrow> mode i)\<rparr>"

definition os_lchown :: "string \<Rightarrow> int \<Rightarrow> int \<Rightarrow> ('z os_state_scheme, unit) prog" where
  "os_lchown p uid gid = bindE (os_check OpLchown p) (\<lambda>_. \<lambda>w.
     case files w (path_clean p) of
       None \<Rightarrow> (Inl (Err (NotExist p)), w)
     | Some i \<Rightarrow> (Inr (), put_file (path_clean p) (Some (chowned uid gid i)) w))"

definition os_chmod :: "string \<Rightarrow> 12 word \<Rightarrow> ('z os_state_scheme, unit) prog" where
  "os_chmod p m = bindE (os_check OpChmod p) (\<lambda>_. bindE (real_path p) (\<lambda>q. \<lambda>w.
     case files w q of
       None \<Rightarrow> (Inl (Err (NotExist p)), w)
     | Some i \<Rightarrow> (Inr (), put_file q (Some (i\<lparr>mode := m\<rparr>)) w)))"

definition is_symlink :: "inode \<Rightarrow> bool" where
  "is_symlink i = (case kind i of Symlink _ \<Rightarrow> True | _ \<Rightarrow> False)"

definition Chown :: "string \<Rightarrow> int \<Rightarrow> int \<Rightarrow> ('z os_state_scheme, unit) prog" where
  "Chown path uid gid =
     bindE (os_lstat path) (\<lambda>origMode.
     bindE (os_lchown path uid gid) (\<lambda>_.
     if is_symlink origMode then ret ()
     else os_chmod path (mode origMode)))"

section \<open>Translating one file\<close>

record mapper =
  mapID :: "int \<Rightarrow> int"
  mapString :: string

record translator =
  uidMappings :: mapper
  gidMappings :: mapper

text \<open>\<open>getuidgid\<close> of a missing \<open>FileInfo\<close> dereferences a nil interface.\<close>

definition getuidgid :: "inode option \<Rightarrow> (int \<times> int) outcome" where
  "getuidgid info = (case info of
     None \<Rightarrow> Inl (Panic ''invalid memory address or nil pointer dereference'')
   | Some i \<Rightarrow> Inr (owner i))"

definition Translate :: "translator \<Rightarrow> string \<Rightarrow> inode option \<Rightarrow> ('z os_state_scheme, unit) prog" where
  "Translate u path info = (case getuidgid info of
     Inl f \<Rightarrow> (\<lambda>w. (Inl f, w))
   | Inr (uid, gid) \<Rightarrow>
       let touid = mapID (uidMappings u) uid; togid = mapID (gidMappings u) gid in
       if touid \<noteq> uid \<or> togid \<noteq> gid then ignoreE (Chown path touid togid) else ret ())"

definition translator_CacheKey :: "translator \<Rightarrow> string" where
  "translator_CacheKey u = mapString (uidMappings u) @ ''+'' @ mapString (gidMappings u) @ ''s''"

section \<open>Walking a tree\<close>

primrec walk ::
  "'z lister \<Rightarrow> nat \<Rightarrow> (string \<Rightarrow> inode option \<Rightarrow> ('z os_state_scheme, unit) prog) \<Rightarrow> string \<Rightarrow> inode \<Rightarrow>
    ('z os_state_scheme, unit) prog" where
  "walk ls 0 fn p info = panic ''out of fuel''"
| "walk ls (Suc n) fn p info =
     (if kind info \<noteq> Directory then fn p (Some info)
      else bindE (getW (\<lambda>w. ls w p)) (\<lambda>names.
        bindE (fn p (Some info)) (\<lambda>_.
        forE names (\<lambda>name.
          handleE (os_lstat (path_join [p, name]))
            (\<lambda>_. fn (path_join [p, name]) None)
            (\<lambda>i. walk ls n fn (path_join [p, name]) i)))))"

definition Walk ::
  "'z lister \<Rightarrow> nat \<Rightarrow> string \<Rightarrow> (string \<Rightarrow> inode option \<Rightarrow> ('z os_state_scheme, unit) prog) \<Rightarrow>
    ('z os_state_scheme, unit) prog" where
  "Walk ls n root fn = handleE (os_lstat root) (\<lambda>_. fn root None) (\<lambda>i. walk ls n fn root i)"

text \<open>An error of the walk is only logged.\<close>

definition Namespace ::
  "'z lister \<Rightarrow> nat \<Rightarrow> translator \<Rightarrow> string \<Rightarrow> ('z os_state_scheme, unit) prog" where
  "Namespace ls n u rootfsPath = handleE (Walk ls n rootfsPath (Translate u)) (\<lambda>_. ret ()) ret"

section \<open>What changing an owner does\<close>

definition translated :: "translator \<Rightarrow> inode \<Rightarrow> inode" where
  "translated u i = i\<lparr>owner := (mapID (uidMappings u) (fst (owner i)), mapID (gidMappings u) (snd (owner i)))\<rparr>"

lemma Chown_ok:
  assumes "no_faults w" and "clean_abs p" and "files w p = Some i"
  shows "\<exists>w'. Chown p uid gid w = (Inr (), w') \<and> w' = put_file p (Some (i\<lparr>owner := (uid, gid)\<rparr>)) w"
proof (cases "is_symlink i")
  case True
  then have "chowned uid gid i = i\<lparr>owner := (uid, gid)\<rparr>"
    by (auto simp: chowned_def is_symlink_def split: file_kind.splits)
  with True assms show ?thesis
    by (simp add: Chown_def os_lstat_def os_lchown_def bindE_def)
next
  case False
  let ?w = "put_file p (Some (chowned uid gid i)) w"
  have "real_path p ?w = (Inr p, ?w)"
    using assms(2) False
    by (intro real_path_ok) (auto simp: not_link_def chowned_def is_symlink_def split: file_kind.splits)
  then have "Chown p uid gid w = (Inr (), put_file p (Some ((chowned uid gid i)\<lparr>mode := mode i\<rparr>)) ?w)"
    using False assms
    by (simp add: Chown_def os_lstat_def os_lchown_def os_chmod_def bindE_def)
  moreover have "(chowned uid gid i)\<lparr>mode := mode i\<rparr> = i\<lparr>owner := (uid, gid)\<rparr>"
    by (simp add: chowned_def)
  ultimately show ?thesis by (simp add: put_file_def)
qed

definition translate_files :: "translator \<Rightarrow> string set \<Rightarrow> 'z os_state_scheme \<Rightarrow> 'z os_state_scheme" where
  "translate_files u S w = w\<lparr>files := (\<lambda>q. if q \<in> S then map_option (translated u) (files w q) else files w q)\<rparr>"

lemma translate_files_simps [simp]:
  "os_fault (translate_files u S w) = os_fault w"
  "no_faults (translate_files u S w) = no_faults w"
  "q \<notin> S \<Longrightarrow> files (translate_files u S w) q = files w q"
  by (simp_all add: translate_files_def no_faults_def)

lemma ls_translate_files: "listing ls \<Longrightarrow> ls (translate_files u S w) = ls w"
proof -
  have "dom (files (translate_files u S w)) = dom (files w)" by (auto simp: translate_files_def split: if_splits)
  then show "listing ls \<Longrightarrow> ls (translate_files u S w) = ls w" unfolding listing_def by blast
qed

lemma translate_files_union:
  "S \<inter> T = {} \<Longrightarrow> translate_files u T (translate_files u S w) = translate_files u (S \<union> T) w"
  by (auto simp: translate_files_def fun_eq_iff intro!: arg_cong [where f = "\<lambda>f. w\<lparr>files := f\<rparr>"])

lemma translate_files_empty: "translate_files u {} w = w"
  by (simp add: translate_files_def)

lemma Translate_ok:
  assumes "no_faults w" and "clean_abs p" and "files w p = Some i"
  shows "Translate u p (Some i) w = (Inr (), translate_files u {p} w)"
proof -
  obtain a b where ab: "owner i = (a, b)" by (cases "owner i")
  have eq: "translate_files u {p} w = put_file p (Some (translated u i)) w"
    using assms(3) by (auto simp: translate_files_def put_file_def fun_eq_iff
        intro!: arg_cong [where f = "\<lambda>f. w\<lparr>files := f\<rparr>"])
  show ?thesis
  proof (cases "mapID (uidMappings u) a \<noteq> a \<or> mapID (gidMappings u) b \<noteq> b")
    case True
    with Chown_ok [OF assms, of "mapID (uidMappings u) a" "mapID (gidMappings u) b"] ab eq show ?thesis
      by (auto simp: Translate_def getuidgid_def Let_def ignoreE_def handleE_def translated_def)
  next
    case False
    then have "translated u i = i" using ab by (simp add: translated_def)
    with False ab eq assms(3) show ?thesis
      by (auto simp: Translate_def getuidgid_def Let_def put_file_def fun_upd_idem)
  qed
qed

section \<open>What namespacing may touch\<close>

text \<open>The world without the files at the paths of \<open>S\<close>.\<close>

definition without :: "(string \<Rightarrow> bool) \<Rightarrow> 'z os_state_scheme \<Rightarrow> 'z os_state_scheme" where
  "without S w = w\<lparr>files := (\<lambda>q. if S q then None else files w q)\<rparr>"

lemma without_put_file: "S p \<Longrightarrow> without S (put_file p i w) = without S w"
  by (auto simp: without_def put_file_def fun_eq_iff intro!: arg_cong [where f = "\<lambda>f. w\<lparr>files := f\<rparr>"])

lemma frame_Chown:
  assumes p: "clean_abs p" "S p"
  shows "frame (without S) (Chown p uid gid)"
  unfolding frame_def
proof
  fix w
  have clean: "path_clean p = p" using p(1) by (simp add: clean_abs_def)
  note without = without_put_file [where S = S and p = p, OF p(2)]
  show "without S (snd (Chown p uid gid w)) = without S w"
  proof (cases "os_lstat p w")
    case (Pair r w1)
    have w1: "w1 = w" by (rule reads_onlyD [OF reads_only_os(1) Pair])
    show ?thesis
    proof (cases "\<exists>i. r = Inr i \<and> \<not> is_symlink i \<and> os_fault w OpLchown p = None")
      case False
      with Pair w1 clean show ?thesis
        by (auto simp: Chown_def bindE_def os_lchown_def os_check_def without split: sum.splits option.splits)
    next
      case True
      then obtain i where i: "r = Inr i" "\<not> is_symlink i" "os_fault w OpLchown p = None" by blast
      have at: "files w p = Some i"
        using Pair i(1) clean
        by (auto simp: os_lstat_def bindE_def os_check_def split: option.splits if_splits)
      let ?w = "put_file p (Some (chowned uid gid i)) w"
      have "real_path p ?w = (Inr p, ?w)"
        using p(1) i(2) by (intro real_path_ok) (auto simp: not_link_def chowned_def is_symlink_def split: file_kind.splits)
      moreover have "os_lchown p uid gid w = (Inr (), ?w)"
        using i(3) at clean by (simp add: os_lchown_def bindE_def os_check_def)
      ultimately show ?thesis using Pair w1 i clean
        by (auto simp: Chown_def bindE_def os_chmod_def os_check_def without split: option.splits)
    qed
  qed
qed

lemma frame_Translate: "clean_abs p \<Longrightarrow> S p \<Longrightarrow> frame (without S) (Translate u p info)"
  unfolding Translate_def Let_def ignoreE_def
  by (auto split: sum.split intro!: frame_rules frame_Chown) (auto simp: frame_def)

text \<open>A step down the tree.\<close>

definition in_tree :: "string \<Rightarrow> string \<Rightarrow> bool" where
  "in_tree d q \<longleftrightarrow> q = d \<or> below d q"

lemma in_tree_join:
  assumes p: "clean_abs p" and d: "in_tree d p" "d \<noteq> []" "d \<noteq> ''/''" and n: "plain_name n"
  shows "clean_abs (path_join [p, n])" and "in_tree d (path_join [p, n])"
proof -
  from p obtain cs where cs: "p = abs_path cs" "list_all plain_name cs" by (rule clean_abs_comps)
  have "p \<noteq> ''/''" using d by (cases d) (auto simp: in_tree_def below_def)
  then have "cs \<noteq> []" using cs(1) by (auto simp: abs_path_def)
  then have join: "path_join [p, n] = p @ ''/'' @ n"
    by (simp add: cs(1) path_join_plain [OF cs(2) n]) (simp add: abs_path_def join_with_append)
  show "clean_abs (path_join [p, n])"
    unfolding cs(1) path_join_plain [OF cs(2) n] by (rule clean_abs_abs_path) (simp add: cs(2) n)
  have "prefix p (path_join [p, n])" unfolding join by (rule prefixI, rule refl)
  then show "in_tree d (path_join [p, n])"
    using d(1) prefix_order.trans by (auto simp: in_tree_def below_def join)
qed

lemma frame_get: "(\<And>w. frame v (f (g w))) \<Longrightarrow> frame v (bindE (getW g) f)"
  by (simp add: frame_def bindE_def getW_def)

lemma listed_name: "listing ls \<Longrightarrow> name \<in> set (ls w p) \<Longrightarrow> plain_name name"
  unfolding listing_def list_all_iff by blast

lemma frame_walk:
  fixes ls :: "'z lister"
  assumes ls: "listing ls" and d: "d \<noteq> []" "d \<noteq> ''/''" and "clean_abs p" and "in_tree d p"
  shows "frame (without (in_tree d)) (walk ls n (Translate u) p i)"
  using assms(4,5)
proof (induction n arbitrary: p i)
  case (Suc n)
  have here: "frame (without (in_tree d) :: 'z os_state_scheme \<Rightarrow> _) (Translate u p info)" for info
    by (rule frame_Translate [where S = "in_tree d", OF Suc.prems])
  let ?step = "\<lambda>name. handleE (os_lstat (path_join [p, name]))
    (\<lambda>_. Translate u (path_join [p, name]) None) (\<lambda>i. walk ls n (Translate u) (path_join [p, name]) i)"
  have step: "frame (without (in_tree d)) (?step name)" if "plain_name name" for name
  proof (rule frame_handleE [OF reads_only_frame [OF reads_only_os(1)]])
    note sub = in_tree_join [OF Suc.prems d that]
    show "frame (without (in_tree d)) (Translate u (path_join [p, name]) None)" for e :: go_error
      by (rule frame_Translate [where S = "in_tree d", OF sub])
    show "frame (without (in_tree d)) (walk ls n (Translate u) (path_join [p, name]) i)" for i
      by (rule Suc.IH [OF sub])
  qed
  have loop: "frame (without (in_tree d)) (bindE (Translate u p (Some i)) (\<lambda>_. forE (ls w p) ?step))" for w
  proof (rule frame_bindE [OF here], rule frame_forE)
    fix name assume "name \<in> set (ls w p)"
    from step [OF listed_name [OF ls this]] show "frame (without (in_tree d)) (?step name)" .
  qed
  have "frame (without (in_tree d)) (bindE (getW (\<lambda>w. ls w p))
      (\<lambda>names. bindE (Translate u p (Some i)) (\<lambda>_. forE names ?step)))"
    by (rule frame_get) (rule loop)
  with here show ?case by simp
qed (simp add: frame_def panic_def)

lemma frame_Namespace:
  assumes "listing ls" and "clean_abs d" and "d \<noteq> ''/''"
  shows "frame (without (in_tree d)) (Namespace ls n u d)"
proof -
  have d: "d \<noteq> []" "in_tree d d" using assms(2) by (auto simp: in_tree_def clean_abs_def is_abs_def)
  show ?thesis
    unfolding Namespace_def Walk_def
    by (rule frame_handleE [OF frame_handleE [OF reads_only_frame [OF reads_only_os(1)]]])
      (rule frame_Translate [where S = "in_tree d", OF assms(2) d(2)]
        frame_walk [OF assms(1) d(1) assms(3,2) d(2)] frame_ret)+
qed

section \<open>The files of a tree\<close>

text \<open>The paths of the tree below \<open>p\<close> in the order of the walk, down to depth \<open>n\<close>.\<close>

primrec tree_paths :: "'z lister \<Rightarrow> nat \<Rightarrow> 'z os_state_scheme \<Rightarrow> string \<Rightarrow> string list" where
  "tree_paths ls 0 w p = []"
| "tree_paths ls (Suc n) w p = p #
     (case files w p of
        Some i \<Rightarrow> if kind i = Directory
          then concat (map (\<lambda>name. tree_paths ls n w (path_join [p, name])) (ls w p)) else []
      | None \<Rightarrow> [])"

text \<open>
  The tree is no deeper than \<open>n\<close>, all its files exist, and no path is listed twice.
\<close>

primrec tree_ok :: "'z lister \<Rightarrow> nat \<Rightarrow> 'z os_state_scheme \<Rightarrow> string \<Rightarrow> bool" where
  "tree_ok ls 0 w p = False"
| "tree_ok ls (Suc n) w p \<longleftrightarrow> clean_abs p \<and> (case files w p of
     None \<Rightarrow> False
   | Some i \<Rightarrow> kind i = Directory \<longrightarrow> (\<forall>name \<in> set (ls w p). tree_ok ls n w (path_join [p, name])))"

lemma translated_kind [simp]: "kind (translated u i) = kind i"
  by (simp add: translated_def)

lemma kind_translate_files:
  "(case files (translate_files u S w) p of None \<Rightarrow> False | Some i \<Rightarrow> P (kind i)) =
   (case files w p of None \<Rightarrow> False | Some i \<Rightarrow> P (kind i))"
  by (simp add: translate_files_def split: option.split)

lemma tree_ok_translate:
  assumes "listing ls"
  shows "tree_ok ls n (translate_files u S w) p = tree_ok ls n w p"
proof (induction n arbitrary: p)
  case (Suc n)
  then show ?case
    using ls_translate_files [OF assms] by (simp add: translate_files_def split: option.split)
qed simp

lemma tree_paths_translate:
  assumes "listing ls"
  shows "tree_paths ls n (translate_files u S w) p = tree_paths ls n w p"
proof (induction n arbitrary: p)
  case (Suc n)
  then show ?case
    using ls_translate_files [OF assms] by (simp add: translate_files_def split: option.split)
qed simp

lemma walk_ok:
  assumes ls: "listing ls" and "no_faults w" and "tree_ok ls n w p" and "distinct (tree_paths ls n w p)" and "files w p = Some i"
  shows "walk ls n (Translate u) p i w = (Inr (), translate_files u (set (tree_paths ls n w p)) w)"
  using assms(2-)
proof (induction n arbitrary: p i w)
  case (Suc n)
  have clean: "clean_abs p" using Suc.prems(2) by simp
  note here = Translate_ok [OF Suc.prems(1) clean Suc.prems(4), of u]
  show ?case
  proof (cases "kind i = Directory")
    case False
    with here Suc.prems(4) show ?thesis by simp
  next
    case True
    let ?step = "\<lambda>name. handleE (os_lstat (path_join [p, name]))
            (\<lambda>_. Translate u (path_join [p, name]) None)
            (\<lambda>i. walk ls n (Translate u) (path_join [p, name]) i)"
    let ?paths = "\<lambda>name. tree_paths ls n w (path_join [p, name])"
    have loop: "forE names ?step (translate_files u S w) =
        (Inr (), translate_files u (S \<union> (\<Union>name \<in> set names. set (?paths name))) w)"
      if "\<forall>name \<in> set names. tree_ok ls n w (path_join [p, name])"
        and "distinct (concat (map ?paths names))"
        and "S \<inter> (\<Union>name \<in> set names. set (?paths name)) = {}" for names S
      using that
    proof (induction names arbitrary: S)
      case (Cons name names)
      let ?q = "path_join [p, name]"
      let ?w = "translate_files u S w"
      have ok: "tree_ok ls n ?w ?q" using Cons.prems(1) by (simp add: tree_ok_translate [OF ls])
      then obtain m where n: "n = Suc m" by (cases n) auto
      with ok have "clean_abs ?q" by simp
      have "?q \<in> set (?paths name)" by (simp add: n)
      with Cons.prems(3) have "?q \<notin> S" by auto
      obtain j where j: "files ?w ?q = Some j" using ok n by (cases "files ?w ?q") auto
      have "distinct (tree_paths ls n ?w ?q)" using Cons.prems(2) by (simp add: tree_paths_translate [OF ls])
      from Suc.IH [OF _ ok this j] Suc.prems(1)
      have "walk ls n (Translate u) ?q j ?w = (Inr (), translate_files u (S \<union> set (?paths name)) w)"
        using Cons.prems(3) by (simp add: tree_paths_translate [OF ls] translate_files_union Int_Un_distrib)
      moreover have "os_lstat ?q ?w = (Inr j, ?w)"
        using Suc.prems(1) \<open>clean_abs ?q\<close> j by (simp add: os_lstat_def bindE_def)
      ultimately have "?step name ?w = (Inr (), translate_files u (S \<union> set (?paths name)) w)"
        by (simp add: handleE_def)
      moreover have "(S \<union> set (?paths name)) \<inter> (\<Union>name \<in> set names. set (?paths name)) = {}"
        using Cons.prems(2,3) by auto
      ultimately show ?case
        using Cons.IH [of "S \<union> set (?paths name)"] Cons.prems(1,2) by (simp add: bindE_def Un_assoc)
    qed simp
    have d: "distinct (p # concat (map ?paths (ls w p)))"
      using Suc.prems(3,4) True by simp
    have "forE (ls w p) ?step (translate_files u {p} w) =
        (Inr (), translate_files u ({p} \<union> (\<Union>name \<in> set (ls w p). set (?paths name))) w)"
      by (rule loop) (use Suc.prems(2,4) True d in auto)
    with here True Suc.prems(4) show ?thesis by (simp add: bindE_def)
  qed
qed simp

section \<open>What namespacing does to a tree\<close>

lemma os_lstat_present: "no_faults w \<Longrightarrow> clean_abs p \<Longrightarrow> files w p = Some i \<Longrightarrow> os_lstat p w = (Inr i, w)"
  by (simp add: os_lstat_def bindE_def clean_abs_def)

text \<open>
  C32: Every file is translated once.  On a tree that can be read and where no path occurs twice,
  \<open>Namespace\<close> returns within as many levels as the tree has, and gives every path of the tree, the
  root included, the owner that the mappings give for its old owner, with mode, kind and contents as
  before; no other path changes.
\<close>

theorem Namespace_translates:
  assumes "listing ls" and "no_faults w" and "tree_ok ls n w p" and "distinct (tree_paths ls n w p)"
  shows "Namespace ls n u p w = (Inr (), translate_files u (set (tree_paths ls n w p)) w)"
proof -
  from assms(3) obtain m i where i: "n = Suc m" "clean_abs p" "files w p = Some i"
    by (cases n) (auto split: option.splits)
  have "os_lstat p w = (Inr i, w)" by (rule os_lstat_present [OF assms(2) i(2,3)])
  then show ?thesis
    using walk_ok [OF assms i(3), of u] by (simp add: Namespace_def Walk_def handleE_def)
qed

definition sample_tree :: os_state where
  "sample_tree = \<lparr>files = [''/r'' \<mapsto> (new_inode Directory)\<lparr>owner := (1, 1)\<rparr>,
       ''/r/f'' \<mapsto> (new_inode (Regular ''x''))\<lparr>owner := (5, 6)\<rparr>],
     os_fault = \<lambda>_ _. None\<rparr>"

definition sample_ls :: "'z lister" where
  "sample_ls w p = (if p = ''/r'' then [''f''] else [])"

lemma listing_sample: "listing sample_ls"
  by (simp add: listing_def sample_ls_def plain_name_def fun_eq_iff)

definition sample_translator :: translator where
  "sample_translator = \<lparr>uidMappings = \<lparr>mapID = \<lambda>i. i + 100, mapString = ''u''\<rparr>,
     gidMappings = \<lparr>mapID = \<lambda>i. i + 200, mapString = ''g''\<rparr>\<rparr>"

lemma Namespace_translates_witness:
  "map_option owner (files (snd (Namespace sample_ls 2 sample_translator ''/r'' sample_tree)) ''/r/f'') = Some (105, 206)"
proof -
  have join: "path_join [''/r'', ''f''] = ''/r/f''" by code_simp
  have clean: "clean_abs ''/r''" "clean_abs ''/r/f''" by code_simp+
  have paths: "tree_paths sample_ls 2 sample_tree ''/r'' = [''/r'', ''/r/f'']"
    by (simp add: numeral_2_eq_2 sample_tree_def sample_ls_def join new_inode_def)
  have "tree_ok sample_ls 2 sample_tree ''/r''"
    by (simp add: numeral_2_eq_2 sample_tree_def sample_ls_def join new_inode_def clean)
  moreover have "no_faults sample_tree" by (simp add: no_faults_def sample_tree_def)
  ultimately show ?thesis
    using Namespace_translates [OF listing_sample, of sample_tree 2 "''/r''" sample_translator] paths
    by (simp add: translate_files_def sample_tree_def sample_translator_def translated_def new_inode_def)
qed

text \<open>
  Changing an owner keeps the mode.  \<open>Chown\<close> of a path that exists gives it the new owner and
  nothing else: the set-user-ID and set-group-ID bits that the kernel clears on a regular file are
  put back.
\<close>

theorem Chown_keeps_mode:
  assumes "no_faults w" and "clean_abs p" and "files w p = Some i"
  shows "Chown p uid gid w = (Inr (), put_file p (Some (i\<lparr>owner := (uid, gid)\<rparr>)) w)"
  using Chown_ok [OF assms] by auto

lemma Chown_keeps_mode_witness:
  "Chown ''/r'' 7 8 sample_tree =
    (Inr (), put_file ''/r'' (Some ((new_inode Directory)\<lparr>owner := (7, 8)\<rparr>)) sample_tree)"
proof -
  have "clean_abs ''/r''" by code_simp
  with Chown_keeps_mode [of sample_tree "''/r''" "(new_inode Directory)\<lparr>owner := (1, 1)\<rparr>" 7 8] show ?thesis
    by (simp add: no_faults_def sample_tree_def)
qed

end
