(* ===== verification/Layer_Creation.thy ===== *)
theory Layer_Creation
  imports Container_Layers Aufs_Creation Uid_Namespace
begin

text \<open>
  What \<open>ContainerLayerCreator.Create\<close> (\<open>src/rootfs_provider/layer_creator.go\<close>) does to the layers
  of a store: the lemmas of the locale \<open>creating_store\<close> hold for any store that meets the contract,
  the section after it puts in the store of the server.
\<close>

section \<open>Over any store\<close>

text \<open>The layer that the container's layer is made on, and the layers afterwards.\<close>

definition base_layer :: "string \<Rightarrow> rootfs_spec \<Rightarrow> fetched \<Rightarrow> layer_id" where
  "base_layer key spec img =
     (if Namespaced spec then NamespacedID (DockerImageID (ImageID img)) key
      else DockerImageID (ImageID img))"

definition with_copy ::
  "string \<Rightarrow> rootfs_spec \<Rightarrow> fetched \<Rightarrow> (string \<rightharpoonup> image) \<Rightarrow> (string \<rightharpoonup> image)" where
  "with_copy key spec img L =
     (if Namespaced spec
      then add_layer (new_layer (base_layer key spec img) (DockerImageID (ImageID img)) []) L
      else L)"

definition with_container ::
  "string \<Rightarrow> string \<Rightarrow> rootfs_spec \<Rightarrow> fetched \<Rightarrow> (string \<rightharpoonup> image) \<Rightarrow> (string \<rightharpoonup> image)" where
  "with_container key i spec img L =
     add_layer (new_layer (ContainerID i) (base_layer key spec img) i) (with_copy key spec img L)"

context creating_store
begin

lemma unmountTranslationLayer_keeps:
  assumes "lcGraph lc = cake" and "ValidateID (GraphID i)"
  shows "keeps (\<lambda>w. good w \<and> layers w = L) (unmountTranslationLayer lc i)"
  unfolding unmountTranslationLayer_def assms(1)
  by (intro keeps_rules steady_keeps Unmount_steady assms(2))

lemma namespace_layer_effect:
  assumes lc: "lcGraph lc = cake" and good: "good w" and img: "ValidateID (GraphID img)"
    and ns: "\<And>p L. mount_point p \<Longrightarrow> keeps (\<lambda>w. good w \<and> layers w = L) (NamespaceAt (lcNamespacer lc) p)"
    and run: "namespace_layer lc img w = (r, w')"
  defines "c \<equiv> NamespacedID img (CacheKey (lcNamespacer lc))"
  shows "good w' \<and> grows {GraphID c} (layers w) (layers w') \<and>
    (\<forall>j. r = Inr j \<longrightarrow> j = c \<and> layers w' = add_layer (new_layer c img []) (layers w))"
proof -
  have n: "is_namespaced c" by (simp add: c_def NamespacedID_def)
  have v: "ValidateID (GraphID c)" by (rule GraphID_namespaced_valid [OF n])
  have start: "namespace_layer lc img w = handleE (Get cake c)
      (\<lambda>_. bindE (createNamespacedLayer lc c img) (\<lambda>_. ret c)) (\<lambda>_. ret c) w"
    by (simp add: namespace_layer_def Let_def lc c_def)
  show ?thesis
  proof (cases "layers w (GraphID c)")
    case (Some im)
    from Get_present [OF good Some] run start good Some show ?thesis
      by (auto simp: handleE_def add_layer_def)
  next
    case None
    from Get_absent [OF good v None] obtain e where "Get cake c w = (Inl (Err e), w)" ..
    then have step: "bindE (createNamespacedLayer lc c img) (\<lambda>_. ret c) w = (r, w')"
      using run start by (simp add: handleE_def)
    obtain r1 w1 where make: "Create cake c img [] w = (r1, w1)" by (cases "Create cake c img [] w")
    have new: "GraphID c \<notin> dom (layers w)" using None by blast
    have one: "good w1" "copied c img (layers w) r1 (layers w1)"
      using Create_copy [OF good n new v img make] by simp_all
    have add: "add_layer (new_layer c img []) (layers w) = (layers w)(GraphID c \<mapsto> new_layer c img [])"
      using new by (auto simp: add_layer_def)
    show ?thesis
    proof (cases r1)
      case (Inl f)
      with step make have "r = Inl f" "w' = w1"
        by (simp_all add: createNamespacedLayer_def createLayer_def lc bindE_def)
      with one grows_copied [OF one(2) new] show ?thesis by simp
    next
      case (Inr u)
      with one(2) add have L1: "layers w1 = add_layer (new_layer c img []) (layers w)"
        by (simp add: copied_def)
      let ?rest = "bindE (Path cake c) (\<lambda>path. deferE (unmountTranslationLayer lc c)
        (NamespaceAt (lcNamespacer lc) path))"
      let ?I = "\<lambda>w. good w \<and> layers w = layers w1"
      have result: "bindE ?rest (\<lambda>_. ret c) w1 = (r, w')"
        using step make Inr by (simp add: createNamespacedLayer_def createLayer_def lc bindE_assoc)
          (simp add: bindE_def)
      have "keeps ?I ?rest"
      proof (rule keeps_bind_post [where P = mount_point])
        fix w r w' assume w: "?I w" and path: "Path cake c w = (r, w')"
        from steadyD [OF Path_steady [OF v] _ path] w have "?I w'" by simp
        moreover have "mount_point p" if "r = Inr p" for p
          using Path_result [OF v] path that by blast
        ultimately show "?I w' \<and> (\<forall>x. r = Inr x \<longrightarrow> mount_point x)" by simp
      next
        fix p assume "mount_point p"
        then show "keeps ?I (deferE (unmountTranslationLayer lc c) (NamespaceAt (lcNamespacer lc) p))"
          by (intro keeps_rules ns unmountTranslationLayer_keeps [OF lc v])
      qed
      then have "keeps ?I (bindE ?rest (\<lambda>_. ret c))" by (rule keeps_bindE) (rule keeps_ret)
      from keepsD [OF this _ result] one(1) have "good w'" "layers w' = layers w1" by simp_all
      moreover have "j = c" if "r = Inr j" for j
        using result that by (auto elim!: bindE_InrE)
      moreover have "grows {GraphID c} (layers w) (layers w1)" by (rule grows_copied [OF one(2) new])
      ultimately show ?thesis using L1 by simp
    qed
  qed
qed

lemma container_path_keeps:
  assumes "lcGraph lc = cake" and "ValidateID (GraphID c)" and "good w"
    and "container_path lc c spec img w = (r, w')"
  shows "good w' \<and> layers w' = layers w \<and> (\<forall>p. r = Inr p \<longrightarrow> mount_point p)"
  using assms(4) steadyD [OF Path_steady [OF assms(2)] assms(3)] Path_result [OF assms(2)]
    steadyD [OF QuotaedPath_steady [OF assms(2)] assms(3)] QuotaedPath_result [OF assms(2)]
  by (auto simp: container_path_def assms(1) split: if_splits)

text \<open>The rest of \<open>Create\<close>, once the container's layer is there.\<close>

definition mount_container ::
  "'w layer_creator \<Rightarrow> layer_id \<Rightarrow> rootfs_spec \<Rightarrow> fetched \<Rightarrow> ('w, string \<times> string list) prog" where
  "mount_container lc c spec img =
     bindE (container_path lc c spec img) (\<lambda>rootPath.
     bindE (forE (ImgVolumes img) (createVolume (lcVolumes lc) rootPath)) (\<lambda>_.
     ret (rootPath, ImgEnv img)))"

lemma mount_container_effect:
  assumes lc: "lcGraph lc = cake" and good: "good w" and v: "ValidateID (GraphID c)"
    and vol: "\<And>p v. mount_point p \<Longrightarrow> v \<in> set (ImgVolumes img) \<Longrightarrow>
        steady good layers (createVolume (lcVolumes lc) p v)"
    and run: "mount_container lc c spec img w = (r, w')"
  shows "good w' \<and> layers w' = layers w \<and> (\<forall>p e. r = Inr (p, e) \<longrightarrow> mount_point p \<and> e = ImgEnv img)"
proof -
  obtain r1 w1 where path: "container_path lc c spec img w = (r1, w1)" by (cases "container_path lc c spec img w")
  note one = container_path_keeps [OF lc v good path]
  show ?thesis
  proof (cases r1)
    case (Inl f)
    with run path one show ?thesis by (auto simp: mount_container_def bindE_def)
  next
    case (Inr p)
    let ?vols = "forE (ImgVolumes img) (createVolume (lcVolumes lc) p)"
    have "steady good layers ?vols" by (rule steady_forE) (use vol one Inr in blast)
    obtain r2 w2 where made: "?vols w1 = (r2, w2)" by (cases "?vols w1")
    from steadyD [OF \<open>steady good layers ?vols\<close> _ made] one
    have "good w2" "layers w2 = layers w" by simp_all
    with run path Inr made one show ?thesis by (auto simp: mount_container_def bindE_def split: sum.splits)
  qed
qed

lemma LayerCreator_effect:
  assumes lc: "lcGraph lc = cake" and good: "good w" and img: "ValidateID (ImageID img)" and i: "i \<noteq> []"
    and ns: "\<And>p L. mount_point p \<Longrightarrow> keeps (\<lambda>w. good w \<and> layers w = L) (NamespaceAt (lcNamespacer lc) p)"
    and vol: "\<And>p v. mount_point p \<Longrightarrow> v \<in> set (ImgVolumes img) \<Longrightarrow>
        steady good layers (createVolume (lcVolumes lc) p v)"
    and run: "LayerCreator_Create lc i img spec w = (r, w')"
  defines "key \<equiv> CacheKey (lcNamespacer lc)"
  shows "good w' \<and>
    grows {GraphID (base_layer key spec img), GraphID (ContainerID i)} (layers w) (layers w') \<and>
    (\<forall>p e. r = Inr (p, e) \<longrightarrow> mount_point p \<and> e = ImgEnv img \<and>
       layers w' = with_container key i spec img (layers w))"
proof -
  let ?base = "base_layer key spec img" and ?c = "ContainerID i"
  let ?S = "{GraphID ?base, GraphID ?c}"
  let ?front = "if Namespaced spec then namespace_layer lc (DockerImageID (ImageID img))
    else ret (DockerImageID (ImageID img))"
  obtain r1 w1 where front: "?front w = (r1, w1)" by (cases "?front w")
  have one: "good w1 \<and> grows {GraphID ?base} (layers w) (layers w1) \<and>
      (\<forall>j. r1 = Inr j \<longrightarrow> j = ?base \<and> layers w1 = with_copy key spec img (layers w))"
  proof (cases "Namespaced spec")
    case True
    with front have "namespace_layer lc (DockerImageID (ImageID img)) w = (r1, w1)" by simp
    from namespace_layer_effect [OF lc good _ ns this] img True show ?thesis
      by (simp add: base_layer_def with_copy_def key_def)
  next
    case False
    with front good show ?thesis by (auto simp: base_layer_def with_copy_def)
  qed
  have start: "LayerCreator_Create lc i img spec w = bindE ?front (\<lambda>imageID.
      bindE (Create cake ?c imageID i) (\<lambda>_. mount_container lc ?c spec img)) w"
    unfolding LayerCreator_Create_def mount_container_def lc ..
  show ?thesis
  proof (cases r1)
    case (Inl f)
    have "grows ?S (layers w) (layers w1)" using one by (auto simp: grows_def)
    with start front run Inl one show ?thesis by (auto simp: bindE_def)
  next
    case (Inr j)
    with one have j: "j = ?base" and L1: "layers w1 = with_copy key spec img (layers w)" by simp_all
    obtain r2 w2 where make: "Create cake ?c j i w1 = (r2, w2)" by (cases "Create cake ?c j i w1")
    have v: "ValidateID (GraphID ?c)" using i GraphID_container_valid by blast
    have "ValidateID (GraphID j)"
      using img GraphID_namespaced_valid [of j] by (auto simp: j base_layer_def NamespacedID_def)
    with Create_plain [OF _ _ v _ make] one
    have two: "good w2" "created (new_layer ?c j i) (layers w1) r2 (layers w2)" by simp_all
    have "grows {GraphID ?base} (layers w) (layers w1)" using one by simp
    from grows_trans [OF this grows_created [OF two(2)]] have grown: "grows ?S (layers w) (layers w2)"
      unfolding insert_is_Un [of _ "{GraphID ?c}"] new_layer_simps .
    show ?thesis
    proof (cases r2)
      case (Inl f)
      with start front run \<open>r1 = Inr j\<close> make two(1) grown show ?thesis by (auto simp: bindE_def)
    next
      case (Inr u)
      with start front run \<open>r1 = Inr j\<close> make have "mount_container lc ?c spec img w2 = (r, w')"
        by (simp add: bindE_def)
      from mount_container_effect [OF lc two(1) v vol this] grown
      have "good w'" "layers w' = layers w2"
        "\<forall>p e. r = Inr (p, e) \<longrightarrow> mount_point p \<and> e = ImgEnv img" by simp_all
      moreover have "layers w2 = with_container key i spec img (layers w)"
        using two(2) Inr by (simp add: created_def with_container_def L1 j)
      ultimately show ?thesis using grown by simp
    qed
  qed
qed

end

section \<open>Volumes of an image\<close>

text \<open>
  The names that stay inside the directory they are joined to: cleaned as a relative path, they have
  no component of two dots left.  Relative and absolute names, trailing and doubled slashes
  (\<open>/var/my-app-data/\<close>) and dots that lead up and down again are all fine.
\<close>

definition volume_comps :: "string \<Rightarrow> string list" where
  "volume_comps v = clean_comps False [] (split_on slash v)"

definition volume_name :: "string \<Rightarrow> bool" where
  "volume_name v \<longleftrightarrow> ''..'' \<notin> set (volume_comps v)"

text \<open>Two dots at the bottom of the stack stay there.\<close>

lemma clean_comps_dots:
  "st \<noteq> [] \<Longrightarrow> last st = ''..'' \<Longrightarrow> ''..'' \<in> set (clean_comps False st cs)"
proof (induction "False" st cs rule: clean_comps.induct)
  case (1 st)
  then show ?case by (auto dest: last_in_set)
next
  case (2 st c cs)
  then show ?case by (cases st) (auto split: if_splits)
qed

lemma clean_comps_push:
  "list_all plain_name cs \<Longrightarrow> clean_comps r st (cs @ ds) = clean_comps r (rev cs @ st) ds"
  by (induction cs arbitrary: st) (auto simp: plain_name_def)

lemma clean_comps_base:
  "list_all (\<lambda>c. c \<noteq> ''..'') st \<Longrightarrow> ''..'' \<notin> set (clean_comps False st cs) \<Longrightarrow>
    clean_comps True (st @ rev base) cs = base @ clean_comps False st cs"
proof (induction cs arbitrary: st)
  case (Cons c cs)
  consider (skip) "c = [] \<or> c = ''.''" | (up) "c = ''..''" | (name) "c \<noteq> []" "c \<noteq> ''.''" "c \<noteq> ''..''"
    by blast
  then show ?case
  proof cases
    case up
    show ?thesis
    proof (cases st)
      case Nil
      with Cons.prems(2) up clean_comps_dots [of "[''..'']" cs] show ?thesis by simp
    next
      case (Cons t st')
      with Cons.prems up Cons.IH [of st'] show ?thesis by simp
    qed
  next
    case name
    from Cons.prems(2) name have "''..'' \<notin> set (clean_comps False (c # st) cs)" by simp
    with Cons.IH [of "c # st"] Cons.prems name show ?thesis by simp
  qed (use Cons in auto)
qed simp

lemma clean_comps_names:
  "(\<And>c. c \<in> set cs \<Longrightarrow> slash \<notin> set c) \<Longrightarrow> list_all (\<lambda>c. plain_name c \<or> c = ''..'') st \<Longrightarrow>
    list_all (\<lambda>c. plain_name c \<or> c = ''..'') (clean_comps False st cs)"
  by (induction "False" st cs rule: clean_comps.induct)
     (auto simp: plain_name_def split: list.splits)

lemma path_join_volume:
  assumes cs: "list_all plain_name cs" "cs \<noteq> []" and v: "volume_name v"
  shows "path_join [abs_path cs, v] = abs_path (cs @ volume_comps v)" and "list_all plain_name (volume_comps v)"
proof -
  have "path_join [abs_path cs, v] = path_clean (abs_path cs @ slash # v)"
    by (simp add: path_join_def abs_path_def)
  also have "\<dots> = abs_path (clean_comps True [] (split_on slash (abs_path cs @ slash # v)))"
    by (simp add: path_clean_def is_abs_def abs_path_def)
  also have "split_on slash (abs_path cs @ slash # v) = [] # cs @ split_on slash v"
    using cs by (simp add: split_on_concat split_abs_path)
  also have "clean_comps True [] ([] # cs @ split_on slash v) = clean_comps True (rev cs) (split_on slash v)"
    using cs(1) by (simp add: clean_comps_push)
  also have "\<dots> = cs @ volume_comps v"
    using clean_comps_base [of "[]" "split_on slash v" cs] v by (simp add: volume_name_def volume_comps_def)
  finally show "path_join [abs_path cs, v] = abs_path (cs @ volume_comps v)" .
  have "list_all (\<lambda>c. plain_name c \<or> c = ''..'') (volume_comps v)"
    unfolding volume_comps_def by (rule clean_comps_names) (auto dest: split_on_parts)
  with v show "list_all plain_name (volume_comps v)" by (auto simp: volume_name_def list_all_iff)
qed

lemma outside_volume:
  assumes "outside r p" and v: "volume_name v"
  shows "outside r (path_join [p, v])"
proof -
  from assms(1) obtain cs x ds where p: "r = abs_path cs" "list_all plain_name (cs @ x # ds)"
    "x \<noteq> ''garden-info''" "p = abs_path (cs @ x # ds)"
    unfolding outside_def by blast
  note vol = path_join_volume [OF p(2) _ v]
  have "path_join [p, v] = abs_path (cs @ x # (ds @ volume_comps v))" using vol(1) p(4) by simp
  moreover have "list_all plain_name (cs @ x # (ds @ volume_comps v))" using p(2) vol(2) by simp
  ultimately show ?thesis unfolding outside_def using p(1,3) by blast
qed

lemma volume_settled:
  assumes "root g = r" and r: "clean_abs r" and p: "outside r p" and v: "volume_name v"
  shows "settled r (host_inv g) (graph_layers g) (SimpleVolumeCreator_Create p v)"
proof -
  note out = outside_volume [OF p v]
  have mk: "keeps (shed_same r w0) (mkdir_all (path_join [p, v]))" for w0 :: "'a graph_state_scheme"
    by (rule keeps_same_mkdir_all [OF r]) (use out outside_clean [OF out] in simp)
  show ?thesis unfolding SimpleVolumeCreator_Create_def Let_def
    by (rule host_settled [OF assms(1)])
      (intro frame_rules frame_gview_files [OF frame_mkdir_all] reads_only_frame [OF reads_only_os(2)],
       intro calm_rules,
       intro keeps_rules mk keeps_same_reads_only [OF reads_only_os(2)])
qed

section \<open>The server\<close>

text \<open>A namespacer that changes the files below the directory it is given, and nothing else.\<close>

definition works_below :: "'z graph_state_scheme namespacer \<Rightarrow> bool" where
  "works_below n \<longleftrightarrow> (\<forall>p. clean_abs p \<and> p \<noteq> ''/'' \<longrightarrow> changes_below p (NamespaceAt n p))"

text \<open>The namespacer that \<open>Wire\<close> makes is one.\<close>

definition UidNamespacer :: "'z lister \<Rightarrow> nat \<Rightarrow> translator \<Rightarrow> 'z os_state_scheme namespacer" where
  "UidNamespacer ls n u = \<lparr>CacheKey = translator_CacheKey u, NamespaceAt = Namespace ls n u\<rparr>"

lemma changes_below_without:
  fixes m :: "('z graph_state_scheme, 'a) prog"
  assumes "frame (without (in_tree d)) m"
  shows "changes_below d m"
proof -
  have view: "gview (without S w) = gview w" for S and w :: "'z graph_state_scheme"
    by (simp add: gview_def without_def)
  have elsewhere: "files (without (in_tree d) w) q = files w q" if "q \<noteq> d" "\<not> below d q"
    for q and w :: "'z graph_state_scheme"
    using that by (simp add: without_def in_tree_def)
  from assms have eq: "without (in_tree d) (snd (m w)) = without (in_tree d) w" for w
    by (simp add: frame_def)
  show ?thesis unfolding changes_below_def frame_def using eq view elsewhere by metis
qed

lemma UidNamespacer_works_below: "listing ls \<Longrightarrow> works_below (UidNamespacer ls n u)"
  by (simp add: works_below_def UidNamespacer_def changes_below_without frame_Namespace)

lemma server_volume_steady:
  assumes server: "server_graph r g" and p: "layer_dir r p" and v: "volume_name v"
  shows "steady (shed_inv g) (shed_layers g) (SimpleVolumeCreator_Create p v)"
proof -
  have r: "clean_abs r" using server by (simp add: server_graph_def)
  show ?thesis
    by (rule server_steady [OF server volume_settled [OF root_server [OF server] r layer_dir_outside [OF r p] v]])
qed

lemma server_keeps_below:
  assumes server: "server_graph r g" and p: "layer_dir r p" and m: "changes_below p m"
  shows "keeps (\<lambda>w. shed_inv g w \<and> shed_layers g w = L) m"
proof -
  have r: "clean_abs r" using server by (simp add: server_graph_def)
  let ?m = "\<lambda>w. (Inr () :: unit outcome, snd (m w))"
  have "calm ?m" by (simp add: calm_def)
  moreover have "changes_below p ?m" using m by (simp add: changes_below_def frame_def)
  ultimately have "settled r (host_inv g) (graph_layers g) ?m"
    by (rule settled_below [OF root_server [OF server] r p])
  from steady_keeps [OF server_steady [OF server this]]
  have "keeps (\<lambda>w. shed_inv g w \<and> shed_layers g w = L) ?m" .
  then show ?thesis by (simp add: keeps_def)
qed

lemma LayerCreator_shed:
  assumes server: "server_graph r g" and cp: "copies_below runner" and n: "works_below n"
    and inv: "shed_inv g w" and img: "ValidateID (ImageID img)" and i: "i \<noteq> []"
    and vols: "list_all volume_name (ImgVolumes img)"
    and run: "LayerCreator_Create (wired_creator (aufs_cake (docker_cake g) runner r) n) i img spec w = (x, w')"
  shows "shed_inv g w' \<and>
    grows {GraphID (base_layer (CacheKey n) spec img), GraphID (ContainerID i)} (shed_layers g w) (shed_layers g w') \<and>
    (\<forall>p e. x = Inr (p, e) \<longrightarrow> layer_dir r p \<and> e = ImgEnv img \<and>
       shed_layers g w' = with_container (CacheKey n) i spec img (shed_layers g w))"
proof -
  let ?lc = "wired_creator (aufs_cake (docker_cake g) runner r) n"
  have ns: "keeps (\<lambda>w. shed_inv g w \<and> shed_layers g w = L) (NamespaceAt (lcNamespacer ?lc) p)"
    if p: "layer_dir r p" for p L
  proof (rule server_keeps_below [OF server p])
    have "clean_abs r" using server by (simp add: server_graph_def)
    with n layer_dir_root [OF this p] show "changes_below p (NamespaceAt (lcNamespacer ?lc) p)"
      by (simp add: wired_creator_def works_below_def)
  qed
  have vol: "steady (shed_inv g) (shed_layers g) (createVolume (lcVolumes ?lc) p v)"
    if "layer_dir r p" "v \<in> set (ImgVolumes img)" for p v
    using server_volume_steady [OF server that(1)] that(2) vols by (simp add: wired_creator_def list_all_iff)
  from creating_store.LayerCreator_effect [OF server_creating_store [OF server cp] _ inv img i ns vol run]
  show ?thesis by (simp add: wired_creator_def)
qed

end
