(* ===== verification/Fetch_Effects.thy ===== *)
theory Fetch_Effects
  imports Layer_Creation
begin

text \<open>
  What fetching an image (\<open>src/repository_fetcher\<close>) does to the layers of a store: it adds layers
  at IDs that were free, and leaves every layer that is there as it is, also when it fails half way.

  The locale \<open>fetching_store\<close> is a store together with the two fetchers that work on it and what
  they rely on: the connection to a registry, the archiver and the verifier of blobs leave the
  layers alone, and a registry lists layers with valid IDs.  It is interpreted on the server's
  store.
\<close>

section \<open>Steps that add layers\<close>

text \<open>The invariant holds, and all the layers of \<open>L\<close> are there, as they were.\<close>

definition grown :: "('w \<Rightarrow> bool) \<Rightarrow> ('w \<Rightarrow> (string \<rightharpoonup> image)) \<Rightarrow> (string \<rightharpoonup> image) \<Rightarrow> 'w \<Rightarrow> bool" where
  "grown good layers L w \<longleftrightarrow> good w \<and> grows UNIV L (layers w)"

text \<open>A program that keeps the invariant and all layers, and adds none.\<close>

definition quiet :: "('w \<Rightarrow> bool) \<Rightarrow> ('w \<Rightarrow> (string \<rightharpoonup> image)) \<Rightarrow> ('w, 'a) prog \<Rightarrow> bool" where
  "quiet good layers m \<longleftrightarrow> (\<forall>w r w'. good w \<longrightarrow> m w = (r, w') \<longrightarrow> good w' \<and> layers w' = layers w)"

lemma quiet_grown: "quiet good layers m \<Longrightarrow> keeps (grown good layers L) m"
  unfolding keeps_def grown_def quiet_def by (metis prod.collapse)

lemma steady_quiet: "steady good layers m \<Longrightarrow> quiet good layers m"
  by (auto simp: steady_def quiet_def)

lemma reads_only_quiet: "reads_only m \<Longrightarrow> quiet good layers m"
  by (auto simp: quiet_def dest: reads_onlyD)

lemma grown_step:
  assumes "\<And>w r w'. good w \<Longrightarrow> m w = (r, w') \<Longrightarrow> good w' \<and> grows S (layers w) (layers w')"
  shows "keeps (grown good layers L) m"
  unfolding keeps_def
proof (intro allI impI)
  fix w assume w: "grown good layers L w"
  obtain r w' where run: "m w = (r, w')" by (cases "m w")
  from assms [OF _ run] w have "good w'" "grows S (layers w) (layers w')" by (simp_all add: grown_def)
  with w grows_trans [of UNIV L "layers w" S "layers w'"]
  show "grown good layers L (snd (m w))" by (simp add: grown_def run)
qed

section \<open>What the fetchers rely on\<close>

text \<open>A layer of a manifest: its IDs have hex parts that are valid IDs, its volumes stay inside.\<close>

definition layer_ids_ok :: "layer \<Rightarrow> bool" where
  "layer_ids_ok l \<longleftrightarrow> (\<forall>h. digest_hex (StrongID l) = Inr h \<longrightarrow> ValidateID h) \<and>
     (\<forall>p. digest_hex (ParentStrongID l) = Inr p \<longrightarrow> p = [] \<or> ValidateID p)"

definition layer_ok :: "layer \<Rightarrow> bool" where
  "layer_ok l \<longleftrightarrow> layer_ids_ok l \<and> list_all volume_name (config_vols l)"

definition image_ready :: "fetched \<Rightarrow> bool" where
  "image_ready img \<longleftrightarrow> ValidateID (ImageID img) \<and> list_all volume_name (ImgVolumes img)"

definition conn_ok :: "('w \<Rightarrow> bool) \<Rightarrow> ('w \<Rightarrow> (string \<rightharpoonup> image)) \<Rightarrow> 'w conn \<Rightarrow> bool" where
  "conn_ok good layers conn \<longleftrightarrow>
     (\<forall>tag. quiet good layers (GetManifest conn tag)) \<and>
     (\<forall>d. quiet good layers (GetBlobReader conn d)) \<and>
     (\<forall>tag w m w'. GetManifest conn tag w = (Inr m, w') \<longrightarrow> list_all layer_ok m)"

locale fetching_store = creating_store cake layers good mount_point
  for cake :: "'z os_state_scheme cake" and layers and good and mount_point +
  fixes remote :: "'z os_state_scheme remote"
    and local :: "'z os_state_scheme local_fetcher"
  assumes remote_cake: "RemoteCake remote = cake"
    and local_cake: "LocalCake local = cake"
    and ID_quiet: "quiet good layers (IDProvider local p)"
    and ID_valid: "IDProvider local p w = (Inr i, w') \<Longrightarrow> ValidateID (GraphID i)"
    and Tar_quiet: "quiet good layers (archive_Tar local p)"
    and Dial_quiet: "quiet good layers (DialTo remote h p u pw)"
    and Dial_conn: "DialTo remote h p u pw w = (Inr conn, w') \<Longrightarrow> conn_ok good layers conn"
    and Verify_quiet: "quiet good layers (Verifier remote s d)"
    and Close_quiet: "Verifier remote s d w = (Inr v, w') \<Longrightarrow> quiet good layers (deleteCloser_Close v)"
begin

abbreviation G :: "(string \<rightharpoonup> image) \<Rightarrow> 'z os_state_scheme \<Rightarrow> bool" where
  "G \<equiv> grown good layers"

lemma Get_keeps: "ValidateID (GraphID i) \<Longrightarrow> keeps (G L) (Get cake i)"
proof (rule quiet_grown, unfold quiet_def, intro allI impI)
  fix w r w' assume v: "ValidateID (GraphID i)" and w: "good w" "Get cake i w = (r, w')"
  have "w' = w" by (rule Get_cases [OF w(1) v]) (use w(2) in simp_all)
  with w(1) show "good w' \<and> layers w' = layers w" by simp
qed

lemma Register_keeps:
  assumes "ValidateID (ID img)" and "Parent img = [] \<or> ValidateID (Parent img)" and "ParentID img = []"
  shows "keeps (G L) (Register cake img data)" and "keeps (G L) (RegisterWithQuota cake img data quota)"
proof -
  show "keeps (G L) (Register cake img data)"
    by (rule grown_step) (use Register_effect [OF _ assms] grows_entered in blast)
  show "keeps (G L) (RegisterWithQuota cake img data quota)"
    by (rule grown_step) (use RegisterWithQuota_effect [OF _ assms] grows_entered in blast)
qed

text \<open>The local fetcher.\<close>

lemma resolve_keeps: "keeps (G L) (resolve p)"
proof (rule quiet_grown, rule reads_only_quiet)
  show "reads_only (resolve p)" unfolding resolve_def
    by (intro reads_only_bindE reads_only_handleE reads_only_os reads_only_basic)
      (auto intro: reads_only_handleE reads_only_os split: file_kind.split)
qed

lemma Local_Fetch_yields: "yields (G L) image_ready (Local_Fetch local u un pw quota)"
proof -
  have one: "yields (G L) ValidateID (local_fetch local p)" for p
    unfolding local_fetch_def local_cake
  proof (rule yields_bindE [OF keeps_yields [OF resolve_keeps]], rule yields_bindE)
    show "yields (G L) (\<lambda>i. ValidateID (GraphID i)) (IDProvider local path)" for path
      by (rule yields_result [OF quiet_grown [OF ID_quiet]]) (rule ID_valid)
  next
    fix path i assume v: "ValidateID (GraphID i)"
    show "yields (G L) ValidateID (handleE (Get cake i)
      (\<lambda>_. bindE (handleE (archive_Tar local path)
            (\<lambda>e. throw (Errorf (''repository_fetcher: fetch local rootfs: untar rootfs: '' @ err_msg e))) ret) (\<lambda>tar.
         bindE (handleE (Register cake (empty_image\<lparr>ID := GraphID i\<rparr>) (Some tar))
            (\<lambda>e. throw (Errorf (''repository_fetcher: fetch local rootfs: register rootfs: '' @ err_msg e))) ret) (\<lambda>_.
         ret (GraphID i))))
      (\<lambda>_. ret (GraphID i)))"
      by (intro yields_rules Get_keeps Register_keeps keeps_rules quiet_grown [OF Tar_quiet] v)
        (simp_all add: v empty_image_def)
  qed
  show ?thesis unfolding Local_Fetch_def Let_def
    by (intro yields_if yields_stop yields_bindE [OF one] yields_ret) (simp add: image_ready_def)
qed

text \<open>The remote fetcher.\<close>

lemma fetchLayer_keeps:
  assumes conn: "conn_ok good layers conn" and l: "layer_ok l"
  shows "keeps (G L) (fetchLayer remote conn l quota)"
proof -
  have blob: "keeps (G L) (GetBlobReader conn d)" for d
    using conn by (simp add: conn_ok_def quiet_grown)
  have ver: "yields (G L) (\<lambda>v. quiet good layers (deleteCloser_Close v)) (Verifier remote s d)" for s d
    by (rule yields_result [OF quiet_grown [OF Verify_quiet]]) (rule Close_quiet)
  have hex: "yields (G L) ValidateID (liftO (digest_hex (StrongID l)))"
    and phex: "yields (G L) (\<lambda>p. p = [] \<or> ValidateID p) (liftO (digest_hex (ParentStrongID l)))"
    using l by (auto simp: yields_def layer_ok_def layer_ids_ok_def)
  have register: "keeps (G L) (handleE
      (RegisterWithQuota cake (empty_image\<lparr>ID := h, Parent := p, Size := sz\<rparr>) data quota)
      (\<lambda>e. if str_contains (err_msg e) ''unexpected EOF''
           then throw (Errorf (err_msg e @ ''. Possible cause: '' @ err_msg QuotaExceededErr))
           else throw e) (\<lambda>_. ret sz'))"
    if "ValidateID h" "p = [] \<or> ValidateID p" for h p sz data and sz' :: int64
    by (intro keeps_rules Register_keeps) (use that in \<open>simp_all add: empty_image_def\<close>)
  have "yields (G L) (\<lambda>_. True) (fetchLayer remote conn l quota)"
    unfolding fetchLayer_def remote_cake
  proof (rule yields_bindE [OF hex], rule yields_handleE [OF keeps_yields])
    fix h assume h: "ValidateID h"
    show "keeps (G L) (Get cake (DockerImageID h))" by (rule Get_keeps) (simp add: h)
    show "yields (G L) (\<lambda>_. True) (bindE (GetBlobReader conn (BlobSum l)) (\<lambda>blob.
        bindE (Verifier remote (applyQuota blob quota) (BlobSum l)) (\<lambda>v.
        deferE (deleteCloser_Close v) (
        bindE (liftO (digest_hex (ParentStrongID l))) (\<lambda>p.
        handleE (RegisterWithQuota cake
            (empty_image\<lparr>ID := h, Parent := p, Size := vSize v\<rparr>) (Some (vData v)) quota)
          (\<lambda>e. if str_contains (err_msg e) ''unexpected EOF''
               then throw (Errorf (err_msg e @ ''. Possible cause: '' @ err_msg QuotaExceededErr))
               else throw e)
          (\<lambda>_. ret (vSize v)))))))"
      by (intro yields_bind_keeps [OF blob] yields_bindE [OF ver] yields_deferE yields_bindE [OF phex]
          keeps_yields quiet_grown register h)
    show "yields (G L) (\<lambda>_. True) (ret (Size img))" for img :: image by (simp add: yields_ret)
  qed
  then show ?thesis by (rule yields_keeps)
qed

lemma fetchLayers_keeps:
  assumes "conn_ok good layers conn" and "list_all layer_ok ls"
  shows "keeps (G L) (fetchLayers remote conn ls quota env vols)"
  using assms(2)
  by (induction ls arbitrary: quota env vols) (auto intro!: keeps_bindE fetchLayer_keeps [OF assms(1)])

lemma remote_manifest_yields:
  "yields (G L) (\<lambda>(conn, m). conn_ok good layers conn \<and> list_all layer_ok m)
     (remote_manifest remote u un pw)"
proof -
  have dial: "yields (G L) (conn_ok good layers) (DialTo remote h p un pw)" for h p
    by (rule yields_result [OF quiet_grown [OF Dial_quiet]]) (rule Dial_conn)
  have man: "yields (G L) (list_all layer_ok) (GetManifest conn tag)" if "conn_ok good layers conn" for conn tag
    using that unfolding conn_ok_def by (intro yields_result quiet_grown) blast+
  show ?thesis unfolding remote_manifest_def Let_def
  proof (rule yields_bind_keeps [OF keeps_liftO], rule yields_bindE [OF dial])
    fix path conn assume conn: "conn_ok good layers conn"
    show "yields (G L) (\<lambda>(conn, m). conn_ok good layers conn \<and> list_all layer_ok m)
      (bindE (handleE (GetManifest conn (remote_tag u))
         (\<lambda>e. throw (Errorf (''get manifest for tag '' @ Fragment u @ '' on repo '' @ url_String u @ '': '' @ err_msg e)))
         ret) (\<lambda>m. ret (conn, m)))"
      by (rule yields_bindE [where P = "list_all layer_ok"], rule yields_handleE [OF man [OF conn]])
        (auto intro: yields_ret yields_stop simp: conn)
  qed
qed

lemma Remote_Fetch_yields: "yields (G L) image_ready (Remote_Fetch remote u un pw quota)"
  unfolding Remote_Fetch_def
proof (rule yields_bindE [OF remote_manifest_yields], clarify, rule yields_if [OF yields_stop(1)])
  fix conn m assume ok: "conn_ok good layers conn" "list_all layer_ok m"
  let ?q = "if sint quota \<le> 0 then - 1 else quota"
  have all: "yields (G L) (\<lambda>(env, vols). list_all volume_name vols) (fetchLayers remote conn m ?q [] [])"
  proof (rule yields_result [OF fetchLayers_keeps [OF ok]])
    fix w x w' assume run: "fetchLayers remote conn m ?q [] [] w = (Inr x, w')"
    obtain e v where x: "x = (e, v)" by (cases x)
    have "v = concat (map config_vols m)" using fetchLayers_config [OF run [unfolded x]] by simp
    then show "case x of (env, vols) \<Rightarrow> list_all volume_name vols"
      using ok(2) by (auto simp: x list_all_iff layer_ok_def)
  qed
  have last: "yields (G L) ValidateID (liftO (last_layer_id m))"
    using ok(2) by (auto simp: yields_def last_layer_id_def list_all_iff layer_ok_def layer_ids_ok_def split: if_splits)
  show "yields (G L) image_ready (bindE (fetchLayers remote conn m ?q [] []) (\<lambda>(env, vols).
     bindE (liftO (last_layer_id m)) (\<lambda>i.
     ret \<lparr>ImageID = i, ImgEnv = env, ImgVolumes = vols, ImgSize = declared_size m\<rparr>)))"
    by (rule yields_bindE [OF all], clarify, rule yields_bindE [OF last])
      (auto intro!: yields_ret simp: image_ready_def)
qed

lemma yields_attempts: "yields I P m \<Longrightarrow> yields I P (attempts stop m n e)"
  by (induction n arbitrary: e) (auto intro!: yields_handleE yields_if yields_stop yields_ret)

text \<open>The fetcher that the server uses: local or remote by the scheme, tried again on errors.\<close>

lemma server_fetch_yields:
  "yields (G L) image_ready
     (Fetch (Retryable (CompositeFetcher (local_fetcher_of local) (remote_fetcher_of remote))) u un pw quota)"
  by (auto simp: Retryable_def retry_Fetch_def CompositeFetcher_def composite_Fetch_def
      local_fetcher_of_def remote_fetcher_of_def
      intro!: yields_attempts Local_Fetch_yields Remote_Fetch_yields)

end

section \<open>The server's fetchers\<close>

lemma server_quiet:
  assumes server: "server_graph r g" and view: "frame gview m" and same: "\<And>w0. keeps (shed_same r w0) m"
  shows "quiet (shed_inv g) (shed_layers g) m"
  unfolding quiet_def
proof (intro allI impI)
  fix w x w' assume inv: "shed_inv g w" and run: "m w = (x, w')"
  note store = server_metadata_store [OF server] and root = root_server [OF server]
  note good = metadata_store.aufs_good_def [OF store]
  have h: "host_inv g w" and aufs: "metadata_store.aufs_good (graph_layers g) (host_inv g) r w"
    using inv by (simp_all add: shed_inv_def root good)
  have "shed_same r w w" using h by (simp add: host_inv_def root shed_same_def meta_same_refl)
  from keepsD [OF same this run] have s: "meta_same r w w'" "link_free r w'" by (simp_all add: shed_same_def)
  have v: "gview w' = gview w" by (rule frameD [OF view run])
  have "host_inv g w'" and lay: "graph_layers g w' = graph_layers g w"
    using h graph_inv_cong [OF v] graph_layers_cong [OF v] s(2) by (simp_all add: host_inv_def root)
  from metadata_store.lift_same [OF store aufs s(1) this]
  show "shed_inv g w' \<and> shed_layers g w' = shed_layers g w"
    by (simp add: shed_inv_def shed_layers_def root good)
qed

lemma server_quiet_hview: "server_graph r g \<Longrightarrow> frame hview m \<Longrightarrow> quiet (shed_inv g) (shed_layers g) m"
  by (rule server_quiet) (auto simp: frame_hview intro: keeps_same_frame)

text \<open>The temporary files of the verifier, and a store that is not kept in one of them.\<close>

definition tmp_apart :: "string \<Rightarrow> (nat \<Rightarrow> string) \<Rightarrow> bool" where
  "tmp_apart r rnd \<longleftrightarrow> \<not> prefix ''/tmp/unverified-layer'' r \<and> random_digits rnd"

lemma tmp_names:
  assumes r: "clean_abs r" and apart: "tmp_apart r rnd"
  defines "q \<equiv> \<lambda>i. ''/tmp/unverified-layer'' @ rnd i"
  shows "clean_abs (q i)" and "\<not> meta_path r (q i)" and "\<not> driver_file r (q i)"
proof -
  let ?n = "''unverified-layer'' @ rnd i" and ?qs = "[''tmp'', ''unverified-layer'' @ rnd i]"
  have q: "q i = abs_path ?qs" by (simp add: q_def abs_path_def)
  have pl: "list_all plain_name ?qs"
    using apart random_no_slash [of rnd i] by (simp add: plain_name_def tmp_apart_def)
  show "clean_abs (q i)" unfolding q by (rule clean_abs_abs_path [OF pl])
  show "\<not> meta_path r (q i)"
  proof
    assume "meta_path r (q i)"
    from meta_path_comps [OF r this] obtain cs qs ys where c: "r = abs_path cs" "q i = abs_path qs"
      "list_all plain_name qs" "prefix qs (cs @ ''garden-info'' # ys)" by metis
    have "qs = ?qs" using c(2,3) q pl abs_path_inject by simp
    with c(4) obtain ds where "cs = ''tmp'' # ?n # ds"
      by (cases cs; cases "tl cs") (auto simp: prefix_def)
    then have "prefix (q i) r" using c(1) by (cases ds) (simp_all add: q_def abs_path_def)
    then have "prefix ''/tmp/unverified-layer'' r" unfolding q_def by (rule append_prefixD)
    with apart show False by (simp add: tmp_apart_def)
  qed
  show "\<not> driver_file r (q i)"
  proof
    assume "driver_file r (q i)"
    then obtain j where j: "ValidateID j" "q i = layers_file r j \<or> q i = backing_file r j"
      by (auto simp: driver_file_def)
    note pj = ValidateID_plain_name [OF j(1)]
    obtain cs where cs: "r = abs_path cs" "list_all plain_name cs" by (rule clean_abs_comps [OF r])
    from j(2) have "?qs = cs @ [''aufs'', ''layers'', j] \<or> ?qs = cs @ [''backing_stores'', j]"
      using cs pj pl q abs_path_inject [OF pl] by (auto simp: path_join_plain path_join_plain2)
    then show False by (cases cs; cases "tl cs") auto
  qed
qed

lemma shed_same_tmp_file:
  assumes r: "clean_abs r" and apart: "tmp_apart r rnd" and same: "shed_same r w0 w"
  shows "shed_same r w0 (put_file (''/tmp/unverified-layer'' @ rnd i) x w)"
  by (rule shed_same_step [OF same]) (use tmp_names(2,3) [OF r apart, of i] in auto)

text \<open>A file the verifier may have opened: one of the temporary names.\<close>

definition tmp_result :: "(nat \<Rightarrow> string) \<Rightarrow> string \<Rightarrow> bool" where
  "tmp_result rnd q \<longleftrightarrow> (\<exists>i. q = ''/tmp/unverified-layer'' @ rnd i)"

lemma temp_file_result:
  assumes r: "clean_abs r" and apart: "tmp_apart r rnd" and same: "shed_same r w0 w"
    and run: "temp_file rnd ''/tmp'' ''unverified-layer'' w = (x, w')"
  shows "shed_same r w0 w' \<and> (\<forall>q. x = Inr q \<longrightarrow> tmp_result rnd q)"
proof -
  have p: "path_join [''/tmp'', ''unverified-layer''] = ''/tmp/unverified-layer''" by code_simp
  show ?thesis
  proof (cases "os_fault w OpOpen (path_clean ''/tmp/unverified-layer'')")
    case (Some e)
    with run same show ?thesis by (auto simp: temp_file_def Let_def p os_check_def bindE_def)
  next
    case None
    then show ?thesis
      using run same shed_same_tmp_file [OF r apart same]
      by (auto simp: temp_file_def Let_def p os_check_def bindE_def tmp_result_def
          split: if_splits option.splits dest!: temp_name_form)
  qed
qed

lemma Verify_keeps_same:
  assumes r: "clean_abs r" and apart: "tmp_apart r rnd"
  shows "keeps (shed_same r w0) (Verify rnd other s d)"
proof (cases "NewDigestVerifier other d")
  case (Inr verifies)
  show ?thesis unfolding Verify_def Inr sum.case
  proof (rule keeps_bind_post [OF temp_file_result [OF r apart]])
    fix tmp assume "tmp_result rnd tmp"
    then have put: "shed_same r w0 (put_file tmp y w)" if "shed_same r w0 w" for y and w :: "'a os_state_scheme"
      using shed_same_tmp_file [OF r apart that] by (auto simp: tmp_result_def)
    show "keeps (shed_same r w0) (\<lambda>w. case copy_stream (\<lambda>_ _. os_fault w OpWrite tmp) s of
         None \<Rightarrow> (Inl (Panic ''out of fuel''), w)
       | Some (Inl f) \<Rightarrow> (Inl f, w)
       | Some (Inr (t, err)) \<Rightarrow>
           let w' = put_file tmp (Some (new_inode (Regular t))) w in
           (case err of
              Some e \<Rightarrow> (Inl (Err e), w')
            | None \<Rightarrow>
                if \<not> verifies t then (Inl (Err (Errorf ''digest verification failed'')), w')
                else (Inr \<lparr>vFile = tmp, vData = [Data t], vSize = word_of_int (int (length t))\<rparr>, w')))"
      unfolding keeps_def
      by (auto simp: Let_def put split: option.split sum.split prod.split)
  qed
qed (simp add: Verify_def keeps_throw)

lemma Verify_tmp:
  assumes "Verify rnd other s d w = (Inr v, w')"
  shows "tmp_result rnd (vFile v)"
proof -
  from assms have "\<exists>w2. temp_file rnd ''/tmp'' ''unverified-layer'' w = (Inr (vFile v), w2)"
    by (auto simp: Verify_def Let_def elim!: bindE_InrE
        split: sum.splits option.splits prod.splits if_splits)
  moreover have p: "path_join [''/tmp'', ''unverified-layer''] = ''/tmp/unverified-layer''" by code_simp
  ultimately obtain fs where "temp_name rnd fs ''/tmp/unverified-layer'' 10000 0 = Some (vFile v)"
    unfolding temp_file_def Let_def p by (auto elim!: bindE_InrE split: if_splits option.splits)
  from temp_name_form [OF this] show ?thesis by (simp only: tmp_result_def)
qed

lemma frame_temp_file: "frame beyond_files (temp_file rnd dir pat)"
proof -
  have "frame beyond_files (\<lambda>w. if \<not> is_dir_at (files w) dir then (Inl (Err (NotExist p)), w)
      else case temp_name rnd (files w) p n i of
        None \<Rightarrow> (Inl (Err e), w)
      | Some q \<Rightarrow> (Inr q, put_file q (Some (new_inode (Regular []))) w))" for p n i e
    by (simp add: frame_def split: option.split)
  then show ?thesis unfolding temp_file_def Let_def by (intro frame_rules)
qed

lemma frame_Verify: "frame beyond_files (Verify rnd other s d)"
proof (cases "NewDigestVerifier other d")
  case (Inr verifies)
  have "frame beyond_files (\<lambda>w. case copy_stream (\<lambda>_ _. os_fault w OpWrite tmp) s of
       None \<Rightarrow> (Inl (Panic ''out of fuel''), w)
     | Some (Inl f) \<Rightarrow> (Inl f, w)
     | Some (Inr (t, err)) \<Rightarrow>
         let w' = put_file tmp (Some (new_inode (Regular t))) w in
         (case err of
            Some e \<Rightarrow> (Inl (Err e), w')
          | None \<Rightarrow>
              if \<not> verifies t then (Inl (Err (Errorf ''digest verification failed'')), w')
              else (Inr \<lparr>vFile = tmp, vData = [Data t], vSize = word_of_int (int (length t))\<rparr>, w')))" for tmp
    by (simp add: frame_def Let_def split: option.split sum.split prod.split)
  then show ?thesis unfolding Verify_def Inr sum.case by (intro frame_bindE frame_temp_file)
qed (simp add: Verify_def frame_throw)

lemma Close_keeps_same:
  assumes r: "clean_abs r" and apart: "tmp_apart r rnd" and v: "tmp_result rnd (vFile v)"
  shows "keeps (shed_same r w0) (deleteCloser_Close v)"
proof -
  from v obtain i where i: "vFile v = ''/tmp/unverified-layer'' @ rnd i" by (auto simp: tmp_result_def)
  note c = clean_abs_clean [OF tmp_names(1) [OF r apart, of i], folded i]
  have "shed_same r w0 (put_file (vFile v) None w)" if "shed_same r w0 w" for w :: "'a os_state_scheme"
    using shed_same_tmp_file [OF r apart that, of i None] by (simp only: i)
  then have "keeps (shed_same r w0) (\<lambda>w. case files w (path_clean (vFile v)) of
       None \<Rightarrow> (Inl (Err (NotExist (vFile v))), w)
     | Some j \<Rightarrow> if kind j = Directory \<and> \<not> empty_dir (files w) (path_clean (vFile v)) then
           (Inl (Err (Errorf (''remove '' @ vFile v @ '': directory not empty''))), w)
         else (Inr (), put_file (path_clean (vFile v)) None w))"
    unfolding c by (auto simp: keeps_def split: option.split)
  then show ?thesis unfolding deleteCloser_Close_def os_remove_def
    by (rule keeps_bindE [OF keeps_same_check])
qed

section \<open>The registry client\<close>

text \<open>
  What the server relies on of a dialer: it works on the network, not on the store or the files,
  and the manifests of its connections list valid IDs.
\<close>

definition registry_ok ::
  "(string \<Rightarrow> string \<Rightarrow> string \<Rightarrow> string \<Rightarrow> ('z graph_state_scheme, 'z graph_state_scheme conn) prog) \<Rightarrow> bool" where
  "registry_ok dial \<longleftrightarrow> (\<forall>h p u pw. frame hview (dial h p u pw) \<and>
     (\<forall>w conn w'. dial h p u pw w = (Inr conn, w') \<longrightarrow>
        (\<forall>tag. frame hview (GetManifest conn tag)) \<and> (\<forall>d. frame hview (GetBlobReader conn d)) \<and>
        (\<forall>tag w m w'. GetManifest conn tag w = (Inr m, w') \<longrightarrow> list_all layer_ids_ok m)))"

text \<open>
  What it relies on of the images that the registries hold: the volumes that their manifests name
  stay inside the container's root.  The code does not check this, and an image that breaks it
  breaks the store (\<open>volume_escapes_root\<close>).
\<close>

definition plain_volumes ::
  "(string \<Rightarrow> string \<Rightarrow> string \<Rightarrow> string \<Rightarrow> ('w, 'w conn) prog) \<Rightarrow> bool" where
  "plain_volumes dial \<longleftrightarrow> (\<forall>h p u pw w conn w' tag w1 m w2. dial h p u pw w = (Inr conn, w') \<longrightarrow>
     GetManifest conn tag w1 = (Inr m, w2) \<longrightarrow> (\<forall>l \<in> set m. list_all volume_name (config_vols l)))"

lemma registry_conn_ok:
  assumes "server_graph r g" and "registry_ok dial" and "plain_volumes dial" and "dial h p u pw w = (Inr conn, w')"
  shows "conn_ok (shed_inv g) (shed_layers g) conn"
proof -
  note q = server_quiet_hview [OF assms(1)]
  have "(\<forall>tag. frame hview (GetManifest conn tag)) \<and> (\<forall>d. frame hview (GetBlobReader conn d)) \<and>
      (\<forall>tag w m w'. GetManifest conn tag w = (Inr m, w') \<longrightarrow> list_all layer_ids_ok m)"
    using assms(2,4) unfolding registry_ok_def by blast
  moreover have "list_all layer_ok m" if "GetManifest conn tag w1 = (Inr m, w2)" "list_all layer_ids_ok m" for tag w1 m w2
    using assms(3,4) that unfolding plain_volumes_def list_all_iff layer_ok_def by blast
  ultimately show ?thesis unfolding conn_ok_def by (metis q)
qed

text \<open>
  The client of \<open>src/distclient\<close> is such a dialer, whenever the HTTP library leaves the store
  alone.  \<open>image_volumes_ok\<close> is about the content of the registries: about the history entries of
  the manifests that they give, not about what the JSON library could decode.
\<close>

definition http_ok :: "('z graph_state_scheme, 'resp) http \<Rightarrow> bool" where
  "http_ok lib \<longleftrightarrow> (\<forall>b u. frame hview (ping lib b u)) \<and> (\<forall>x. frame hview (addResponse lib x)) \<and>
     (\<forall>rp u t. frame hview (newRepository lib rp u t) \<and>
        (\<forall>w c w'. newRepository lib rp u t w = (Inr c, w') \<longrightarrow> frame hview (Manifests c) \<and>
           (\<forall>w f w'. Manifests c w = (Inr f, w') \<longrightarrow> (\<forall>tag. frame hview (f tag))) \<and>
           (\<forall>d. frame hview (BlobsOpen c d))))"

definition image_volumes_ok :: "(string \<Rightarrow> go_error + image) \<Rightarrow> string \<Rightarrow> bool" where
  "image_volumes_ok parse h \<longleftrightarrow> (case parse h of Inl _ \<Rightarrow> True | Inr img \<Rightarrow>
     (case Config img of None \<Rightarrow> True | Some c \<Rightarrow> list_all volume_name (Volumes c)))"

definition plain_registries :: "('w, 'resp) http \<Rightarrow> bool" where
  "plain_registries lib \<longleftrightarrow> (\<forall>rp u t w c w' w1 f w2 tag w3 fsl history w4.
     newRepository lib rp u t w = (Inr c, w') \<longrightarrow> Manifests c w1 = (Inr f, w2) \<longrightarrow>
     f tag w3 = (Inr (fsl, history), w4) \<longrightarrow> list_all (image_volumes_ok (unmarshal_image lib)) history)"

lemma to_layers_up_images:
  "to_layers_up parse makeConfig n fsl history parent r = Inr ls \<Longrightarrow>
    \<forall>l \<in> set r. \<exists>s \<in> set history. parse s = Inr (Image l) \<Longrightarrow>
    \<forall>l \<in> set ls. \<exists>s \<in> set history. parse s = Inr (Image l)"
proof (induction n arbitrary: parent r)
  case (Suc n)
  from Suc.prems(1) obtain l where l: "make_layer parse makeConfig (fsl ! n) (history ! n) parent = Inr l"
    and n: "n < length history"
    and rest: "to_layers_up parse makeConfig n fsl history (StrongID l) (r @ [l]) = Inr ls"
    by (auto split: if_splits sum.splits)
  from l have "parse (history ! n) = Inr (Image l)" by (auto simp: make_layer_def Let_def split: sum.splits)
  then have "\<exists>s \<in> set history. parse s = Inr (Image l)" using n by (metis nth_mem)
  with Suc.IH [OF rest] Suc.prems(2) show ?case by simp
qed simp

lemma chained_parents:
  assumes "chained p ls" and "p = [] \<or> (\<exists>c. p = canonical_digest c)"
    and "\<forall>l \<in> set ls. \<exists>c. StrongID l = canonical_digest c" and "l \<in> set ls"
  shows "ParentStrongID l = [] \<or> (\<exists>c. ParentStrongID l = canonical_digest c)"
  using assms by (induction p ls rule: chained.induct) auto

lemma hex_canonical_valid: "digest_hex (canonical_digest c) = Inr h \<Longrightarrow> ValidateID h"
  using digest_hex_canonical [of c] by auto

lemma toLayers_ids_ok:
  assumes run: "toLayers parse makeConfig fsl history = Inr m"
  shows "list_all layer_ids_ok m"
  unfolding list_all_iff
proof
  fix l assume l: "l \<in> set m"
  have up: "to_layers_up parse makeConfig (length fsl) fsl history [] [] = Inr m"
    using run by (simp add: toLayers_def)
  from to_layers_up_Inr [OF up] have c: "chained [] m" "\<forall>l \<in> set m. \<exists>c. StrongID l = canonical_digest c"
    by (simp_all add: last_id_def)
  have "ParentStrongID l = [] \<or> (\<exists>c. ParentStrongID l = canonical_digest c)"
    by (rule chained_parents [OF c(1) _ c(2) l]) simp
  then have "p = [] \<or> ValidateID p" if "digest_hex (ParentStrongID l) = Inr p" for p
    using that by (metis digest_hex_def hex_canonical_valid sum.inject(2))
  moreover have "ValidateID h" if "digest_hex (StrongID l) = Inr h" for h
    using that c(2) l hex_canonical_valid by metis
  ultimately show "layer_ids_ok l" by (simp add: layer_ids_ok_def)
qed

lemma toLayers_volumes:
  assumes run: "toLayers parse makeConfig fsl history = Inr m"
    and vols: "list_all (image_volumes_ok parse) history" and l: "l \<in> set m"
  shows "list_all volume_name (config_vols l)"
proof -
  have up: "to_layers_up parse makeConfig (length fsl) fsl history [] [] = Inr m"
    using run by (simp add: toLayers_def)
  obtain s where "s \<in> set history" "parse s = Inr (Image l)" using to_layers_up_images [OF up] l by auto
  then have "image_volumes_ok parse s" "parse s = Inr (Image l)" using vols by (simp_all add: list_all_iff)
  then show ?thesis by (simp add: image_volumes_ok_def config_vols_def split: option.splits)
qed

lemma frame_lift_result: "frame v (lift_result r)"
  by (auto simp: lift_result_def split: sum.split)

lemma Dial_conn:
  assumes "Dial lib insecure h p u pw w = (Inr conn, w')"
  obtains rp ur t w1 c where "newRepository lib rp ur t w1 = (Inr c, w')"
    and "conn = conn_of (unmarshal_image lib) (MakeImageConfig lib) c"
  using assms unfolding Dial_def by (auto elim!: bindE_InrE)

lemma GetManifest_lists:
  assumes "GetManifest (conn_of parse makeConfig c) tag w = (Inr m, w')"
  obtains f w1 fsl history w2 where "Manifests c w = (Inr f, w1)" and "f tag w1 = (Inr (fsl, history), w2)"
    and "toLayers parse makeConfig fsl history = Inr m"
proof -
  from assms obtain f w1 where f: "Manifests c w = (Inr f, w1)" and "bindE (f tag) (\<lambda>(FSLayers, History).
      liftO (toLayers parse makeConfig FSLayers History)) w1 = (Inr m, w')"
    unfolding conn_of_def conn_GetManifest_def by (auto elim: bindE_InrE)
  then obtain x w2 where x: "f tag w1 = (Inr x, w2)" and "(case x of (FSLayers, History) \<Rightarrow>
      liftO (toLayers parse makeConfig FSLayers History)) w2 = (Inr m, w')"
    by (auto elim: bindE_InrE)
  then have "toLayers parse makeConfig (fst x) (snd x) = Inr m" by (cases x) simp
  with that f x show ?thesis by (metis prod.collapse)
qed

lemma Dial_plain_volumes:
  assumes "plain_registries lib"
  shows "plain_volumes (Dial lib insecure)"
  unfolding plain_volumes_def
proof (intro allI impI ballI)
  fix h p u pw w conn w' tag w1 m w2 l
  assume dial: "Dial lib insecure h p u pw w = (Inr conn, w')"
    and m: "GetManifest conn tag w1 = (Inr m, w2)" and l: "l \<in> set m"
  from Dial_conn [OF dial] obtain rp ur t w3 c where new: "newRepository lib rp ur t w3 = (Inr c, w')"
    and conn: "conn = conn_of (unmarshal_image lib) (MakeImageConfig lib) c" .
  from GetManifest_lists [OF m [unfolded conn]] obtain f w4 fsl history w5 where
    "Manifests c w1 = (Inr f, w4)" "f tag w4 = (Inr (fsl, history), w5)"
    and layers: "toLayers (unmarshal_image lib) (MakeImageConfig lib) fsl history = Inr m" .
  with assms new have "list_all (image_volumes_ok (unmarshal_image lib)) history"
    unfolding plain_registries_def by blast
  from toLayers_volumes [OF layers this l] show "list_all volume_name (config_vols l)" .
qed

lemma Dial_registry_ok:
  assumes lib: "http_ok lib"
  shows "registry_ok (Dial lib insecure)"
proof -
  have net: "frame hview (ping lib b u)" "frame hview (addResponse lib x)"
    "frame hview (newRepository lib rp v t)" for b u x rp v t
    using lib by (auto simp: http_ok_def)
  have "frame hview (newTransport lib insecure h p u pw)" for h p u pw
    unfolding newTransport_def Let_def by (intro frame_rules frame_lift_result net)
  then have "frame hview (Dial lib insecure h p u pw)" for h p u pw
    unfolding Dial_def by (intro frame_rules net) (auto intro!: frame_rules net split: prod.split)
  moreover have "(\<forall>tag. frame hview (GetManifest conn tag)) \<and> (\<forall>d. frame hview (GetBlobReader conn d)) \<and>
      (\<forall>tag w m w'. GetManifest conn tag w = (Inr m, w') \<longrightarrow> list_all layer_ids_ok m)"
    if dial: "Dial lib insecure h p u pw w = (Inr conn, w')" for h p u pw w conn w'
  proof -
    from Dial_conn [OF dial] obtain rp ur t w1 c where new: "newRepository lib rp ur t w1 = (Inr c, w')"
      and conn: "conn = conn_of (unmarshal_image lib) (MakeImageConfig lib) c" .
    have c: "frame hview (Manifests c)"
      "\<And>w f w' tag. Manifests c w = (Inr f, w') \<Longrightarrow> frame hview (f tag)"
      "\<And>d. frame hview (BlobsOpen c d)"
      using lib new unfolding http_ok_def by blast+
    have "frame hview (GetManifest conn tag)" for tag
      unfolding frame_def
    proof
      fix w :: "'a graph_state_scheme"
      obtain r1 w1 where one: "Manifests c w = (r1, w1)" by (cases "Manifests c w")
      have "hview w1 = hview w" by (rule frameD [OF c(1) one])
      moreover have "hview (snd (f tag w1)) = hview w1" if "r1 = Inr f" for f
        using c(2) [OF one [unfolded that]] by (simp add: frame_def)
      ultimately show "hview (snd (GetManifest conn tag w)) = hview w"
        by (auto simp: conn conn_of_def conn_GetManifest_def bindE_def one split: sum.split prod.split)
    qed
    moreover have "list_all layer_ids_ok m" if "GetManifest conn tag w = (Inr m, w')" for tag w m w'
      using GetManifest_lists [OF that [unfolded conn]] toLayers_ids_ok by metis
    moreover have "frame hview (GetBlobReader conn d)" for d
      using c(3) by (simp add: conn conn_of_def conn_GetBlobReader_def)
    ultimately show ?thesis by blast
  qed
  ultimately show ?thesis unfolding registry_ok_def by blast
qed

section \<open>The server's store, with its fetchers\<close>

lemma ProvideID_reads: "reads_only (ProvideID p)"
proof -
  have "reads_only (resolve p)" for p unfolding resolve_def
    by (intro reads_only_bindE reads_only_handleE reads_only_os reads_only_basic)
      (auto intro: reads_only_handleE reads_only_os split: file_kind.split)
  then show ?thesis unfolding ProvideID_def
    by (intro reads_only_handleE reads_only_os reads_only_basic)
qed

lemma ProvideID_valid: "ProvideID p w = (Inr i, w') \<Longrightarrow> ValidateID (GraphID i)"
  unfolding ProvideID_def by (auto elim!: handleE_InrE simp: GraphID_local_valid simp del: GraphID.simps)

lemma server_fetching_store:
  assumes server: "server_graph r g" and cp: "copies_below runner" and dial: "registry_ok dial" "plain_volumes dial"
    and tar: "\<And>p. frame hview (tar p)" and apart: "tmp_apart r rnd"
  defines "cake \<equiv> aufs_cake (docker_cake g) runner r"
  shows "fetching_store cake (shed_layers g) (shed_inv g) (layer_dir r)
    (wired_remote cake registry dial (Verify rnd other)) (wired_local cake rootFS tar)"
proof -
  have r: "clean_abs r" using server by (simp add: server_graph_def)
  note hview = server_quiet_hview [OF server]
  have ver: "quiet (shed_inv g) (shed_layers g) (Verify rnd other s d)" for s d
    by (rule server_quiet [OF server frame_gview_files [OF frame_Verify] Verify_keeps_same [OF r apart]])
  have dialing: "frame hview (dial h p u pw)" for h p u pw
    using dial(1) by (simp add: registry_ok_def)
  have close: "quiet (shed_inv g) (shed_layers g) (deleteCloser_Close v)" if "tmp_result rnd (vFile v)" for v
    unfolding deleteCloser_Close_def
    by (rule server_quiet [OF server frame_gview_files [OF frame_os_remove]
          Close_keeps_same [OF r apart that, unfolded deleteCloser_Close_def]])
  show ?thesis
  proof (intro fetching_store.intro fetching_store_axioms.intro, unfold cake_def)
    show "creating_store (aufs_cake (docker_cake g) runner r) (shed_layers g) (shed_inv g) (layer_dir r)"
      by (rule server_creating_store [OF server cp])
  qed (auto simp: wired_remote_def wired_local_def ver close intro: reads_only_quiet ProvideID_reads
      ProvideID_valid hview tar dialing registry_conn_ok [OF server dial] dest: Verify_tmp)
qed

text \<open>
  Concrete libraries: the network and the archiver are functions of the kernel, and the names of
  temporary files are counted.  The images of a network are plain when the volumes of its manifests
  stay inside.
\<close>

record 'k network =
  net_ping :: "bool \<Rightarrow> string \<Rightarrow> 'k \<Rightarrow> (go_error + unit) \<times> 'k"
  net_manifest :: "string \<Rightarrow> string \<Rightarrow> string \<Rightarrow> 'k \<Rightarrow> (go_error + digest list \<times> string list) \<times> 'k"
  net_blob :: "string \<Rightarrow> string \<Rightarrow> digest \<Rightarrow> 'k \<Rightarrow> (go_error + reader) \<times> 'k"

definition kernel_http ::
  "'k network \<Rightarrow> (string \<Rightarrow> go_error + image) \<Rightarrow> (string \<Rightarrow> digest \<Rightarrow> digest \<Rightarrow> go_error + string) \<Rightarrow>
    (('k, 'z) host_state_scheme, unit) http" where
  "kernel_http net parse makeConfig = \<lparr>
     newRequest = Inr,
     ping = \<lambda>insecure url. on_kernel (net_ping net insecure url),
     addResponse = \<lambda>_. ret (),
     newRepository = \<lambda>repo url transport. ret
       \<lparr>Manifests = ret (\<lambda>tag. on_kernel (net_manifest net url repo tag)),
        BlobsOpen = \<lambda>d. on_kernel (net_blob net url repo d)\<rparr>,
     unmarshal_image = parse,
     MakeImageConfig = makeConfig\<rparr>"

lemma kernel_http_ok: "http_ok (kernel_http net parse makeConfig)"
  by (auto simp: http_ok_def kernel_http_def frame_hview_kernel)

lemma kernel_http_plain:
  assumes "\<And>url repo tag k fsl history k'. net_manifest net url repo tag k = (Inr (fsl, history), k') \<Longrightarrow>
    list_all (image_volumes_ok parse) history"
  shows "plain_registries (kernel_http net parse makeConfig)"
  using assms by (fastforce simp: plain_registries_def kernel_http_def on_kernel_def lift_error_def
      split: prod.splits sum.splits)

text \<open>A network whose images are looked at before they are given out.\<close>

definition screened :: "(string \<Rightarrow> go_error + image) \<Rightarrow> 'k network \<Rightarrow> 'k network" where
  "screened parse net = net\<lparr>net_manifest := \<lambda>url repo tag k. (case net_manifest net url repo tag k of
     (Inr (fsl, history), k') \<Rightarrow>
        (if list_all (image_volumes_ok parse) history then Inr (fsl, history) else Inl EOF, k')
   | (Inl e, k') \<Rightarrow> (Inl e, k'))\<rparr>"

lemma screened_plain: "plain_registries (kernel_http (screened parse net) parse makeConfig)"
  by (rule kernel_http_plain) (auto simp: screened_def split: prod.splits sum.splits if_splits)

lemma random_show_nat: "random_digits show_nat"
  using show_nat_digits by (auto simp: random_digits_def list_all_iff)

lemma garden_tmp_apart: "tmp_apart garden_root show_nat"
  by (simp add: tmp_apart_def random_show_nat)

definition kernel_tar :: "(string \<Rightarrow> 'k \<Rightarrow> (go_error + reader) \<times> 'k) \<Rightarrow> string \<Rightarrow>
    (('k, 'z) host_state_scheme, reader) prog" where
  "kernel_tar tar p = on_kernel (tar p)"

lemma kernel_tar_frame: "frame hview (kernel_tar tar p)"
  by (simp add: kernel_tar_def frame_hview_kernel)

definition garden_graph ::
  "'k env \<Rightarrow> ('k \<Rightarrow> 'k) \<Rightarrow> (reader \<Rightarrow> go_error + reader) \<Rightarrow> ('k, 'z) host_state_scheme graph" where
  "garden_graph env tick decompress = wired_graph env (shed_retrier tick) decompress garden_root"

definition garden_cake ::
  "'k env \<Rightarrow> ('k \<Rightarrow> 'k) \<Rightarrow> (reader \<Rightarrow> go_error + reader) \<Rightarrow> ('k, 'z) host_state_scheme cake" where
  "garden_cake env tick decompress =
     aufs_cake (docker_cake (garden_graph env tick decompress)) (kernel_runner env) garden_root"

lemma garden_server: "server_graph garden_root (garden_graph env tick decompress)"
  unfolding server_graph_def garden_graph_def using clean_garden_root shed_retrier_ok by blast

interpretation garden_fetching: fetching_store "garden_cake env tick decompress"
  "shed_layers (garden_graph env tick decompress)" "shed_inv (garden_graph env tick decompress)"
  "layer_dir garden_root"
  "wired_remote (garden_cake env tick decompress) registry (Dial (kernel_http (screened parse net) parse makeConfig) insecure)
     (Verify show_nat other)"
  "wired_local (garden_cake env tick decompress) rootFS (kernel_tar tar)"
  for env tick decompress registry net parse makeConfig insecure other rootFS tar
  unfolding garden_cake_def
  by (rule server_fetching_store [OF garden_server kernel_runner_copies
        Dial_registry_ok [OF kernel_http_ok] Dial_plain_volumes [OF screened_plain]
        kernel_tar_frame garden_tmp_apart])

end
