(* ===== verification/Server.thy ===== *)
theory Server
  imports Collection Fetch_Effects
begin

text \<open>
  The server's calls as state transitions: \<open>Create\<close>, \<open>Destroy\<close>, \<open>Metrics\<close> and \<open>GC\<close> of the
  \<open>CakeOrdinator\<close> (\<open>src/rootfs_provider/cakeordinator.go\<close>) that \<open>Wire\<close> builds, on the store of
  the server.  The relation \<open>calls\<close> is any sequence of calls; its invariant is the invariant of
  the store.
\<close>

section \<open>The server\<close>

text \<open>
  An ordinator that \<open>Wire\<close> can build, with the libraries as they behave: the runner copies into the
  destination, the system lists the names in a directory, the registry client and the archiver leave
  the store alone, and the temporary files of downloads are not in the store.  About the images that
  it is asked for it assumes one thing, which the code does not check: their volumes stay inside the
  container's root (\<open>plain_volumes\<close>).
\<close>

inductive serves ::
  "string \<Rightarrow> ('k, 'z) host_state_scheme graph \<Rightarrow> retainer \<Rightarrow>
    ('k, 'z) host_state_scheme cake_ordinator \<Rightarrow> bool" for r g h where
  wired: "server_graph r g \<Longrightarrow> cake = aufs_cake (docker_cake g) runner r \<Longrightarrow>
    copies_below runner \<Longrightarrow> n = UidNamespacer ls depth u \<Longrightarrow> listing ls \<Longrightarrow>
    registry_ok dial \<Longrightarrow> plain_volumes dial \<Longrightarrow> \<forall>p. frame hview (tar p) \<Longrightarrow> tmp_apart r rnd \<Longrightarrow> RootPath (cfg :: ('k, 'z) host_state_scheme quotaed_cfg) = r \<Longrightarrow>
    serves r g h (wired_ordinator cake (wired_fetcher cake rootFS registry tar dial (Verify rnd other)) n
      (wired_usage env cake) (GetMntPath cfg) h megabytes)"

section \<open>Create\<close>

lemma Create_server:
  assumes serves: "serves r g h c" and inv: "shed_inv g w" and i: "i \<noteq> []"
    and run: "Cakeordinator_Create c i spec w = (x, w')"
  shows "shed_inv g w' \<and> grows UNIV (shed_layers g w) (shed_layers g w') \<and>
    (\<forall>b. x = Inr b \<longrightarrow> layer_dir r (specRoot b) \<and> shaID i \<in> dom (shed_layers g w'))"
  using serves run
proof cases
  case (wired cake runner n ls depth u dial tar rnd cfg rootFS registry other env megabytes)
  note c = wired(1) and server = wired(2)
  have n: "works_below n" unfolding wired(5) by (rule UidNamespacer_works_below [OF wired(6)])
  let ?cake = "aufs_cake (docker_cake g) runner r" and ?L = "shed_layers g w"
  let ?I = "grown (shed_inv g) (shed_layers g) ?L"
  note store = server_fetching_store [OF server wired(4,7,8) wired(9) [rule_format] wired(10)]
  have fetch: "yields ?I image_ready (Fetch (ordFetcher c) u un pw q)" for u un pw q
    using fetching_store.server_fetch_yields [OF store]
    by (simp add: c wired(3) wired_ordinator_def wired_fetcher_def)
  have step: "grown (shed_inv g) (shed_layers g) (shed_layers g w) w2 \<and>
      (\<forall>p e. y = Inr (p, e) \<longrightarrow> layer_dir r p \<and> shaID i \<in> dom (shed_layers g w2))"
    if ready: "image_ready img" and w1: "?I w1" and lay: "ordLayers c i img spec w1 = (y, w2)" for img w1 y w2
  proof -
    have img: "ValidateID (ImageID img)" "list_all volume_name (ImgVolumes img)" and inv1: "shed_inv g w1"
      using ready w1 by (simp_all add: image_ready_def grown_def)
    have made: "LayerCreator_Create (wired_creator ?cake n) i img spec w1 = (y, w2)"
      using lay by (simp add: c wired(3) wired_ordinator_def)
    have "shaID i \<in> dom (with_container key' i spec img L)" for key' L
      using dom_add_layer [of "new_layer (ContainerID i) (base_layer key' spec img) i"]
      by (simp add: with_container_def)
    with LayerCreator_shed [OF server wired(4) n inv1 img(1) i img(2) made] w1 grows_trans
    show ?thesis by (fastforce simp: grown_def)
  qed
  obtain r1 w1 where one: "Fetch (ordFetcher c) (RootFS spec) (Username spec) (Password spec)
      (fetcherDiskQuota spec) w = (r1, w1)"
    by (cases "Fetch (ordFetcher c) (RootFS spec) (Username spec) (Password spec) (fetcherDiskQuota spec) w")
  have "?I w" using inv by (simp add: grown_def)
  note fetched = yieldsD [OF fetch this one]
  show ?thesis
  proof (cases r1)
    case (Inl f)
    with run one fetched(1) show ?thesis by (auto simp: Cakeordinator_Create_def bindE_def grown_def)
  next
    case (Inr img)
    obtain r2 w2 where two: "ordLayers c i img spec w1 = (r2, w2)" by (cases "ordLayers c i img spec w1")
    from step [OF fetched(2) [OF Inr] fetched(1) two] run one two Inr show ?thesis
      by (auto simp: Cakeordinator_Create_def bindE_def grown_def split: sum.splits)
  qed
qed

section \<open>Metrics\<close>

lemma shed_parent_valid:
  assumes server: "server_graph r g" and inv: "shed_inv g w" and img: "shed_layers g w s = Some img"
  shows "Parent img = [] \<or> ValidateID (Parent img)"
proof -
  have gi: "graph_inv g w" and meta: "meta_inv r (graph_layers g w) w"
    using inv by (simp_all add: shed_inv_def host_inv_def root_server [OF server])
  obtain im where im: "graph_layers g w s = Some im" "img = aufs_image r w im"
    using img by (auto simp: shed_layers_def aufs_layers_def root_server [OF server])
  have ok: "ValidateID s" "image_ok s im" using graph_layers_ok [OF gi im(1)] by simp_all
  then have "child_ok r (graph_layers g w) w (ID im)" using meta by (simp add: meta_inv_def image_ok_def)
  then have "recorded_parent r w (ID im) = [] \<or> ValidateID (recorded_parent r w (ID im))"
    by (cases rule: child_cases) auto
  with ok(2) im(2) show ?thesis by (auto simp: aufs_image_def image_ok_def)
qed

lemma base_loop_reads:
  assumes server: "server_graph r g"
    and run: "base_loop (aufs_cake (docker_cake g) runner r) s sz w = Some y"
    and inv: "shed_inv g w" and s: "s = [] \<or> ValidateID s"
  shows "snd y = w"
proof -
  let ?cake = "aufs_cake (docker_cake g) runner r"
  note store = shed_contract [OF server, of runner]
  have "?cake = ?cake \<longrightarrow> s = [] \<or> ValidateID s \<longrightarrow> shed_inv g w \<longrightarrow> snd y = w"
  proof (rule base_loop.raw_induct [where P = "\<lambda>cake s sz w y. cake = ?cake \<longrightarrow>
      s = [] \<or> ValidateID s \<longrightarrow> shed_inv g w \<longrightarrow> snd y = w", OF _ run], intro impI)
    fix loop cake s sz w y
    assume IH: "\<And>cake s sz w y. loop cake s sz w = Some y \<Longrightarrow>
        cake = ?cake \<longrightarrow> s = [] \<or> ValidateID s \<longrightarrow> shed_inv g w \<longrightarrow> snd y = w"
      and body: "(if s = [] then Some (Inr sz, w)
         else case Get cake (DockerImageID s) w of
           (Inl (Err e), w') \<Rightarrow> Some (Inl (Err (Errorf (''base-size '' @ s @ '': '' @ err_msg e))), w')
         | (Inl (Panic p), w') \<Rightarrow> Some (Inl (Panic p), w')
         | (Inr img, w') \<Rightarrow> loop cake (Parent img) (sz + Size img) w') = Some y"
      and cake: "cake = ?cake" and s: "s = [] \<or> ValidateID s" and inv: "shed_inv g w"
    show "snd y = w"
    proof (cases "s = []")
      case False
      with s have v: "ValidateID (GraphID (DockerImageID s))" by simp
      show ?thesis
      proof (cases "shed_layers g w s")
        case None
        with layer_store.Get_absent [OF store inv v] body False cake show ?thesis by auto
      next
        case (Some img)
        with layer_store.Get_present [OF store inv, of "DockerImageID s"] body False cake
        have "loop ?cake (Parent img) (sz + Size img) w = Some y" by simp
        with IH shed_parent_valid [OF server inv Some] inv show ?thesis by blast
      qed
    qed (use body in auto)
  qed
  with s inv show ?thesis by simp
qed

lemma DiffSize_frame: "frame hview (DiffSize env p)"
  unfolding DiffSize_def Let_def
  by (intro frame_rules frame_hview_kernel reads_only_frame [OF reads_only_os(2)])

lemma Metrics_server:
  assumes serves: "serves r g h c" and inv: "shed_inv g w" and i: "i \<noteq> []"
    and run: "Cakeordinator_Metrics c i w = Some (x, w')"
  shows "shed_inv g w' \<and> shed_layers g w' = shed_layers g w"
  using serves run
proof cases
  case (wired cake runner n ls depth u dial tar rnd cfg rootFS registry other env megabytes)
  let ?p = "GetMntPath cfg (ContainerID i)"
  note server = wired(2)
  have v: "ValidateID (GraphID (ContainerID i))" using i by (simp add: ValidateID_shaID_iff)
  have base: "snd y = w" if "BaseSize cake ?p w = Some y" for y
    using base_loop_reads [OF server that [unfolded BaseSize_def wired(3)] inv] v
      path_base_wired [OF server wired(11) v] by simp
  have use: "GetUsage (BaseSize cake) (DiffSize env) ?p w = Some (x, w')"
    using run unfolding Cakeordinator_Metrics_def wired(1)
    by (simp add: wired_ordinator_def Metrics_def wired_usage_def)
  then obtain r1 w1 where y: "BaseSize cake ?p w = Some (r1, w1)"
    by (auto simp: GetUsage_def split: option.splits)
  with base have w1: "w1 = w" by fastforce
  show ?thesis
  proof (cases r1)
    case (Inl f)
    with use y w1 inv show ?thesis by (simp add: GetUsage_def)
  next
    case (Inr b)
    let ?m = "bindE (DiffSize env ?p) (\<lambda>diff. ret \<lparr>TotalBytesUsed = diff + b, ExclusiveBytesUsed = diff\<rparr>)"
    have "frame hview ?m" by (intro frame_rules DiffSize_frame)
    from server_quiet_hview [OF server this] have "quiet (shed_inv g) (shed_layers g) ?m" .
    moreover have "?m w = (x, w')" using use y w1 Inr by (simp add: GetUsage_def)
    ultimately show ?thesis using inv by (simp add: quiet_def)
  qed
qed

section \<open>Destroy and garbage collection\<close>

lemma Destroy_server:
  assumes serves: "serves r g h c" and inv: "shed_inv g w" and i: "i \<noteq> []"
    and run: "Destroy c i w = (x, w')"
  shows "shed_inv g w' \<and> (case x of
       Inr _ \<Rightarrow> shed_layers g w' = (shed_layers g w)(shaID i := None)
     | Inl (Err _) \<Rightarrow> shed_layers g w' = shed_layers g w
     | Inl (Panic _) \<Rightarrow> False)"
  using serves
proof cases
  case (wired cake runner n ls depth u dial tar rnd cfg rootFS registry other env megabytes)
  have "ordCake c = wired_cake g runner r"
    by (simp add: wired(1,3) wired_ordinator_def wired_cake_shed [OF wired(2)])
  from Destroy_shed [OF wired(2) inv this i run] show ?thesis .
qed

lemma GC_server:
  assumes serves: "serves r g h c" and inv: "shed_inv g w"
  shows "\<exists>x w'. Cakeordinator_GC c w = Some (x, w') \<and> shed_inv g w' \<and>
    collects (held h) (shed_layers g w) (shed_layers g w') \<and> (\<forall>s. x \<noteq> Inl (Panic s))"
  using serves
proof cases
  case (wired cake runner n ls depth u dial tar rnd cfg rootFS registry other env megabytes)
  have "Cakeordinator_GC c w = GC (Check h) (wired_threshold megabytes) (wired_cake g runner r) w"
    unfolding wired(1,3) Cakeordinator_GC_wired wired_cake_shed [OF wired(2)] ..
  with GC_shed [OF wired(2) inv, of h "wired_threshold megabytes" runner] show ?thesis by auto
qed

section \<open>Sequences of calls\<close>

text \<open>
  One call of the server, by its handle, and a sequence of calls, whatever they return.  Handles are
  not empty: the server makes one up for a container that has none.
\<close>

datatype event =
    CreateCall string rootfs_spec
  | DestroyCall string
  | MetricsCall string
  | GCCall

inductive call :: "('k, 'z) host_state_scheme cake_ordinator \<Rightarrow> event \<Rightarrow>
    ('k, 'z) host_state_scheme \<Rightarrow> ('k, 'z) host_state_scheme \<Rightarrow> bool" for c where
  create: "i \<noteq> [] \<Longrightarrow> Cakeordinator_Create c i spec w = (x, w') \<Longrightarrow> call c (CreateCall i spec) w w'"
| destroy: "i \<noteq> [] \<Longrightarrow> Destroy c i w = (y, w') \<Longrightarrow> call c (DestroyCall i) w w'"
| metrics: "i \<noteq> [] \<Longrightarrow> Cakeordinator_Metrics c i w = Some (z, w') \<Longrightarrow> call c (MetricsCall i) w w'"
| collect: "Cakeordinator_GC c w = Some (y, w') \<Longrightarrow> call c GCCall w w'"

inductive_cases callE: "call c ev w w'"

inductive calls :: "('k, 'z) host_state_scheme cake_ordinator \<Rightarrow> event list \<Rightarrow>
    ('k, 'z) host_state_scheme \<Rightarrow> ('k, 'z) host_state_scheme \<Rightarrow> bool" for c where
  none: "calls c [] w w"
| more: "calls c evs w w1 \<Longrightarrow> call c ev w1 w2 \<Longrightarrow> calls c (evs @ [ev]) w w2"

text \<open>What each call does to the layers.\<close>

lemma call_effect:
  assumes "serves r g h c" and "call c ev w w'" and "shed_inv g w"
  shows "shed_inv g w' \<and> (case ev of
      CreateCall i spec \<Rightarrow> grows UNIV (shed_layers g w) (shed_layers g w')
    | DestroyCall i \<Rightarrow> shed_layers g w' \<in> {shed_layers g w, (shed_layers g w)(shaID i := None)}
    | MetricsCall i \<Rightarrow> shed_layers g w' = shed_layers g w
    | GCCall \<Rightarrow> collects (held h) (shed_layers g w) (shed_layers g w'))"
  using assms(2)
proof cases
  case (create i spec x)
  from Create_server [OF assms(1,3) create(2,3)] create(1) show ?thesis by simp
next
  case (destroy i y)
  from Destroy_server [OF assms(1,3) destroy(2,3)] destroy(1) show ?thesis
    by (simp split: sum.splits failure.splits)
next
  case (metrics i z)
  from Metrics_server [OF assms(1,3) metrics(2,3)] metrics(1) show ?thesis by simp
next
  case (collect y)
  from GC_server [OF assms(1,3)] collect(2)
  have "shed_inv g w' \<and> collects (held h) (shed_layers g w) (shed_layers g w')" by auto
  with collect(1) show ?thesis by simp
qed

lemma calls_inv: "calls c evs w w' \<Longrightarrow> serves r g h c \<Longrightarrow> shed_inv g w \<Longrightarrow> shed_inv g w'"
proof (induction rule: calls.induct)
  case (more evs w w1 ev w2)
  from call_effect [OF more.prems(1) more.hyps(2) more.IH [OF more.prems]] show ?case by blast
qed

text \<open>
  The layers a container is made of, as long as the container is not destroyed: creating adds
  layers, and collecting leaves containers with all that is below them.
\<close>

lemma ancestor_dom: "ancestor L i j \<Longrightarrow> i \<in> dom L \<Longrightarrow> j \<in> dom L"
  by (induction rule: ancestor.induct) auto

lemma ancestor_transfer:
  assumes "ancestor L i j" and "\<And>k. ancestor L i k \<Longrightarrow> L' k = L k" and "i \<in> dom L"
  shows "ancestor L' i j"
  using assms(1)
proof induction
  case (up j img)
  have "ancestor L i (Parent img)" by (rule ancestor.up [OF up.hyps])
  with assms(2) up(2) have "Parent img \<in> dom L'" using up.hyps(3) by fastforce
  with assms(2) [OF up.hyps(1)] up show ?case by (auto intro: ancestor.up)
qed (rule ancestor.self)

lemma calls_keep_container:
  assumes "calls c evs w w'" and serves: "serves r g h c" and inv: "shed_inv g w"
    and i: "shed_layers g w i = Some img" and container: "Container img \<noteq> []"
    and spared: "\<forall>j. DestroyCall j \<in> set evs \<longrightarrow> \<not> ancestor (shed_layers g w) i (shaID j)"
  shows "ancestor (shed_layers g w) i k \<Longrightarrow> shed_layers g w' k = shed_layers g w k"
  using assms(1) spared inv i
proof (induction arbitrary: k rule: calls.induct)
  case (more evs w w1 ev w2)
  let ?L = "shed_layers g w" and ?L1 = "shed_layers g w1"
  note i = more.prems(4) and anc0 = more.prems(1)
  have dom: "i \<in> dom ?L" using i by blast
  have before: "\<forall>j. DestroyCall j \<in> set evs \<longrightarrow> \<not> ancestor ?L i (shaID j)"
    using more.prems(2) by simp
  have same: "?L1 k = ?L k" if "ancestor ?L i k" for k
    by (rule more.IH [OF that before more.prems(3) i])
  have in1: "?L1 i = Some img" unfolding same [OF ancestor.self] by (rule i)
  have inv1: "shed_inv g w1" by (rule calls_inv [OF more.hyps(1) serves more.prems(3)])
  have "ancestor ?L1 i k" by (rule ancestor_transfer [OF anc0 same dom])
  moreover have "k \<in> dom ?L1" using ancestor_dom [OF anc0 dom] same [OF anc0] by (simp add: domIff)
  ultimately have "shed_layers g w2 k = ?L1 k"
  proof -
    assume anc: "ancestor ?L1 i k" and k: "k \<in> dom ?L1"
    note eff = call_effect [OF serves more.hyps(2) inv1]
    show ?thesis
    proof (cases ev)
      case (CreateCall j spec)
      with eff k show ?thesis by (auto simp: grows_def)
    next
      case (DestroyCall j)
      with more.prems(2) have "\<not> ancestor ?L i (shaID j)" by simp
      with anc0 have "k \<noteq> shaID j" by blast
      with eff DestroyCall show ?thesis by auto
    next
      case (MetricsCall j)
      with eff show ?thesis by simp
    next
      case GCCall
      then have "collects (held h) ?L1 (shed_layers g w2)" using eff by simp
      moreover have "pinned (held h) ?L1 i" using in1 container by (simp add: pinned_def)
      ultimately show ?thesis using collects_keeps_ancestors in1 anc by blast
    qed
  qed
  with same [OF anc0] show ?case by simp
qed simp

section \<open>An example server\<close>

text \<open>
  A registry whose one image has a layer with the volumes of the example in
  \<open>src/vendor/github.com/docker/docker/image/spec/v1.md\<close>, and a server whose archiver gives empty
  archives.
\<close>

definition registry_image :: image where
  "registry_image = empty_image\<lparr>Config := Some \<lparr>Env = [''A=1''],
     Volumes = [''/var/my-app-data/'', ''/etc/some-config.d/'']\<rparr>\<rparr>"

definition online :: "mounts network" where
  "online = \<lparr>net_ping = \<lambda>_ _ k. (Inr (), k),
     net_manifest = \<lambda>_ _ _ k. (Inr ([canonical_digest []], [''{}'']), k),
     net_blob = \<lambda>_ _ _ k. (Inr [Data []], k)\<rparr>"

definition sample_dial ::
  "string \<Rightarrow> string \<Rightarrow> string \<Rightarrow> string \<Rightarrow> (mounts host_state, mounts host_state conn) prog" where
  "sample_dial = Dial (kernel_http online (\<lambda>_. Inr registry_image) (\<lambda>s _ _. Inr s)) []"

lemma registry_volumes: "image_volumes_ok (\<lambda>_. Inr registry_image) h"
proof -
  have "volume_comps ''/var/my-app-data/'' = [''var'', ''my-app-data'']"
    "volume_comps ''/etc/some-config.d/'' = [''etc'', ''some-config.d'']"
    by code_simp+
  then show ?thesis by (simp add: image_volumes_ok_def registry_image_def volume_name_def)
qed

lemma sample_dial_ok: "registry_ok sample_dial" "plain_volumes sample_dial"
  unfolding sample_dial_def
  by (rule Dial_registry_ok [OF kernel_http_ok])
    (rule Dial_plain_volumes [OF kernel_http_plain], simp add: list_all_iff registry_volumes)

definition sample_service :: "mounts host_state cake_ordinator" where
  "sample_service = wired_ordinator sample_cake
     (wired_fetcher sample_cake [] ''hub'' (kernel_tar (\<lambda>_ k. (Inr [], k))) sample_dial (Verify show_nat (\<lambda>_. Inl EOF)))
     (UidNamespacer sample_ls 2 sample_translator) (wired_usage sample_env sample_cake) (GetMntPath sample_cfg) NewRetainer 0"

definition sample_spec :: rootfs_spec where
  "sample_spec = \<lparr>RootFS = empty_url\<lparr>UrlPath := ''/rootfs''\<rparr>, Username = [], Password = [], Namespaced = True,
     QuotaSize = 0, QuotaScope = DiskLimitScopeTotal\<rparr>"

text \<open>An image of the registry, and the directory without a user namespace.\<close>

definition docker_spec :: rootfs_spec where
  "docker_spec = sample_spec\<lparr>RootFS := empty_url\<lparr>Scheme := ''docker'', UrlPath := ''/busybox''\<rparr>\<rparr>"

definition plain_spec :: rootfs_spec where
  "plain_spec = sample_spec\<lparr>Namespaced := False\<rparr>"

definition sample_fetched :: fetched where
  "sample_fetched = \<lparr>ImageID = base_id, ImgEnv = [''A=1''], ImgVolumes = [''/data''], ImgSize = 70\<rparr>"

lemma volume_name_data: "volume_name ''/data''"
  unfolding volume_name_def by code_simp

lemma sample_fetched [simp]: "ValidateID (ImageID sample_fetched)" "list_all volume_name (ImgVolumes sample_fetched)"
  by (simp_all add: sample_fetched_def volume_name_data)

abbreviation no_layers :: "mounts host_state" where
  "no_layers \<equiv> store_of []"

lemma no_layers: "shed_inv g no_layers" "shed_layers g no_layers = Map.empty"
  using shed_store_of [of "[]"] by auto

lemma changes_below_ret: "changes_below d (ret x)"
  by (rule hview_changes_below) (rule frame_ret)

lemma sample_copies: "copies_below (\<lambda>_. ret ())"
  by (simp add: copies_below_def changes_below_ret calm_ret)

lemma sample_works: "works_below sample_namespacer"
  by (simp add: works_below_def sample_namespacer_def changes_below_ret)

lemma sample_serves: "serves garden_root sample_graph NewRetainer sample_service"
  unfolding sample_service_def wired_cake_shed [OF sample_server]
  by (rule serves.wired [OF sample_server refl sample_copies refl listing_sample])
    (simp_all add: sample_dial_ok kernel_tar_frame garden_tmp_apart sample_cfg_def wired_cfg_def)

end
