(* ===== verification/Layers_Files.thy ===== *)
theory Layers_Files
  imports Layer_Creation
begin

text \<open>
  The files of a layer in docker's aufs driver
  (\<open>src/vendor/github.com/docker/docker/daemon/graphdriver/aufs\<close>) on a host without faults: \<open>Create\<close>
  succeeds and writes the chain of ancestors, \<open>Get\<close> reads it and mounts.  On top of that, creating
  the layers of a container (\<open>src/rootfs_provider/layer_creator.go\<close>) succeeds on a healthy host.
\<close>

section \<open>Paths of a layer\<close>

lemma in_tree_abs_path:
  assumes "list_all plain_name cs" and "cs \<noteq> []" and "list_all plain_name ds" and "in_tree (abs_path cs) (abs_path ds)"
  shows "prefix cs ds"
  using assms abs_path_inject [OF assms(1,3)] below_abs_path [OF assms(1-3)] by (auto simp: in_tree_def)

lemma abs_path_last: "cs \<noteq> [] \<Longrightarrow> abs_path (cs @ [n @ t]) = abs_path (cs @ [n]) @ t"
  by (simp add: abs_path_def join_with_append)

lemma in_tree_apart: "in_tree m q \<Longrightarrow> \<not> in_tree (m @ ''-removing'') q"
  by (auto simp: in_tree_def below_def prefix_def append_eq_append_conv2 Cons_eq_append_conv)

lemma in_tree_linear: "in_tree x q \<Longrightarrow> in_tree y q \<Longrightarrow> in_tree x y \<or> in_tree y x"
  by (auto simp: in_tree_def below_def prefix_def append_eq_append_conv2 Cons_eq_append_conv append_eq_Cons_conv)

lemma layer_path:
  assumes a: "info_dir a" and d: "plain_name d" and i: "plain_name i"
  shows "clean_abs (path_join [a, d, i])" and "path_dir (path_join [a, d, i]) = path_join [a, d]"
    and "path_join [a, d, i @ ''-removing''] = path_join [a, d, i] @ ''-removing''"
    and "path_join [a, d, i] \<noteq> ''/''"
proof -
  from a obtain cs where cs: "a = abs_path cs" "cs \<noteq> []" "list_all plain_name cs" by (auto simp: info_dir_def)
  have eq: "path_join [a, d, n] = path_join [path_join [a, d], n]" if "plain_name n" for n
    using cs d that by (simp add: path_join_plain path_join_plain2)
  have ad: "clean_abs (path_join [a, d])" using cs d by (simp add: path_join_plain clean_abs_abs_path)
  show "clean_abs (path_join [a, d, i])" unfolding eq [OF i] by (rule clean_abs_join [OF ad i])
  show "path_dir (path_join [a, d, i]) = path_join [a, d]" unfolding eq [OF i] by (rule path_dir_join [OF ad i])
  have "path_join [a, d, i @ ''-removing''] = abs_path ((cs @ [d]) @ [i @ ''-removing''])"
    using cs d plain_removing [OF i] by (simp add: path_join_plain2)
  also have "\<dots> = abs_path ((cs @ [d]) @ [i]) @ ''-removing''" by (rule abs_path_last) simp
  finally show "path_join [a, d, i @ ''-removing''] = path_join [a, d, i] @ ''-removing''"
    using cs d i by (simp add: path_join_plain2)
  have "path_join [a, d, i] = abs_path (cs @ [d, i])" using cs d i by (simp add: path_join_plain2)
  moreover have "abs_path (cs @ [d, i]) \<noteq> abs_path []"
    using cs d i abs_path_inject [of "cs @ [d, i]" "[]"] by simp
  ultimately show "path_join [a, d, i] \<noteq> ''/''" by (simp add: abs_path_def)
qed

text \<open>Paths that lie apart: of other kinds or of other layers, and the directories above them.\<close>

lemma layer_paths_apart:
  assumes a: "info_dir a" and d: "plain_name d" "plain_name e" and i: "plain_name i" "plain_name j"
    and ne: "d \<noteq> e \<or> i \<noteq> j"
  shows "\<not> in_tree (path_join [a, d, i]) (path_join [a, e, j])"
    and "\<not> in_tree (path_join [a, d, i]) (path_join [a, e])"
    and "q \<in> set (path_prefixes (path_join [a, e, j])) \<Longrightarrow> \<not> in_tree (path_join [a, d, i]) q"
proof -
  from a obtain cs where cs: "a = abs_path cs" "cs \<noteq> []" "list_all plain_name cs" by (auto simp: info_dir_def)
  note [simp] = path_join_plain2 [OF cs(3)] path_join_plain [OF cs(3)] cs(1)
  have p: "list_all plain_name (cs @ [d, i])" "list_all plain_name (cs @ [e, j])" "list_all plain_name (cs @ [e])"
    using cs(3) d i by simp_all
  have no: "\<not> prefix (cs @ [d, i]) c" if "prefix c (cs @ [e, j])" for c
  proof
    assume "prefix (cs @ [d, i]) c"
    with that have "prefix (cs @ [d, i]) (cs @ [e, j])" by (rule prefix_order.trans [rotated])
    with ne show False by auto
  qed
  have tree: "\<not> in_tree (abs_path (cs @ [d, i])) (abs_path c)" if "list_all plain_name c" "prefix c (cs @ [e, j])" for c
    using in_tree_abs_path [OF p(1) _ that(1)] no [OF that(2)] by auto
  show "\<not> in_tree (path_join [a, d, i]) (path_join [a, e, j])"
    using tree [OF p(2)] d i by simp
  show "\<not> in_tree (path_join [a, d, i]) (path_join [a, e])"
    using tree [OF p(3)] d i by simp
  show "\<not> in_tree (path_join [a, d, i]) q" if "q \<in> set (path_prefixes (path_join [a, e, j]))"
  proof -
    from that obtain c where c: "prefix c (cs @ [e, j])" "q = abs_path c"
      using path_prefixes_abs [OF p(2)] d i by auto
    from c(1) obtain zs where "cs @ [e, j] = c @ zs" by (auto simp: prefix_def)
    with p(2) have "list_all plain_name c" by (simp only: list_all_append)
    from tree [OF this c(1)] c(2) d i show ?thesis by simp
  qed
qed

section \<open>Removing what an earlier layer left\<close>

text \<open>
  \<open>Remove\<close> of a layer empties paths of the layer and uses two temporary directories; it leaves all
  other files alone.
\<close>

definition own_path :: "string \<Rightarrow> string \<Rightarrow> string \<Rightarrow> bool" where
  "own_path a i q \<longleftrightarrow> in_tree (path_join [a, ''mnt'', i]) q \<or> in_tree (path_join [a, ''diff'', i]) q \<or>
     q = path_join [a, ''layers'', i]"

definition removing_path :: "string \<Rightarrow> string \<Rightarrow> string \<Rightarrow> bool" where
  "removing_path a i q \<longleftrightarrow> in_tree (path_join [a, ''mnt'', i @ ''-removing'']) q \<or>
     in_tree (path_join [a, ''diff'', i @ ''-removing'']) q"

definition emptied :: "string \<Rightarrow> string \<Rightarrow> 'z os_state_scheme \<Rightarrow> 'z os_state_scheme \<Rightarrow> bool" where
  "emptied a i w0 w \<longleftrightarrow> os_fault w = os_fault w0 \<and>
     (\<forall>q. \<not> removing_path a i q \<longrightarrow> files w q = files w0 q \<or> own_path a i q \<and> files w q = None)"

lemma emptied_refl: "emptied a i w w"
  by (simp add: emptied_def)

lemma keeps_emptied_frame: "frame hview m \<Longrightarrow> keeps (emptied a i w0) m"
  by (auto simp: keeps_def frame_def emptied_def hview_def gview_def)

lemma keeps_emptied_modW:
  assumes "\<And>w. os_fault (f w) = os_fault w"
    and "\<And>w q. \<not> removing_path a i q \<Longrightarrow> files (f w) q = files w q \<or> own_path a i q \<and> files (f w) q = None"
  shows "keeps (emptied a i w0) (modW f)"
  using assms unfolding keeps_def modW_def emptied_def by simp metis

lemma keeps_emptied_check: "keeps (emptied a i w0) (os_check oper p)"
  by (auto simp: keeps_def os_check_def split: option.split)

lemma keeps_emptied_remove_dir:
  assumes a: "info_dir a" and i: "plain_name i" and d: "d = ''mnt'' \<or> d = ''diff''"
    and rest: "keeps (emptied a i w0) rest"
  shows "keeps (emptied a i w0) (remove_dir a d i rest)"
proof -
  have dn: "plain_name d" using d by auto
  let ?p = "path_join [a, d, i]" and ?t = "path_join [a, d, i @ ''-removing'']"
  have clean: "path_clean ?p = ?p" "path_clean ?t = ?t"
    using layer_path(1) [OF a dn i] layer_path(1) [OF a dn plain_removing [OF i]] by simp_all
  have tmp: "removing_path a i q" if "q = ?t \<or> below ?t q" for q
    using that d by (auto simp: removing_path_def in_tree_def)
  have own: "own_path a i q" if "q = ?p \<or> below ?p q" for q
    using that d by (auto simp: own_path_def in_tree_def)
  have rename: "keeps (emptied a i w0) (os_rename ?p ?t)"
    unfolding os_rename_def Let_def clean
    by (rule keeps_bindE [OF keeps_emptied_check])
      (use tmp own in \<open>auto simp: keeps_def emptied_def split: option.split\<close>)
  have rm: "keeps (emptied a i w0) (remove_all ?t)"
    unfolding remove_all_def clean
    by (rule keeps_bindE [OF keeps_emptied_check], rule keeps_emptied_modW) (use tmp in auto)
  show ?thesis unfolding remove_dir_def Let_def
    by (intro keeps_rules rename rm rest)
qed

lemma keeps_emptied_Remove:
  assumes a: "info_dir a" and i: "plain_name i"
  shows "keeps (emptied a i w0) (aufs_Remove env a i)"
proof -
  have "plain_name ''layers''" by simp
  then have "path_clean (path_join [a, ''layers'', i]) = path_join [a, ''layers'', i]"
    using layer_path(1) [OF a _ i] by simp
  then have "keeps (emptied a i w0) (os_remove (path_join [a, ''layers'', i]))"
    unfolding os_remove_def
    by (intro keeps_bindE [OF keeps_emptied_check])
      (auto simp: keeps_def emptied_def own_path_def split: option.split)
  then show ?thesis unfolding aufs_Remove_def
    by (intro keeps_rules keeps_emptied_frame [OF frame_hview_unmount] keeps_emptied_remove_dir [OF a i]) simp_all
qed

section \<open>A host that is ready for a layer\<close>

text \<open>
  The directories of the driver are there or can be made, the list of ancestors of the parent can be
  read, and no files are in the way of the new layer.
\<close>

definition ready_for :: "string \<Rightarrow> string \<Rightarrow> string \<Rightarrow> string \<Rightarrow> 'z os_state_scheme \<Rightarrow> bool" where
  "ready_for a p s i w \<longleftrightarrow> no_faults w \<and> is_dir_at (files w) (path_join [a, ''layers'']) \<and>
     dir_ready (path_join [a, ''mnt'', i]) w \<and> dir_ready (path_join [a, ''diff'', i]) w \<and>
     content w (path_join [a, ''layers'', p]) = Some s \<and>
     (\<exists>t. text_at w (path_join [a, ''layers'', i]) t) \<and>
     (\<forall>q. below (path_join [a, ''mnt'', i]) q \<longrightarrow> free_or_dir w q)"

lemma ready_for_emptied:
  assumes a: "info_dir a" and v: "ValidateID i" "ValidateID p" "p \<noteq> i"
    and ready: "ready_for a p s i w" and e: "emptied a i w w'"
  shows "ready_for a p s i w'"
proof -
  note i = v(1,2) [THEN ValidateID_plain_name]
  note ri = plain_removing [OF i(1)]
  have ne: "j \<noteq> i @ ''-removing''" if "ValidateID j" for j
    using that by (auto simp: ValidateID_def list_all_iff is_lower_hex_def is_digit_def)
  have same: "files w' q = files w q" if "\<not> removing_path a i q" "\<not> own_path a i q" for q
    using e that unfolding emptied_def by blast
  have free: "free_or_dir w' q" if "\<not> removing_path a i q" "free_or_dir w q" for q
    using e that unfolding emptied_def free_or_dir_def by (metis option.simps(4))
  have apart: "\<not> removing_path a i (path_join [a, e, j])" "\<not> removing_path a i (path_join [a, e])"
    "q \<in> set (path_prefixes (path_join [a, e, j])) \<Longrightarrow> \<not> removing_path a i q"
    if "plain_name e" "ValidateID j" for e j q
    using layer_paths_apart [OF a _ that(1) ri ValidateID_plain_name [OF that(2)]] ne [OF that(2)]
    by (auto simp: removing_path_def)
  have dir: "\<not> own_path a i (path_join [a, ''layers''])" "\<not> own_path a i (path_join [a, ''layers'', p])"
    using layer_paths_apart [OF a _ _ i] v(3) by (auto simp: own_path_def in_tree_def)
  have below: "\<not> removing_path a i q" if "below (path_join [a, ''mnt'', i]) q" for q
  proof -
    have q: "in_tree (path_join [a, ''mnt'', i]) q" using that by (simp add: in_tree_def)
    have "\<not> in_tree (path_join [a, ''diff'', i @ ''-removing'']) q"
      using in_tree_linear [OF q] layer_paths_apart(1) [OF a _ _ i(1) ri, of "''mnt''" "''diff''"]
        layer_paths_apart(1) [OF a _ _ ri i(1), of "''diff''" "''mnt''"] by auto
    moreover have "\<not> in_tree (path_join [a, ''mnt'', i @ ''-removing'']) q"
      using in_tree_apart [OF q] layer_path(3) [OF a _ i(1), of "''mnt''"] by simp
    ultimately show ?thesis by (simp add: removing_path_def)
  qed
  have gone: "files w' q = files w q \<or> files w' q = None" if "q = path_join [a, ''layers'', i]" for q
    using e apart(1) [of "''layers''" i] v(1) that unfolding emptied_def by auto
  show ?thesis unfolding ready_for_def
  proof (intro conjI allI impI)
    show "no_faults w'" using ready e by (simp add: ready_for_def emptied_def no_faults_def)
    show "is_dir_at (files w') (path_join [a, ''layers''])"
      using ready same [OF apart(2) dir(1)] v(1) by (simp add: ready_for_def is_dir_at_def)
    have "dir_ready (path_join [a, e, i]) w'" if "plain_name e" "dir_ready (path_join [a, e, i]) w" for e
      using that(2) free apart(3) [OF that(1) v(1)] unfolding dir_ready_def by blast
    then show "dir_ready (path_join [a, ''mnt'', i]) w'" "dir_ready (path_join [a, ''diff'', i]) w'"
      using ready by (simp_all add: ready_for_def)
    show "content w' (path_join [a, ''layers'', p]) = Some s"
      using ready same [OF apart(1) dir(2)] v(2) by (simp add: ready_for_def content_def)
    show "\<exists>t. text_at w' (path_join [a, ''layers'', i]) t"
      using ready gone [OF refl] by (auto simp: ready_for_def text_at_def content_def)
    show "free_or_dir w' q" if "below (path_join [a, ''mnt'', i]) q" for q
      using ready free [OF below [OF that]] that by (simp add: ready_for_def)
  qed
qed

lemma ready_for_same:
  assumes "ready_for a p s i w" and "files w' = files w" and "os_fault w' = os_fault w"
  shows "ready_for a p s i w'"
  using assms(1)
  unfolding ready_for_def no_faults_def dir_ready_def free_or_dir_def content_def text_at_def assms(2,3) .

section \<open>Creating the files of a layer\<close>

text \<open>A step that succeeds and changes one file only.\<close>

definition writes :: "string \<Rightarrow> 'z os_state_scheme \<Rightarrow> 'z os_state_scheme \<Rightarrow> bool" where
  "writes f w w' \<longleftrightarrow> beyond_files w' = beyond_files w \<and> (\<forall>q. q \<noteq> f \<longrightarrow> files w' q = files w q)"

lemma writes_trans: "writes f w w1 \<Longrightarrow> writes f w1 w2 \<Longrightarrow> writes f w w2"
  by (simp add: writes_def)

lemma writes_no_faults: "writes f w w' \<Longrightarrow> no_faults w' = no_faults w"
  by (simp add: writes_def beyond_files_def no_faults_def)

lemma os_create_ok:
  assumes "no_faults w" and "clean_abs f" and "is_dir_at (files w) (path_dir f)" and "text_at w f t"
  shows "\<exists>w'. os_create f w = (Inr f, w') \<and> writes f w w' \<and> content w' f = Some []"
proof -
  have "not_link w f" using assms(4)
    by (auto simp: text_at_def content_def not_link_def split: option.splits file_kind.splits)
  then show ?thesis using assms
    by (cases "files w f")
      (auto simp: os_create_def bindE_def real_path_ok text_at_def content_def writes_def split: file_kind.splits)
qed

lemma write_handle_writes:
  assumes "no_faults w" and "content w f = Some t"
  shows "\<exists>w'. write_handle f x w = (Inr (), w') \<and> writes f w w' \<and> content w' f = Some (t @ x)"
proof -
  from assms(2) obtain j where j: "files w f = Some j" "kind j = Regular t"
    by (auto simp: content_def split: option.splits file_kind.splits)
  from write_handle_ok [OF assms(1) j, of x] show ?thesis
    by (simp add: writes_def content_put_file)
qed

lemma write_lines:
  assumes "no_faults w" and "content w f = Some t"
  shows "\<exists>w'. forE js (\<lambda>j. write_handle f (j @ [newline])) w = (Inr (), w') \<and> writes f w w' \<and>
    content w' f = Some (t @ lines_text js)"
  using assms
proof (induction js arbitrary: w t)
  case Nil
  then show ?case by (simp add: writes_def)
next
  case (Cons j js)
  from write_handle_writes [OF Cons.prems, of "j @ [newline]"] obtain w1 where
    one: "write_handle f (j @ [newline]) w = (Inr (), w1)" "writes f w w1" "content w1 f = Some (t @ j @ [newline])"
    by blast
  from Cons.IH [OF _ one(3)] writes_no_faults [OF one(2)] Cons.prems(1) obtain w2 where
    "forE js (\<lambda>j. write_handle f (j @ [newline])) w1 = (Inr (), w2)" "writes f w1 w2"
    "content w2 f = Some ((t @ j @ [newline]) @ lines_text js)" by blast
  with one writes_trans [OF one(2)] show ?case by (auto simp: bindE_def)
qed

text \<open>
  \<open>Create\<close> writes the chain of ancestors: the parent and after it the parent's own list.  What is left
  is a directory to mount on.
\<close>

definition mountable :: "string \<Rightarrow> string \<Rightarrow> 'z os_state_scheme \<Rightarrow> bool" where
  "mountable a i w \<longleftrightarrow> no_faults w \<and> dir_ready (path_join [a, ''mnt'', i]) w \<and>
     (\<forall>q. below (path_join [a, ''mnt'', i]) q \<longrightarrow> free_or_dir w q)"

lemma fill_dirs_is_dir: "is_dir_at (files w) d \<Longrightarrow> is_dir_at (files (fill_dirs qs w)) d"
  by (auto simp: is_dir_at_def fill_dirs_def split: option.splits)

lemma mountable_same:
  assumes "mountable a i w" and "files w' = files w" and "os_fault w' = os_fault w"
  shows "mountable a i w'"
  using assms(1) unfolding mountable_def no_faults_def dir_ready_def free_or_dir_def assms(2,3) .

lemma aufs_Create_ready:
  assumes a: "info_dir a" and v: "ValidateID i" "ValidateID p" "p \<noteq> i" and ready: "ready_for a p s i w"
  shows "\<exists>w'. aufs_Create a i p w = (Inr (), w') \<and> mountable a i w' \<and>
    content w' (path_join [a, ''layers'', i]) = Some (lines_text (p # scan_lines s))"
proof -
  let ?mnt = "path_join [a, ''mnt'', i]" and ?diff = "path_join [a, ''diff'', i]"
  let ?f = "path_join [a, ''layers'', i]" and ?g = "path_join [a, ''layers'', p]"
  note i = v(1,2) [THEN ValidateID_plain_name]
  have nf: "no_faults w" using ready by (simp add: ready_for_def)
  let ?w1 = "fill_dirs (path_prefixes ?mnt) w" and ?w2 = "fill_dirs (path_prefixes ?diff) (fill_dirs (path_prefixes ?mnt) w)"
  have mnt: "mkdir_all ?mnt w = (Inr (), ?w1)"
    by (rule mkdir_all_ok [OF nf layer_path(1) [OF a _ i(1)]]) (use ready in \<open>simp_all add: ready_for_def\<close>)
  have diff: "mkdir_all ?diff ?w1 = (Inr (), ?w2)"
    by (rule mkdir_all_ok [OF _ layer_path(1) [OF a _ i(1)]])
      (use ready nf in \<open>simp_all add: ready_for_def dir_ready_def fill_dirs_free_or_dir\<close>)
  have dirs: "createDirsFor a i w = (Inr (), ?w2)"
    using mnt diff by (simp add: createDirsFor_def bindE_def)
  have outside: "?f \<notin> set (path_prefixes (path_join [a, e, i]))" "?g \<notin> set (path_prefixes (path_join [a, e, i]))"
    if "plain_name e" "e \<noteq> ''layers''" for e
    using layer_paths_apart(3) [OF a _ that(1) _ i(1), of "''layers''"] i that(2)
    by (auto simp: in_tree_def)
  have old: "files ?w2 ?f = files w ?f" "files ?w2 ?g = files w ?g" using outside by simp_all
  have nf2: "no_faults ?w2" using nf by simp
  have "is_dir_at (files ?w2) (path_join [a, ''layers''])"
    using ready by (intro fill_dirs_is_dir) (simp add: ready_for_def)
  then have dir: "is_dir_at (files ?w2) (path_dir ?f)" using layer_path(2) [OF a _ i(1), of "''layers''"] by simp
  obtain t where "text_at w ?f t" using ready by (auto simp: ready_for_def)
  then have text_f: "text_at ?w2 ?f t" by (simp add: text_at_def content_def old)
  have clean: "clean_abs ?f" "clean_abs ?g" using layer_path(1) [OF a _ i(1)] layer_path(1) [OF a _ i(2)] by simp_all
  obtain w3 where create: "os_create ?f ?w2 = (Inr ?f, w3)" "writes ?f ?w2 w3" "content w3 ?f = Some []"
    using os_create_ok [OF nf2 clean(1) dir text_f] by blast
  have nf3: "no_faults w3" using writes_no_faults [OF create(2)] nf2 by simp
  have "?g \<noteq> ?f" using layer_paths_apart(1) [OF a _ _ i(2,1), of "''layers''" "''layers''"] v(3) by (auto simp: in_tree_def)
  then have "content w3 ?g = content w ?g" using create(2) old(2) by (simp add: writes_def content_def)
  then have "read_file ?g w3 = (Inr s, w3)"
    using ready by (intro read_file_ok nf3 clean) (simp add: ready_for_def)
  then have ids: "getParentIds a p w3 = (Inr (scan_lines s), w3)" by (simp add: getParentIds_def bindE_def)
  obtain w4 where first: "write_handle ?f (p @ [newline]) w3 = (Inr (), w4)" "writes ?f w3 w4" "content w4 ?f = Some (p @ [newline])"
    using write_handle_writes [OF nf3 create(3), of "p @ [newline]"] by auto
  have nf4: "no_faults w4" using writes_no_faults [OF first(2)] nf3 by simp
  obtain w5 where rest: "forE (scan_lines s) (\<lambda>j. write_handle ?f (j @ [newline])) w4 = (Inr (), w5)"
    "writes ?f w4 w5" "content w5 ?f = Some (lines_text (p # scan_lines s))"
    using write_lines [OF nf4 first(3), of "scan_lines s"] by auto
  have "p \<noteq> []" using v(2) ValidateID_nonempty by blast
  then have run: "aufs_Create a i p w = (Inr (), w5)"
    using dirs create(1) ids first(1) rest(1) by (simp add: aufs_Create_def bindE_def)
  have all: "writes ?f ?w2 w5" using writes_trans [OF create(2) writes_trans [OF first(2) rest(2)]] .
  have free: "free_or_dir w5 q" if "q \<noteq> ?f" "free_or_dir w q" for q
  proof -
    have "free_or_dir ?w2 q" using that(2) by (simp add: fill_dirs_free_or_dir)
    with all that(1) show ?thesis by (simp add: writes_def free_or_dir_def)
  qed
  have apart: "q \<noteq> ?f" if "below ?mnt q" for q
    using layer_paths_apart(1) [OF a _ _ i(1) i(1), of "''mnt''" "''layers''"] that by (auto simp: in_tree_def)
  have "free_or_dir w5 q" if "below ?mnt q" for q
    by (rule free [OF apart [OF that]]) (use ready that in \<open>simp add: ready_for_def\<close>)
  moreover have "dir_ready ?mnt w5" unfolding dir_ready_def
  proof
    fix q assume q: "q \<in> set (path_prefixes ?mnt)"
    have "q \<noteq> ?f" using outside(1) [of "''mnt''"] q by auto
    moreover have "free_or_dir w q" using ready q by (simp add: ready_for_def dir_ready_def)
    ultimately show "free_or_dir w5 q" by (rule free)
  qed
  ultimately have "mountable a i w5"
    using writes_no_faults [OF all] nf2 by (simp add: mountable_def)
  with run rest(3) show ?thesis by blast
qed

section \<open>Mounting\<close>

text \<open>Commands that mount succeed, and the mount table can be read.\<close>

definition healthy :: "'k env \<Rightarrow> bool" where
  "healthy env \<longleftrightarrow> (\<forall>layers rw target label k. \<exists>k'. aufsMount env layers rw target label k = (Inr (), k')) \<and>
     (\<forall>p k. \<exists>b. Mounted env p k = Inr b)"

lemma drop_cr_valid: "ValidateID j \<Longrightarrow> drop_cr j = j"
proof -
  assume j: "ValidateID j"
  have "last j \<in> set j" using ValidateID_nonempty [OF j] by simp
  with j have "last j \<noteq> CHR 0x0D"
    by (auto simp: ValidateID_def list_all_iff is_lower_hex_def is_digit_def)
  then show ?thesis by (simp add: drop_cr_def)
qed

lemma scan_lines_text: "list_all ValidateID js \<Longrightarrow> scan_lines (lines_text js) = js"
proof -
  assume js: "list_all ValidateID js"
  then have "split_on newline (lines_text js) = js @ [[]]"
    by (intro split_lines_text) (auto simp: list_all_iff ValidateID_no_space)
  moreover have "map drop_cr js = js" using js by (induction js) (simp_all add: drop_cr_valid)
  moreover have "filter (\<lambda>l. l \<noteq> []) js = js" using js ValidateID_nonempty by (auto simp: list_all_iff)
  ultimately show ?thesis by (simp add: scan_lines_def drop_cr_def)
qed

lemma aufs_Get_ready:
  assumes a: "info_dir a" and i: "ValidateID i" and env: "healthy env" and ready: "mountable a i w"
    and chain: "content w (path_join [a, ''layers'', i]) = Some (lines_text js)" "list_all ValidateID js" "js \<noteq> []"
  shows "\<exists>w'. aufs_Get env a i label w = (Inr (path_join [a, ''mnt'', i]), w') \<and> mountable a i w'"
proof -
  note pi = ValidateID_plain_name [OF i]
  have nf: "no_faults w" using ready by (simp add: mountable_def)
  have "read_file (path_join [a, ''layers'', i]) w = (Inr (lines_text js), w)"
    by (rule read_file_ok [OF nf layer_path(1) [OF a _ pi] chain(1)]) simp
  then have ids: "getParentIds a i w = (Inr js, w)"
    by (simp add: getParentIds_def bindE_def scan_lines_text [OF chain(2)])
  have mount: "\<exists>w1. aufs_mount env a i label w = (Inr (), w1) \<and> files w1 = files w \<and> os_fault w1 = os_fault w"
  proof -
    obtain b where b: "Mounted env (path_join [a, ''mnt'', i]) (kernel w) = Inr b"
      using env unfolding healthy_def by blast
    obtain k where k: "aufsMount env (map (\<lambda>p. path_join [a, ''diff'', p]) js) (path_join [a, ''diff'', i])
        (path_join [a, ''mnt'', i]) label (kernel w) = (Inr (), k)"
      using env unfolding healthy_def by blast
    have paths: "getParentLayerPaths a i w = (Inr (map (\<lambda>p. path_join [a, ''diff'', p]) js), w)"
      using ids by (simp add: getParentLayerPaths_def bindE_def)
    have "mounted env a i w = (Inr b, w)" using b by (simp add: mounted_def see_kernel_def lift_error_def)
    then show ?thesis
      using k paths by (cases b) (simp_all add: aufs_mount_def bindE_def on_kernel_def handleE_def Let_def lift_error_def)
  qed
  then obtain w1 where w1: "(if js \<noteq> [] \<and> activeCount w i = 0 then aufs_mount env a i label else ret ()) w = (Inr (), w1)"
    "files w1 = files w" "os_fault w1 = os_fault w"
    by (cases "activeCount w i = 0") (use chain(3) in \<open>auto simp: ret_def\<close>)
  have "aufs_Get env a i label w = (Inr (path_join [a, ''mnt'', i]),
      w1\<lparr>active := (active w1)(i \<mapsto> activeCount w i + 1)\<rparr>)"
    using ids w1(1) chain(3) unfolding aufs_Get_def
    by (simp add: bindE_def [of "handleE _ _ _"] handleE_def bindE_def [of "getW _"] getW_def)
      (simp add: bindE_def set_active_def)
  moreover have "mountable a i (w1\<lparr>active := (active w1)(i \<mapsto> activeCount w i + 1)\<rparr>)"
    by (rule mountable_same [OF ready]) (simp_all add: w1(2,3))
  ultimately show ?thesis by blast
qed

section \<open>Registering and mounting through the graph\<close>

lemma wired_driver_parts:
  assumes "g = wired_graph env run decompress r"
  shows "drv_Remove (driver g) = aufs_Remove env (path_join [r, ''aufs''])"
    and "drv_Create (driver g) = aufs_Create (path_join [r, ''aufs''])"
    and "drv_Get (driver g) = aufs_Get env (path_join [r, ''aufs''])"
  by (simp_all add: assms wired_graph_def quotaed_driver_def wired_cfg_def aufs_driver_def)

lemma ignoreE_calm: "calm m \<Longrightarrow> m w = (x, w') \<Longrightarrow> ignoreE m w = (Inr (), w')"
  by (auto simp: calm_def ignoreE_def handleE_def split: sum.split failure.split) (metis fst_conv)

lemma info_dir_aufs: "clean_abs r \<Longrightarrow> info_dir (path_join [r, ''aufs''])"
proof (erule clean_abs_comps)
  fix cs assume "r = abs_path cs" "list_all plain_name cs"
  then show "info_dir (path_join [r, ''aufs''])"
    unfolding info_dir_def by (intro exI [of _ "cs @ [''aufs'']"]) (simp add: path_join_plain)
qed

lemma storeImage_plain:
  assumes "no_faults w" and "ParentID im = []"
  shows "\<exists>dir. storeImage g im None quota w = (Inr dir, w)"
  using assms by (simp add: storeImage_def bindE_def digest_Validate_empty)

lemma register_ready:
  assumes g: "g = wired_graph env run decompress r" and r: "clean_abs r" and inv: "graph_inv g w"
    and v: "ValidateID (ID im)" "ValidateID (Parent im)" "Parent im \<noteq> ID im" and im: "ParentID im = []"
    and new: "ID im \<notin> dom (graph_layers g w)"
    and ready: "ready_for (path_join [r, ''aufs'']) (Parent im) s (ID im) w"
  shows "\<exists>w'. docker_Register g im None w = (Inr (), w') \<and> mountable (path_join [r, ''aufs'']) (ID im) w' \<and>
    content w' (path_join [path_join [r, ''aufs''], ''layers'', ID im]) = Some (lines_text (Parent im # scan_lines s))"
proof -
  let ?a = "path_join [r, ''aufs'']" and ?i = "ID im"
  note parts = wired_driver_parts [OF g]
  have a: "info_dir ?a" by (rule info_dir_aufs [OF r])
  have nf: "no_faults w" using ready by (simp add: ready_for_def)
  let ?w1 = "w\<lparr>imageDirs := (imageDirs w)(?i := None)\<rparr>"
  have ready1: "ready_for ?a (Parent im) s ?i ?w1" by (rule ready_for_same [OF ready]) simp_all
  obtain x w2 where remove: "drv_Remove (driver g) ?i ?w1 = (x, w2)" by (cases "drv_Remove (driver g) ?i ?w1")
  have "emptied ?a ?i ?w1 w2"
    using keepsD [OF keeps_emptied_Remove [OF a ValidateID_plain_name [OF v(1)]] emptied_refl] remove parts(1) by simp
  from ready_for_emptied [OF a v ready1 this] have ready2: "ready_for ?a (Parent im) s ?i w2" .
  have nf2: "no_faults w2" using ready2 by (simp add: ready_for_def)
  have removed: "ignoreE (drv_Remove (driver g) ?i) ?w1 = (Inr (), w2)"
    by (rule ignoreE_calm [where m = "drv_Remove (driver g) ?i", OF _ remove]) (use aufs.Remove_calm in \<open>simp add: parts(1) aufs_driver_def\<close>)
  obtain w3 where create: "drv_Create (driver g) ?i (Parent im) w2 = (Inr (), w3)" "mountable ?a ?i w3"
    "content w3 (path_join [?a, ''layers'', ?i]) = Some (lines_text (Parent im # scan_lines s))"
    using aufs_Create_ready [OF a v ready2] parts(2) by auto
  have nf3: "no_faults w3" using create(2) by (simp add: mountable_def)
  obtain dir where store: "storeImage g im None (- 1) w3 = (Inr dir, w3)" using storeImage_plain [OF nf3 im] by blast
  let ?w4 = "w3\<lparr>imageDirs := (imageDirs w3)(?i \<mapsto> dir), idIndex := index_Add ?i (idIndex w3)\<rparr>"
  have "graph_layers g w ?i = None" using new by blast
  from graph_Get_absent [OF inv this] v(1) have exists: "graph_Exists g ?i w = (Inr False, w)"
    by (auto simp: graph_Exists_def handleE_def)
  have "graph_register g im None (- 1) w = (Inr (), ?w4)"
    using exists removed create(1) store nf nf2 nf3
    by (simp add: graph_register_def bindE_def handleE_def createRootFilesystemInDriver_def mktemp_def)
  then have "docker_Register g im None w = (Inr (), ?w4)"
    using v(1) by (simp add: docker_Register_def graph_Register_def)
  moreover have "mountable ?a ?i ?w4" by (rule mountable_same [OF create(2)]) simp_all
  moreover have "content ?w4 (path_join [?a, ''layers'', ?i]) = Some (lines_text (Parent im # scan_lines s))"
    using create(3) by (simp add: content_def)
  ultimately show ?thesis by blast
qed

lemma docker_Path_ready:
  assumes g: "g = wired_graph env run decompress r" and r: "clean_abs r" and i: "ValidateID (GraphID i)"
    and env: "healthy env" and ready: "mountable (path_join [r, ''aufs'']) (GraphID i) w"
    and chain: "content w (path_join [path_join [r, ''aufs''], ''layers'', GraphID i]) = Some (lines_text js)"
      "list_all ValidateID js" "js \<noteq> []"
  shows "\<exists>w'. docker_Path g i w = (Inr (path_join [path_join [r, ''aufs''], ''mnt'', GraphID i]), w') \<and>
    mountable (path_join [r, ''aufs'']) (GraphID i) w'"
proof -
  from aufs_Get_ready [OF info_dir_aufs [OF r] i env ready chain, of "[]"] obtain w' where
    "drv_Get (driver g) (GraphID i) [] w = (Inr (path_join [path_join [r, ''aufs''], ''mnt'', GraphID i]), w')"
    "mountable (path_join [r, ''aufs'']) (GraphID i) w'"
    using wired_driver_parts(3) [OF g] by auto
  then show ?thesis by (simp add: docker_Path_def eval_nat_numeral handleE_def)
qed

section \<open>Volumes\<close>

lemma volume_ready:
  assumes a: "info_dir a" and i: "plain_name i" and v: "volume_name v" and ready: "mountable a i w"
  shows "\<exists>w'. SimpleVolumeCreator_Create (path_join [a, ''mnt'', i]) v w = (Inr (), w') \<and> mountable a i w'"
proof -
  let ?d = "path_join [a, ''mnt'', i]" and ?p = "path_join [path_join [a, ''mnt'', i], v]"
  from a obtain as where as: "a = abs_path as" "as \<noteq> []" "list_all plain_name as" by (auto simp: info_dir_def)
  let ?cs = "as @ [''mnt'', i]"
  have d: "?d = abs_path ?cs" and cs: "list_all plain_name ?cs" "?cs \<noteq> []"
    using as i by (simp_all add: path_join_plain2)
  let ?ns = "volume_comps v"
  note vol = path_join_volume [OF cs v]
  have p: "?p = abs_path (?cs @ ?ns)" unfolding d by (rule vol(1))
  have pl: "list_all plain_name (?cs @ ?ns)" using cs(1) vol(2) by simp
  have nf: "no_faults w" using ready by (simp add: mountable_def)
  have clean: "clean_abs ?p" unfolding p by (rule clean_abs_abs_path [OF pl])
  have free: "free_or_dir w (abs_path c)" if "c \<noteq> []" "prefix c (?cs @ ?ns)" for c
  proof (cases "prefix c ?cs")
    case True
    then have "abs_path c \<in> set (path_prefixes ?d)" unfolding d using path_prefixes_abs [OF cs] that(1) by blast
    with ready show ?thesis by (simp add: mountable_def dir_ready_def)
  next
    case False
    with that(2) obtain ms where ms: "c = ?cs @ ms" using prefix_append [of c ?cs ?ns] by blast
    with False have ne: "ms \<noteq> []" by auto
    have "below ?d (abs_path c)"
      unfolding ms d below_def abs_path_def join_with_append [OF cs(2) ne] by (simp add: prefix_def)
    with ready show ?thesis by (simp add: mountable_def)
  qed
  have "dir_ready ?p w" unfolding dir_ready_def p
    using path_prefixes_abs [OF pl] cs(2) free by auto
  from mkdir_all_ok [OF nf clean this] have make: "mkdir_all ?p w = (Inr (), fill_dirs (path_prefixes ?p) w)" .
  have at: "free_or_dir w ?p" using free [of "?cs @ ?ns"] cs(2) by (simp add: p)
  then have "not_link w ?p" by (auto simp: free_or_dir_def not_link_def split: option.splits file_kind.splits)
  from os_stat_ok [OF nf clean this] make at
  have "SimpleVolumeCreator_Create ?d v w = (Inr (), fill_dirs (path_prefixes ?p) w)"
    by (cases "files w ?p") (auto simp: SimpleVolumeCreator_Create_def Let_def handleE_def free_or_dir_def)
  moreover have "mountable a i (fill_dirs (path_prefixes ?p) w)"
    using ready by (simp add: mountable_def dir_ready_def fill_dirs_free_or_dir)
  ultimately show ?thesis by blast
qed

lemma volumes_ready:
  assumes a: "info_dir a" and i: "plain_name i" and vs: "list_all volume_name vs" and ready: "mountable a i w"
  shows "\<exists>w'. forE vs (SimpleVolumeCreator_Create (path_join [a, ''mnt'', i])) w = (Inr (), w')"
  using vs ready
proof (induction vs arbitrary: w)
  case (Cons v vs)
  from volume_ready [OF a i _ Cons.prems(2), of v] Cons.prems(1) obtain w1 where
    "SimpleVolumeCreator_Create (path_join [a, ''mnt'', i]) v w = (Inr (), w1)" "mountable a i w1" by auto
  with Cons.IH [of w1] Cons.prems(1) show ?case by (auto simp: bindE_def)
qed simp

section \<open>Creating the layers of a container succeeds\<close>

lemma LayerCreator_ready:
  assumes g: "g = wired_graph env run decompress r" and r: "clean_abs r" and inv: "graph_inv g w"
    and env: "healthy env" and i: "i \<noteq> []" and img: "ValidateID (ImageID img)" "ImageID img \<noteq> shaID i"
    and spec: "\<not> Namespaced spec" "sint (QuotaSize spec) \<le> 0" and vols: "list_all volume_name (ImgVolumes img)"
    and new: "shaID i \<notin> dom (graph_layers g w)"
    and ready: "ready_for (path_join [r, ''aufs'']) (ImageID img) (lines_text ids) (shaID i) w" "list_all ValidateID ids"
  shows "\<exists>w'. LayerCreator_Create (wired_creator (aufs_cake (docker_cake g) runner r) n) i img spec w =
    (Inr (path_join [path_join [r, ''aufs''], ''mnt'', shaID i], ImgEnv img), w')"
proof -
  let ?a = "path_join [r, ''aufs'']"
  let ?im = "empty_image\<lparr>ID := shaID i, Parent := ImageID img, Container := i\<rparr>"
  have im: "ID ?im = shaID i" "Parent ?im = ImageID img" "ParentID ?im = []" by (simp_all add: empty_image_def)
  have v: "ValidateID (shaID i)" using i by (simp add: ValidateID_shaID_iff)
  note a = info_dir_aufs [OF r]
  obtain w1 where create: "docker_Register g ?im None w = (Inr (), w1)" "mountable ?a (shaID i) w1"
    "content w1 (path_join [?a, ''layers'', shaID i]) = Some (lines_text (ImageID img # ids))"
    using register_ready [OF g r inv, of ?im "lines_text ids", unfolded im scan_lines_text [OF ready(2)],
        OF v img refl new ready(1)] by blast
  have chain: "list_all ValidateID (ImageID img # ids)" "ImageID img # ids \<noteq> []" using img ready(2) by simp_all
  obtain w2 where path: "docker_Path g (ContainerID i) w1 = (Inr (path_join [?a, ''mnt'', shaID i]), w2)"
    "mountable ?a (shaID i) w2"
    using docker_Path_ready [OF g r _ env, of "ContainerID i" w1 "ImageID img # ids"] v create(2,3) chain
    by (simp del: lines_text_simps) blast
  obtain w3 where vol: "forE (ImgVolumes img) (SimpleVolumeCreator_Create (path_join [?a, ''mnt'', shaID i])) w2 = (Inr (), w3)"
    using volumes_ready [OF a ValidateID_plain_name [OF v] vols path(2)] by blast
  have "Create (aufs_cake (docker_cake g) runner r) (ContainerID i) (DockerImageID (ImageID img)) i w = (Inr (), w1)"
    using create(1) by (simp add: aufs_cake_def aufs_cake_Create_def docker_cake_def docker_Create_def)
  moreover have "Path (aufs_cake (docker_cake g) runner r) (ContainerID i) = docker_Path g (ContainerID i)"
    by (simp add: aufs_cake_def docker_cake_def)
  ultimately show ?thesis
    using path(1) vol spec by (simp add: LayerCreator_Create_def wired_creator_def container_path_def bindE_def)
qed

end
