(* ===== verification/Live_Server.thy ===== *)
theory Live_Server
  imports Server Layers_Files
begin

text \<open>
  The server on a healthy host: \<open>Create\<close> of \<open>src/rootfs_provider/cakeordinator.go\<close> for a directory
  whose layer is in the store comes to an end with a bundle, and with the container's layer on top
  of the directory's; \<open>Destroy\<close> of a container succeeds when unmounting works.  The example hosts
  of both are at the end.
\<close>

section \<open>Fetching a directory that is in the store\<close>

lemma fetch_registered:
  assumes nf: "no_faults w" and u: "Scheme u = []" "clean_abs (UrlPath u)"
    and dir: "files w (UrlPath u) = Some d" "kind d = Directory"
    and Get: "Get cake (LocalImageID (UrlPath u) (mtime d)) w = (Inr img, w)"
  shows "Fetch (wired_fetcher cake rootFS registry tar dial verify) u un pw quota w =
    (Inr \<lparr>ImageID = GraphID (LocalImageID (UrlPath u) (mtime d)), ImgEnv = [], ImgVolumes = [], ImgSize = 0\<rparr>, w)"
proof -
  let ?p = "UrlPath u" and ?l = "wired_local cake rootFS tar"
  have lstat: "os_lstat ?p w = (Inr d, w)" by (rule os_lstat_present [OF nf u(2) dir(1)])
  then have resolve: "resolve ?p w = (Inr ?p, w)" using dir(2) by (simp add: resolve_def bindE_def handleE_def)
  then have i: "ProvideID ?p w = (Inr (LocalImageID ?p (mtime d)), w)"
    using lstat by (simp add: ProvideID_def handleE_def)
  have "local_fetch ?l ?p w = (Inr (GraphID (LocalImageID ?p (mtime d))), w)"
    using resolve i Get by (simp add: local_fetch_def wired_local_def bindE_def handleE_def)
  moreover have "?p \<noteq> []" using u(2) by (auto simp: clean_abs_def is_abs_def)
  ultimately have "Local_Fetch ?l u [] [] quota w = (Inr \<lparr>ImageID = GraphID (LocalImageID ?p (mtime d)),
      ImgEnv = [], ImgVolumes = [], ImgSize = 0\<rparr>, w)"
    by (simp add: Local_Fetch_def Let_def bindE_def)
  then show ?thesis
    using u(1) by (simp add: wired_fetcher_def Retryable_def retry_Fetch_def CompositeFetcher_def composite_Fetch_def
        local_fetcher_of_def MAX_ATTEMPTS_def eval_nat_numeral handleE_def)
qed

section \<open>Creating a container\<close>

lemma Create_ready:
  assumes serves: "serves r g h c" and g: "g = wired_graph env run decompress r" and env: "healthy env"
    and inv: "shed_inv g w" and i: "i \<noteq> []"
    and spec: "\<not> Namespaced spec" "sint (QuotaSize spec) \<le> 0" "Scheme (RootFS spec) = []"
    and dir: "clean_abs (UrlPath (RootFS spec))" "files w (UrlPath (RootFS spec)) = Some d" "kind d = Directory"
    and base: "b = LocalImageID (UrlPath (RootFS spec)) (mtime d)" "GraphID b \<in> dom (shed_layers g w)"
    and new: "shaID i \<notin> dom (shed_layers g w)"
    and ready: "ready_for (path_join [r, ''aufs'']) (GraphID b) (lines_text ids) (shaID i) w" "list_all ValidateID ids"
  shows "\<exists>w'. Cakeordinator_Create c i spec w =
      (Inr \<lparr>specRoot = path_join [path_join [r, ''aufs''], ''mnt'', shaID i], specEnv = []\<rparr>, w') \<and>
    shed_inv g w' \<and>
    shed_layers g w' = (shed_layers g w)(shaID i \<mapsto> new_layer (ContainerID i) (DockerImageID (GraphID b)) i)"
  using serves
proof cases
  case (wired cake runner n ls depth u dial tar rnd cfg rootFS registry other env' megabytes)
  note c = wired(1) and server = wired(2)
  let ?cake = "aufs_cake (docker_cake g) runner r"
  let ?img = "\<lparr>ImageID = GraphID b, ImgEnv = [], ImgVolumes = [], ImgSize = 0\<rparr>"
  have r: "clean_abs r" using server by (simp add: server_graph_def)
  have nf: "no_faults w" using ready(1) by (simp add: ready_for_def)
  have n: "works_below n" unfolding wired(5) by (rule UidNamespacer_works_below [OF wired(6)])
  obtain im where im: "shed_layers g w (GraphID b) = Some im" using base(2) by blast
  from layer_store.Get_present [OF shed_contract [OF server] inv im]
  have got: "Get ?cake b w = (Inr im, w)" by simp
  have fetched: "Fetch (ordFetcher c) (RootFS spec) (Username spec) (Password spec) (fetcherDiskQuota spec) w = (Inr ?img, w)"
    using fetch_registered [OF nf spec(3) dir got [unfolded base(1)]]
    by (simp add: c wired(3) wired_ordinator_def base(1))
  have v: "ValidateID (ImageID ?img)"
    using layer_store.valid_layers [OF shed_contract [OF server] inv im] by simp
  have dom: "dom (shed_layers g w) = dom (graph_layers g w)" by (simp add: shed_layers_def)
  have gi: "graph_inv g w" using inv by (simp add: shed_inv_def host_inv_def)
  have ne: "ImageID ?img \<noteq> shaID i" using base(2) new by auto
  obtain w' where made: "LayerCreator_Create (wired_creator ?cake n) i ?img spec w =
      (Inr (path_join [path_join [r, ''aufs''], ''mnt'', shaID i], []), w')"
    using LayerCreator_ready [OF g r gi env i v ne spec(1,2), of ids runner n] new ready dom by auto
  then have lay: "ordLayers c i ?img spec w = (Inr (path_join [path_join [r, ''aufs''], ''mnt'', shaID i], []), w')"
    by (simp add: c wired(3) wired_ordinator_def)
  have eff: "shed_inv g w' \<and> shed_layers g w' = with_container (CacheKey n) i spec ?img (shed_layers g w)"
    using LayerCreator_shed [OF server wired(4) n inv v i _ made] by simp
  have "with_container (CacheKey n) i spec ?img (shed_layers g w) =
      (shed_layers g w)(shaID i \<mapsto> new_layer (ContainerID i) (DockerImageID (GraphID b)) i)"
    using new spec(1) by (simp add: with_container_def with_copy_def base_layer_def add_layer_def)
  moreover have "Cakeordinator_Create c i spec w =
      (Inr \<lparr>specRoot = path_join [path_join [r, ''aufs''], ''mnt'', shaID i], specEnv = []\<rparr>, w')"
    using fetched lay by (simp add: Cakeordinator_Create_def bindE_def)
  ultimately show ?thesis using eff by auto
qed

section \<open>Destroying a container\<close>

text \<open>
  Unmounting works: where \<open>mountpoint\<close> finds a mount point, the system call succeeds after the links
  were flushed and the path is no mount point any more; the command \<open>umount -d\<close> fails only where
  nothing is mounted.  A retrier that gives up only after a failure returns when the first attempt
  succeeds.
\<close>

definition unmounts :: "'k env \<Rightarrow> bool" where
  "unmounts env \<longleftrightarrow>
     (\<forall>p k out k1. exec env [''mountpoint'', p] k = (Inr out, k1) \<longrightarrow>
        (\<exists>k2 e. syscall_Unmount env p (snd (exec env [''auplink'', p, ''flush''] k1)) = (Inr (), k2) \<and>
           fst (exec env [''mountpoint'', p] k2) = Inl e)) \<and>
     (\<forall>p k e k'. exec env [''umount'', ''-d'', p] k = (Inl e, k') \<longrightarrow> (\<exists>e'. fst (exec env [''mountpoint'', p] k') = Inl e'))"

definition first_try :: "(('w, unit) prog \<Rightarrow> ('w, unit) prog) \<Rightarrow> bool" where
  "first_try run \<longleftrightarrow> (\<forall>work w w'. work w = (Inr (), w') \<longrightarrow> run work w = (Inr (), w'))"

lemma unmount_mnt_works:
  assumes "unmounts env"
  shows "\<exists>w'. unmount_mnt env p w = (Inr (), w')"
proof (cases "exec env [''mountpoint'', p] (kernel w)")
  case (Pair x k1)
  show ?thesis
  proof (cases x)
    case (Inl e)
    with Pair show ?thesis
      by (simp add: unmount_mnt_def isMountPoint_def bindE_def handleE_def on_kernel_def lift_error_def)
  next
    case (Inr out)
    with assms Pair obtain k2 e where
      k2: "syscall_Unmount env p (snd (exec env [''auplink'', p, ''flush''] k1)) = (Inr (), k2)"
        "fst (exec env [''mountpoint'', p] k2) = Inl e"
      unfolding unmounts_def by blast
    have flush: "ignoreE (on_kernel (exec env [''auplink'', p, ''flush''])) v =
        (Inr (), v\<lparr>kernel := snd (exec env [''auplink'', p, ''flush''] (kernel v))\<rparr>)" for v :: "('a, 'b) host_state_scheme"
      by (cases "exec env [''auplink'', p, ''flush''] (kernel v)")
        (auto simp: ignoreE_def handleE_def on_kernel_def lift_error_def ret_def split: sum.splits)
    show ?thesis using Pair Inr k2 flush
      by (cases "exec env [''mountpoint'', p] k2")
        (simp add: unmount_mnt_def isMountPoint_def aufs_Unmount_def bindE_def handleE_def on_kernel_def lift_error_def)
  qed
qed

lemma loop_umount_works:
  assumes "unmounts env"
  shows "\<exists>w'. loop_umount_once env p w = (Inr (), w')"
proof (cases "exec env [''umount'', ''-d'', p] (kernel w)")
  case (Pair x k)
  show ?thesis
  proof (cases x)
    case (Inl e)
    with assms Pair obtain e' where "fst (exec env [''mountpoint'', p] k) = Inl e'" unfolding unmounts_def by blast
    then show ?thesis using Pair Inl by (cases "exec env [''mountpoint'', p] k")
      (simp add: loop_umount_once_def handleE_def on_kernel_def lift_error_def)
  next
    case (Inr y)
    with Pair show ?thesis by (simp add: loop_umount_once_def handleE_def on_kernel_def lift_error_def)
  qed
qed

lemma wired_Put_works:
  assumes env: "unmounts env" and run: "first_try run" "retrier_ok hview run" and nf: "no_faults w"
    and g: "g = wired_graph env run decompress r"
  shows "\<exists>w'. drv_Put (driver g) i w = (Inr (), w')"
proof -
  let ?cfg = "wired_cfg env run r"
  have keep: "no_faults w2" if "frame hview m" "m w1 = (x, w2)" "no_faults w1" for m :: "(('a, 'b) host_state_scheme, unit) prog" and w1 w2 x
    using frameD [OF that(1,2)] that(3) by (simp add: hview_def gview_def no_faults_def)
  obtain y w1 where put: "drv_Put (GraphDriver ?cfg) i w = (y, w1)" by (cases "drv_Put (GraphDriver ?cfg) i w")
  have parts: "graph_driver (GraphDriver ?cfg)" using aufs.graph_driver_axioms by (simp add: wired_cfg_def)
  have ignored: "ignoreE (drv_Put (GraphDriver ?cfg) i) w = (Inr (), w1)"
    by (rule ignoreE_calm [where m = "drv_Put (GraphDriver ?cfg) i", OF graph_driver.Put_calm [OF parts] put])
  have nf1: "no_faults w1"
    using frameD [OF graph_driver.Put_frame [OF parts] put] nf by (simp add: gview_def no_faults_def)
  obtain w2 where w2: "unmount_mnt env (makeMntPath ?cfg i) w1 = (Inr (), w2)"
    using unmount_mnt_works [OF env] by blast
  have nf2: "no_faults w2" by (rule keep [OF unmount_mnt_rules(1) w2 nf1])
  obtain w3 where w3: "loop_umount_once env (makeDiffPath ?cfg i) w2 = (Inr (), w3)"
    using loop_umount_works [OF env] by blast
  have nf3: "no_faults w3" by (rule keep [OF loop_umount_once_rules(1) w3 nf2])
  have "run (unmount_mnt env (makeMntPath ?cfg i)) w1 = (Inr (), w2)"
    "run (loop_umount_once env (makeDiffPath ?cfg i)) w2 = (Inr (), w3)"
    using run(1) w2 w3 unfolding first_try_def by blast+
  moreover have "\<exists>w4. backing_Delete (path_join [r, ''backing_stores'']) i w3 = (Inr (), w4)"
    using nf3 by (simp add: backing_Delete_def remove_all_def handleE_def bindE_def os_check_def no_faults_def modW_def)
  ultimately show ?thesis using ignored
    by (auto simp: g wired_graph_def quotaed_driver_def quotaed_Put_def wired_cfg_def loop_Unmount_def bindE_def handleE_def)
qed

lemma docker_Remove_works:
  assumes env: "unmounts env" and run: "first_try run" "retrier_ok hview run" and nf: "no_faults w"
    and g: "g = wired_graph env run decompress r"
    and inv: "graph_inv g w" and i: "GraphID i \<in> dom (graph_layers g w)"
  shows "fst (Remove (docker_cake g) i w) = Inr ()"
proof -
  obtain w1 where put: "drv_Put (driver g) (GraphID i) w = (Inr (), w1)"
    using wired_Put_works [OF env run nf g] by blast
  have "docker_store g" unfolding g by (rule wired_docker_store [OF run(2)])
  then have drv: "graph_driver (driver g)" by (simp add: docker_store_def)
  have view: "gview w1 = gview w" by (rule frameD [OF graph_driver.Put_frame [OF drv] put])
  have "no_faults w1" "GraphID i \<in> set (idIndex w1)" "graph_inv g w1"
    using view nf i inv graph_layers_dom [OF inv] graph_inv_cong [OF view] by (simp_all add: gview_eq no_faults_def)
  with graph_driver.graph_Delete_no_faults [OF drv, of g w1 "GraphID i"] put show ?thesis
    by (simp add: docker_cake_def docker_Remove_def bindE_def)
qed

text \<open>A server on which unmounting works.\<close>

definition unmounting_server :: "string \<Rightarrow> ('k, 'z) host_state_scheme graph \<Rightarrow> bool" where
  "unmounting_server r g \<longleftrightarrow> clean_abs r \<and> (\<exists>env run decompress. g = wired_graph env run decompress r \<and>
     unmounts env \<and> first_try run \<and> retrier_ok hview run)"

lemma unmounting_server_graph: "unmounting_server r g \<Longrightarrow> server_graph r g"
  unfolding unmounting_server_def server_graph_def by blast

lemma Remove_works:
  assumes server: "unmounting_server r g" and inv: "shed_inv g w" and i: "GraphID i \<in> dom (shed_layers g w)"
  shows "fst (Remove (wired_cake g runner r) i w) = Inr ()"
proof -
  note graph = unmounting_server_graph [OF server]
  have v: "ValidateID (GraphID i)"
    using i layer_store.valid_layers [OF shed_store [OF graph] inv] by blast
  have nf: "no_faults w" and gi: "graph_inv g w" using inv by (simp_all add: shed_inv_def host_inv_def meta_inv_def)
  have "GraphID i \<in> dom (graph_layers g w)" using i by (simp add: shed_layers_def)
  then have "fst (Remove (docker_cake g) i w) = Inr ()"
    using server docker_Remove_works [OF _ _ _ nf _ gi] unfolding unmounting_server_def by blast
  moreover obtain x w' where run: "Remove (wired_cake g runner r) i w = (x, w')" by (cases "Remove (wired_cake g runner r) i w")
  ultimately show ?thesis using Remove_shed [OF graph inv v run] by simp
qed

lemma Destroy_works:
  assumes server: "unmounting_server r g" and inv: "shed_inv g w"
    and c: "ordCake c = wired_cake g runner r" and i: "i \<noteq> []"
  shows "\<exists>w'. Destroy c i w = (Inr (), w') \<and> shed_inv g w' \<and> shed_layers g w' = (shed_layers g w)(shaID i := None)"
proof -
  note graph = unmounting_server_graph [OF server]
  obtain x w' where D: "Destroy c i w = (x, w')" by (cases "Destroy c i w")
  have "x = Inr ()"
  proof (cases "shed_layers g w (shaID i)")
    case (Some img)
    then have "Remove (wired_cake g runner r) (ContainerID i) w = (x, w')"
      using layer_store.Get_present [OF shed_store [OF graph] inv, of "ContainerID i"] D c
      by (simp add: Destroy_def handleE_def)
    with Remove_works [OF server inv, of "ContainerID i" runner] Some show ?thesis by auto
  next
    case None
    then show ?thesis
      using layer_store.Get_absent [OF shed_store [OF graph, of runner] inv, of "ContainerID i"] i D c
      by (auto simp: Destroy_def handleE_def ValidateID_shaID_iff)
  qed
  then show ?thesis using D Destroy_shed [OF graph inv c i D] by auto
qed

section \<open>Collecting\<close>

lemma GC_works:
  assumes server: "unmounting_server r g" and inv: "shed_inv g w"
  shows "\<exists>w'. GC (Check h) th (wired_cake g runner r) w = Some (Inr (), w')"
proof -
  note graph = unmounting_server_graph [OF server]
  from GC_shed [OF graph inv, of h th runner] obtain x w' e where
    run: "GC (Check h) th (wired_cake g runner r) w = Some (x, w')"
    and exceeded: "Exceeded th (wired_cake g runner r) w = (Inr e, w)" by blast
  from layer_store.collection_succeeds [OF shed_store [OF graph] Remove_works [OF server] inv exceeded run] run
  show ?thesis by simp
qed

section \<open>An example host\<close>

text \<open>The table of mount points of the examples, and the repository's own retrier.\<close>

lemma unmounts_sample: "unmounts sample_env"
  by (auto simp: unmounts_def sample_env_def sample_exec_def mount_point_of_def split: if_splits)

lemma first_try_shed: "first_try (shed_retrier tick)"
proof -
  have "nat (sint (word_of_int (sint (100000000000 :: int64) sdiv sint (500000000 :: int64)) :: int64)) = 200"
    by code_simp
  then show ?thesis
    by (simp add: first_try_def shed_retrier_def Retry_def retry_loop_success [where k = 0])
qed

lemma sample_unmounting: "unmounting_server garden_root sample_graph"
  unfolding unmounting_server_def using clean_garden_root unmounts_sample first_try_shed shed_retrier_ok by blast

text \<open>
  The example server on a host whose driver has its directory of layers, with the directory
  \<open>/rootfs\<close> in the store.
\<close>

definition rootfs_id :: string where
  "rootfs_id = GraphID (LocalImageID ''/rootfs'' (0, 0))"

definition rootfs_image :: image where
  "rootfs_image = empty_image\<lparr>ID := rootfs_id, Size := 7\<rparr>"

abbreviation garden_aufs :: string where
  "garden_aufs \<equiv> path_join [garden_root, ''aufs'']"

definition live_files :: "string \<rightharpoonup> inode" where
  "live_files = [''/rootfs'' \<mapsto> new_inode Directory, path_join [garden_aufs, ''layers''] \<mapsto> new_inode Directory,
     layers_file garden_root rootfs_id \<mapsto> new_inode (Regular [])]"

abbreviation live_host :: "mounts host_state" where
  "live_host \<equiv> host_of live_files [rootfs_image]"

lemma healthy_sample: "healthy sample_env"
  unfolding healthy_def sample_env_def by auto

lemma rootfs_valid [simp]: "ValidateID rootfs_id"
  unfolding rootfs_id_def by (rule GraphID_local_valid)

lemma abc_not_rootfs: "shaID ''abc'' \<noteq> rootfs_id"
proof -
  have "sha256_hex ''/rootfs-0'' = ''e4fca73560e36512fc70c88e9e10164a1e018fe48f755d8aa1dca343860fe4a0''"
    by code_simp
  moreover have "show_nat 0 = ''0''" by code_simp
  ultimately show ?thesis by (simp add: shaID_def sha256_one_block rootfs_id_def nanosecond_def)
qed

lemma live_files_kinds:
  assumes "live_files q = Some j"
  shows "q = ''/rootfs'' \<or> outside garden_root q"
    and "kind j = Directory \<or> q = layers_file garden_root rootfs_id \<and> kind j = Regular []"
proof -
  have "outside garden_root (path_join [garden_aufs, ''layers''])"
    by (rule outside_below(1) [OF clean_garden_root]) simp_all
  moreover have "outside garden_root (layers_file garden_root rootfs_id)"
    by (rule outside_below(2) [OF clean_garden_root]) (simp_all add: ValidateID_plain_name)
  ultimately show "q = ''/rootfs'' \<or> outside garden_root q"
    using assms by (auto simp: live_files_def split: if_splits)
  show "kind j = Directory \<or> q = layers_file garden_root rootfs_id \<and> kind j = Regular []"
    using assms by (auto simp: live_files_def new_inode_def split: if_splits)
qed

lemma rootfs_apart: "\<not> meta_path garden_root ''/rootfs''" "\<not> outside garden_root ''/rootfs''"
proof -
  have comps: "cs = [''var'', ''vcap'', ''data'', ''garden'', ''aufs_graph'']"
    if "garden_root = abs_path cs" "list_all plain_name cs" for cs
  proof -
    have "abs_path cs = abs_path [''var'', ''vcap'', ''data'', ''garden'', ''aufs_graph'']"
      using that(1) by (simp add: abs_path_def)
    then show ?thesis using abs_path_inject [OF that(2)] by (simp add: plain_name_def)
  qed
  have rootfs: "qs = [''rootfs'']" if "''/rootfs'' = abs_path qs" "list_all plain_name qs" for qs
  proof -
    have "abs_path qs = abs_path [''rootfs'']" using that(1) by (simp add: abs_path_def)
    then show ?thesis using abs_path_inject [OF that(2)] by (simp add: plain_name_def)
  qed
  show "\<not> meta_path garden_root ''/rootfs''"
  proof
    assume "meta_path garden_root ''/rootfs''"
    then obtain cs qs ys where q: "garden_root = abs_path cs" "list_all plain_name cs" "''/rootfs'' = abs_path qs"
      "list_all plain_name qs" "prefix qs (cs @ ''garden-info'' # ys)"
      by (rule meta_path_comps [OF clean_garden_root])
    show False using q(5) unfolding comps [OF q(1,2)] rootfs [OF q(3,4)] by simp
  qed
  show "\<not> outside garden_root ''/rootfs''"
  proof
    assume "outside garden_root ''/rootfs''"
    then obtain cs x ds where q: "garden_root = abs_path cs" "list_all plain_name (cs @ x # ds)"
      "''/rootfs'' = abs_path (cs @ x # ds)"
      unfolding outside_def by blast
    then have "cs @ x # ds = [''rootfs'']" using rootfs by blast
    moreover have "cs = [''var'', ''vcap'', ''data'', ''garden'', ''aufs_graph'']" using comps q(1,2) by simp
    ultimately show False by simp
  qed
qed

lemma live_rootfs: "live_files ''/rootfs'' = Some (new_inode Directory)"
proof -
  have "outside garden_root (path_join [garden_aufs, ''layers''])" "outside garden_root (layers_file garden_root rootfs_id)"
    by (rule outside_below [OF clean_garden_root]; simp add: ValidateID_plain_name)+
  then have "path_join [garden_aufs, ''layers''] \<noteq> ''/rootfs''" "layers_file garden_root rootfs_id \<noteq> ''/rootfs''"
    using rootfs_apart(2) by metis+
  then show ?thesis by (simp add: live_files_def)
qed

lemma live_no_meta: "no_meta garden_root live_files"
proof -
  have "live_files q = None" if "meta_path garden_root q" for q
    using live_files_kinds(1) [of q] outside_meta_path [OF clean_garden_root _ that] rootfs_apart(1) that
    by (cases "live_files q") auto
  then show ?thesis
    using live_files_kinds(2) unfolding no_meta_def meta_path_def by fastforce
qed

lemma live_store:
  "shed_inv sample_graph live_host" "shed_layers sample_graph live_host = [rootfs_id \<mapsto> rootfs_image]"
proof -
  have a: "distinct (map ID [rootfs_image])" "\<forall>im \<in> set [rootfs_image]. plain_image im"
    by (simp_all add: rootfs_image_def plain_image_def empty_image_def)
  have r: "no_meta (root sample_graph) live_files" using live_no_meta by (simp add: wired_graph_def)
  show "shed_inv sample_graph live_host" by (rule shed_host_of(1) [OF a r])
  show "shed_layers sample_graph live_host = [rootfs_id \<mapsto> rootfs_image]"
    unfolding shed_host_of(2) [OF a r] by (simp add: rootfs_image_def)
qed

lemma live_ready:
  assumes i: "ValidateID i" "i \<noteq> rootfs_id"
  shows "ready_for garden_aufs rootfs_id (lines_text []) i live_host"
proof -
  note a = info_dir_aufs [OF clean_garden_root]
  note names = i(1) [THEN ValidateID_plain_name] rootfs_valid [THEN ValidateID_plain_name]
  note apart = layer_paths_apart [OF a _ _ names, of _ "''layers''"]
  have free: "free_or_dir live_host q" if "q \<noteq> layers_file garden_root rootfs_id" for q
    using live_files_kinds(2) [of q] that by (auto simp: free_or_dir_def split: option.split)
  have dirs: "dir_ready (path_join [garden_aufs, d, i]) live_host" if "plain_name d" "d \<noteq> ''layers''" for d
    unfolding dir_ready_def
    using free layer_paths_apart(3) [OF a _ that(1) names(2,1), of "''layers''"] that(2)
    by (auto simp: in_tree_def)
  have list: "outside garden_root (layers_file garden_root j)" "layers_file garden_root j \<noteq> path_join [garden_aufs, ''layers'']"
    if "ValidateID j" for j
  proof -
    note j = ValidateID_plain_name [OF that]
    show "outside garden_root (layers_file garden_root j)"
      by (rule outside_below(2) [OF clean_garden_root j]) simp_all
    show "layers_file garden_root j \<noteq> path_join [garden_aufs, ''layers'']"
      using layer_paths_apart(2) [OF a _ _ j plain_removing [OF j], of "''layers''" "''layers''"]
      by (auto simp: in_tree_def)
  qed
  show ?thesis unfolding ready_for_def
  proof (intro conjI allI impI)
    show "is_dir_at (files live_host) (path_join [garden_aufs, ''layers''])"
      using list(2) [OF rootfs_valid] by (simp add: is_dir_at_def live_files_def new_inode_def)
    show "content live_host (path_join [garden_aufs, ''layers'', rootfs_id]) = Some (lines_text [])"
      by (simp add: content_def live_files_def new_inode_def)
    have "layers_file garden_root i \<noteq> layers_file garden_root rootfs_id"
      using layer_paths_apart(1) [OF a _ _ names, of "''layers''" "''layers''"] i(2) by (auto simp: in_tree_def)
    moreover have "layers_file garden_root i \<noteq> ''/rootfs''" using list(1) [OF i(1)] rootfs_apart(2) by metis
    ultimately have "live_files (layers_file garden_root i) = None"
      using list(2) [OF i(1)] by (simp add: live_files_def)
    then show "\<exists>t. text_at live_host (path_join [garden_aufs, ''layers'', i]) t" by (auto simp: text_at_def)
    fix q assume "below (path_join [garden_aufs, ''mnt'', i]) q"
    then have "q \<noteq> layers_file garden_root rootfs_id"
      using layer_paths_apart(1) [OF a _ _ names, of "''mnt''" "''layers''"] by (auto simp: in_tree_def)
    then show "free_or_dir live_host q" by (rule free)
  qed (simp_all add: dirs)
qed

text \<open>Creating the layers of a container on that host succeeds.\<close>

definition live_fetched :: fetched where
  "live_fetched = \<lparr>ImageID = rootfs_id, ImgEnv = [], ImgVolumes = [''/data''], ImgSize = 0\<rparr>"

lemma live_fetched [simp]: "ImageID live_fetched = rootfs_id" "ImgEnv live_fetched = []"
  "list_all volume_name (ImgVolumes live_fetched)"
  by (simp_all add: live_fetched_def volume_name_data)

lemma live_creation:
  "\<exists>w'. LayerCreator_Create (wired_creator sample_cake n) ''abc'' live_fetched plain_spec live_host =
    (Inr (path_join [garden_aufs, ''mnt'', shaID ''abc''], []), w')"
proof -
  have valid: "ValidateID (shaID ''abc'')" by (simp add: ValidateID_shaID_iff)
  have inv: "graph_inv sample_graph live_host" using live_store(1) by (simp add: shed_inv_def host_inv_def)
  have "dom (graph_layers sample_graph live_host) = dom (shed_layers sample_graph live_host)"
    by (simp add: shed_layers_def)
  then have new: "shaID ''abc'' \<notin> dom (graph_layers sample_graph live_host)"
    using abc_not_rootfs by (simp add: live_store(2))
  show ?thesis
    using LayerCreator_ready [OF refl clean_garden_root inv healthy_sample, of "''abc''" live_fetched plain_spec "[]"]
      live_ready [OF valid abc_not_rootfs] abc_not_rootfs new
    by (simp add: wired_cake_shed [OF sample_server] plain_spec_def sample_spec_def)
qed

text \<open>What a collection of the two layers of \<open>two_layers\<close> can leave.\<close>

lemma below_two_layers:
  assumes "M \<subseteq>\<^sub>m [base_id \<mapsto> base_image, top_id \<mapsto> top_image]"
  shows "M j \<in> {None, [base_id \<mapsto> base_image, top_id \<mapsto> top_image] j}"
proof (cases "M j")
  case (Some img)
  then have "j \<in> dom M" by blast
  with assms have "M j = [base_id \<mapsto> base_image, top_id \<mapsto> top_image] j" unfolding map_le_def by blast
  then show ?thesis by blast
qed blast

lemma collected_two_layers:
  assumes "M \<subseteq>\<^sub>m [base_id \<mapsto> base_image, top_id \<mapsto> top_image]"
    and "\<forall>j. leaf M j \<longrightarrow> pinned H M j" and "top_id \<notin> H"
  shows "M top_id = None" and "\<not> pinned H M base_id \<Longrightarrow> M = Map.empty"
    and "M base_id = Some base_image \<Longrightarrow> leaf M base_id"
proof -
  note one = below_two_layers [OF assms(1)]
  have other: "M j = None" if "j \<noteq> base_id" "j \<noteq> top_id" for j using one [of j] that by simp
  have b: "M base_id = None \<or> M base_id = Some base_image" using one [of base_id] by simp
  have t: "M top_id = None \<or> M top_id = Some top_image" using one [of top_id] by simp
  have kids: "j = base_id \<and> Parent img = [] \<or> j = top_id \<and> Parent img = base_id" if "M j = Some img" for j img
  proof (cases "j = base_id")
    case True
    with b that show ?thesis by simp
  next
    case False
    with other [of j] that have "j = top_id" by auto
    with t that show ?thesis by simp
  qed
  show top: "M top_id = None"
  proof (rule ccontr)
    assume "M top_id \<noteq> None"
    with t have "M top_id = Some top_image" by blast
    then have dom: "top_id \<in> dom M" and "\<not> pinned H M top_id" using assms(3) by (auto simp: pinned_def)
    moreover have "leaf M top_id" unfolding leaf_def
    proof (intro conjI allI impI)
      show "Parent img \<noteq> top_id" if "M j = Some img" for j img
        using kids [OF that] by (elim disjE conjE) simp_all
    qed (rule dom)
    ultimately show False using assms(2) by blast
  qed
  have leaf: "leaf M base_id" if "M base_id = Some base_image"
    unfolding leaf_def
  proof (intro conjI allI impI)
    show "base_id \<in> dom M" using that by blast
    show "Parent img \<noteq> base_id" if "M j = Some img" for j img
      using kids [OF that]
    proof (elim disjE conjE)
      assume "j = top_id"
      with top that show ?thesis by simp
    qed (simp del: sample_ids(5), use sample_ids(5) in metis)
  qed
  then show "M base_id = Some base_image \<Longrightarrow> leaf M base_id" .
  show "M = Map.empty" if "\<not> pinned H M base_id"
  proof
    fix j
    have "M base_id = None" using b leaf assms(2) that by blast
    with top other show "M j = None" by (cases "j = base_id"; cases "j = top_id") simp_all
  qed
qed

end
