(* ===== verification/Volume_Escape.thy ===== *)
theory Volume_Escape
  imports Server Sample_Worlds
begin

text \<open>
  What a volume whose name climbs out of the container's root does to the store.  The names of the
  volumes come from the image (\<open>src/rootfs_provider/layer_creator.go\<close>) and
  \<open>src/rootfs_provider/volume_creator.go\<close> does not check them, so that the assumption on the volumes of
  a server (\<open>plain_volumes\<close> in \<open>Server\<close>) is needed: an image can name the place where the aufs cake
  keeps the record of another layer.
\<close>

text \<open>The volume that leads from the root of a container to the record of a layer.\<close>

definition record_volume :: "string \<Rightarrow> string" where
  "record_volume i = ''../../../garden-info/child-parent/'' @ i"

lemma split_record_volume:
  assumes "plain_name i"
  shows "split_on slash (record_volume i) = [''..'', ''..'', ''..'', ''garden-info'', ''child-parent'', i]"
proof -
  have "record_volume i = ''..'' @ slash # ''..'' @ slash # ''..'' @ slash # ''garden-info'' @ slash # ''child-parent'' @ slash # i"
    by (simp add: record_volume_def)
  moreover have "slash \<notin> set i" using assms by (simp add: plain_name_def)
  ultimately show ?thesis by (simp only: split_on_concat) (simp add: split_on_notin)
qed

lemma record_volume_path:
  assumes r: "clean_abs r" and names: "plain_name c" "plain_name i"
  shows "path_join [path_join [path_join [r, ''aufs''], ''mnt'', c], record_volume i] = child_file r i"
proof (rule meta_files [OF r])
  fix cs
  assume cs: "list_all plain_name cs" "r = abs_path cs"
    and child: "\<And>i. plain_name i \<Longrightarrow> child_file r i = abs_path (cs @ [''garden-info'', ''child-parent'', i])"
  have n: "plain_name ''aufs''" "plain_name ''mnt''" by (simp_all add: plain_name_def)
  have root: "path_join [path_join [r, ''aufs''], ''mnt'', c] = abs_path (cs @ [''aufs'', ''mnt'', c])"
    using cs names(1) n by (simp add: path_join_plain path_join_plain2)
  let ?cs = "cs @ [''aufs'', ''mnt'', c]"
  have plain: "list_all plain_name ?cs" using cs(1) names(1) n by simp
  have "path_join [abs_path ?cs, record_volume i] = path_clean (abs_path ?cs @ slash # record_volume i)"
    by (simp add: path_join_def abs_path_def)
  also have "\<dots> = abs_path (clean_comps True [] (split_on slash (abs_path ?cs @ slash # record_volume i)))"
    by (simp add: path_clean_def is_abs_def abs_path_def)
  also have "split_on slash (abs_path ?cs @ slash # record_volume i) = [] # ?cs @ split_on slash (record_volume i)"
    unfolding split_on_concat split_abs_path [OF plain] by simp
  also have "clean_comps True [] ([] # ?cs @ split_on slash (record_volume i)) =
      clean_comps True (rev ?cs) (split_on slash (record_volume i))"
    using clean_comps_push [OF plain, of True "[]"] by simp
  also have "\<dots> = cs @ [''garden-info'', ''child-parent'', i]"
    unfolding split_record_volume [OF names(2)] using names plain by (simp add: plain_name_def)
  finally show ?thesis using root child [OF names(2)] by simp
qed

text \<open>The way to that place is free when the layer has no record.\<close>

lemma dir_ready_child:
  assumes r: "clean_abs r" and i: "plain_name i" and ready: "dir_ready (childParentDir r) w"
    and free: "files w (child_file r i) = None"
  shows "dir_ready (child_file r i) w"
proof (rule meta_files [OF r])
  fix cs
  assume cs: "list_all plain_name cs" and dir: "childParentDir r = abs_path (cs @ [''garden-info'', ''child-parent''])"
    and child: "\<And>i. plain_name i \<Longrightarrow> child_file r i = abs_path (cs @ [''garden-info'', ''child-parent'', i])"
  let ?d = "cs @ [''garden-info'', ''child-parent'']"
  have plain: "list_all plain_name ?d" "list_all plain_name (?d @ [i])" using cs i by simp_all
  have f: "child_file r i = abs_path (?d @ [i])" using child [OF i] by simp
  show ?thesis unfolding dir_ready_def
  proof
    fix q assume "q \<in> set (path_prefixes (child_file r i))"
    then obtain c where c: "c \<noteq> []" "prefix c (?d @ [i])" "q = abs_path c"
      unfolding f using path_prefixes_abs [OF plain(2)] by auto
    show "free_or_dir w q"
    proof (cases "c = ?d @ [i]")
      case True
      with c(3) f free show ?thesis by (simp add: free_or_dir_def)
    next
      case False
      with c(2) have "prefix c ?d" by (simp only: prefix_snoc) simp
      with c(1,3) have "q \<in> set (path_prefixes (childParentDir r))"
        unfolding dir using path_prefixes_abs [OF plain(1)] by blast
      with ready show ?thesis by (simp add: dir_ready_def)
    qed
  qed
qed

lemma child_not_root:
  assumes "clean_abs r" and "plain_name i"
  shows "child_file r i \<noteq> ''/''"
proof (rule meta_files [OF assms(1)])
  fix cs
  assume cs: "list_all plain_name cs"
    and child: "\<And>i. plain_name i \<Longrightarrow> child_file r i = abs_path (cs @ [''garden-info'', ''child-parent'', i])"
  have "abs_path (cs @ [''garden-info'', ''child-parent'', i]) \<noteq> abs_path []"
    using cs assms(2) by (subst abs_path_inject) simp_all
  then show ?thesis using child [OF assms(2)] by (simp add: abs_path_def [of "[]"])
qed

text \<open>A layer without any parent has no record.\<close>

lemma no_record:
  assumes "shed_inv g w" and "shed_layers g w i = Some img" and "Parent img = []" and "ValidateID i" and "ID img = i"
  shows "files w (child_file (root g) i) = None" and "graph_layers g w i = Some img"
proof -
  obtain im where im: "graph_layers g w i = Some im" "img = aufs_image (root g) w im"
    using assms(2) by (auto simp: shed_layers_def aufs_layers_def)
  with assms(5) have id: "ID im = i" by simp
  have none: "Parent im = []" "recorded_parent (root g) w i = []"
    using assms(3) id by (auto simp: im(2) aufs_image_def split: if_splits)
  have "child_ok (root g) (graph_layers g w) w i" using assms(1,4) by (simp add: shed_inv_def meta_inv_def)
  then show "files w (child_file (root g) i) = None"
    by (rule child_cases) (use none(2) ValidateID_nonempty in auto)
  show "graph_layers g w i = Some img" using im none id by (simp add: aufs_image_def)
qed

section \<open>A volume that takes a layer out of use\<close>

text \<open>
  C39: A volume that climbs out of the root can break the store.  For every layer without a parent and
  every container, the volume \<open>../../../garden-info/child-parent/\<close> with the ID of the layer is made
  without an error, as an empty directory in the place of the layer's record; after that the
  invariant does not hold, and \<open>Get\<close> of that layer, which gave its image before, is an error.
\<close>

theorem volume_breaks_store:
  assumes "server_graph r g" and "shed_inv g w" and "shed_layers g w i = Some img" and "Parent img = []"
    and "c \<noteq> []"
  shows "Get (wired_cake g runner r) (DockerImageID i) w = (Inr img, w) \<and>
    (\<exists>w'. SimpleVolumeCreator_Create (path_join [path_join [r, ''aufs''], ''mnt'', shaID c]) (record_volume i) w =
        (Inr (), w') \<and> \<not> shed_inv g w' \<and>
      (\<exists>e. Get (wired_cake g runner r) (DockerImageID i) w' = (Inl (Err e), w')))"
proof -
  note store = shed_store [OF assms(1), of runner]
  have valid: "ValidateID i" "ID img = i" using layer_store.valid_layers [OF store assms(2,3)] by simp_all
  have rt: "root g = r" and r: "clean_abs r" using assms(1) by (auto simp: root_server elim: server_graphE)
  note free = no_record [OF assms(2,3,4) valid, unfolded rt]
  have nf: "no_faults w" and ready: "dir_ready (childParentDir r) w" and inv: "graph_inv g w"
    using assms(2) by (simp_all add: shed_inv_def meta_inv_def host_inv_def rt)
  let ?f = "child_file r i"
  have names: "plain_name i" "plain_name (shaID c)"
    using valid(1) assms(5) by (simp_all add: ValidateID_plain_name ValidateID_shaID_iff)
  note path = record_volume_path [OF r names(2,1)]
  have clean: "clean_abs ?f" by (rule clean_meta(4) [OF r names(1)])
  have own: "?f \<in> set (path_prefixes ?f)"
    by (rule own_prefix [OF clean child_not_root [OF r names(1)]])
  note dir = dir_ready_child [OF r names(1) ready free(1)]
  let ?w' = "fill_dirs (path_prefixes ?f) w"
  have made: "SimpleVolumeCreator_Create (path_join [path_join [r, ''aufs''], ''mnt'', shaID c]) (record_volume i) w = (Inr (), ?w')"
    using SimpleVolumeCreator_dir [OF nf, of "path_join [path_join [r, ''aufs''], ''mnt'', shaID c]" "record_volume i"]
    unfolding path using clean dir own by simp
  have there: "files ?w' ?f = Some (new_inode Directory)" using own free(1) by (simp add: fill_dirs_def)
  have "\<not> child_ok r L ?w' i" for L using there by (simp add: child_ok_def content_def new_inode_def)
  then have broken: "\<not> shed_inv g ?w'" using valid(1) by (auto simp: shed_inv_def meta_inv_def rt)
  have view: "gview ?w' = gview w" by (simp add: gview_def fill_dirs_def)
  have get: "Get (docker_cake g) (DockerImageID i) ?w' = (Inr img, ?w')"
    using graph_Get_present [of g ?w' i img] inv free(2) graph_inv_cong [OF view] graph_layers_cong [OF view]
    by (simp add: docker_cake_def docker_Get_def)
  have "not_link ?w' ?f" using there by (simp add: not_link_def new_inode_def)
  from real_path_ok [OF clean this] have "read_file ?f ?w' = (Inl (Err (Errorf (''read '' @ ?f @ '': is a directory''))), ?w')"
    using nf there by (simp add: read_file_def bindE_def new_inode_def)
  then have "\<exists>e. aufs_cake_Get (docker_cake g) r (DockerImageID i) ?w' = (Inl (Err e), ?w')"
    using get assms(4) by (simp add: aufs_cake_Get_def readInfo_def bindE_def handleE_def throw_def)
  then have "\<exists>e. Get (wired_cake g runner r) (DockerImageID i) ?w' = (Inl (Err e), ?w')"
    by (simp add: wired_cake_shed [OF assms(1)] aufs_cake_def)
  with made broken layer_store.Get_present [OF store assms(2), of "DockerImageID i"] assms(3) show ?thesis by auto
qed

lemma volume_breaks_store_witness:
  "\<exists>w' e. SimpleVolumeCreator_Create (path_join [path_join [garden_root, ''aufs''], ''mnt'', shaID ''web'']) (record_volume base_id) two_layers =
      (Inr (), w') \<and> Get sample_cake (DockerImageID base_id) w' = (Inl (Err e), w')"
  using volume_breaks_store [OF sample_server two_layers(1), of base_id base_image "''web''" "\<lambda>_. ret ()"] by auto

end
