(* ===== verification/Fetch_Lock.thy ===== *)
theory Fetch_Lock
  imports Prelude
begin

text \<open>
  The per-key lock of \<open>src/repository_fetcher/fetch_lock.go\<close>, under any interleaving of the
  goroutines that use it.

  A \<open>sync.Mutex\<close> of the map is a number; \<open>lockOwner\<close> says which thread has locked it, \<open>mapOwner\<close>
  which thread has locked the mutex that guards the map.  The program counter of a thread is its
  place in \<open>Acquire\<close> or \<open>Release\<close>; each blocking call is a step that is enabled only when the
  mutex is free.  A thread releases the keys it has acquired and no others, as \<open>fetchLayer\<close> does
  with its deferred call.
\<close>

type_synonym thread = nat

datatype pc =
    Idle
  | WantMap string
  | InAcquire string
  | WantKey string nat
  | Holds string nat
  | WantMapR string
  | InRelease string
  | WantUnlock string nat

record lock_state =
  locks :: "string \<rightharpoonup> nat"
  nextLock :: nat
  mapOwner :: "thread option"
  lockOwner :: "nat \<rightharpoonup> thread"
  pcs :: "thread \<Rightarrow> pc"

definition NewFetchLock :: lock_state where
  "NewFetchLock = \<lparr>locks = Map.empty, nextLock = 0, mapOwner = None, lockOwner = Map.empty,
     pcs = (\<lambda>_. Idle)\<rparr>"

definition goto :: "thread \<Rightarrow> pc \<Rightarrow> lock_state \<Rightarrow> lock_state" where
  "goto t p s = s\<lparr>pcs := (pcs s)(t := p)\<rparr>"

text \<open>The body of \<open>Acquire\<close> between locking and unlocking the map: look up or make the mutex.\<close>

definition acquire_lookup :: "string \<Rightarrow> lock_state \<Rightarrow> nat \<times> lock_state" where
  "acquire_lookup k s = (case locks s k of
     Some l \<Rightarrow> (l, s)
   | None \<Rightarrow> (nextLock s, s\<lparr>locks := (locks s)(k \<mapsto> nextLock s), nextLock := Suc (nextLock s)\<rparr>))"

text \<open>The body of \<open>Release\<close> after its look-up: the error, or the mutex to unlock.\<close>

definition release_lookup :: "string \<Rightarrow> lock_state \<Rightarrow> go_error + nat" where
  "release_lookup k s = (case locks s k of
     Some l \<Rightarrow> Inr l
   | None \<Rightarrow> Inl (Errorf (''repository_fetcher: releasing lock: no lock for key: '' @ k)))"

inductive lock_step :: "lock_state \<Rightarrow> lock_state \<Rightarrow> bool" where
  Acquire_call: "pcs s t = Idle \<Longrightarrow> lock_step s (goto t (WantMap k) s)"
| Acquire_lock_map: "pcs s t = WantMap k \<Longrightarrow> mapOwner s = None \<Longrightarrow>
    lock_step s (goto t (InAcquire k) (s\<lparr>mapOwner := Some t\<rparr>))"
| Acquire_unlock_map: "pcs s t = InAcquire k \<Longrightarrow> acquire_lookup k s = (l, s') \<Longrightarrow>
    lock_step s (goto t (WantKey k l) (s'\<lparr>mapOwner := None\<rparr>))"
| Acquire_lock_key: "pcs s t = WantKey k l \<Longrightarrow> lockOwner s l = None \<Longrightarrow>
    lock_step s (goto t (Holds k l) (s\<lparr>lockOwner := (lockOwner s)(l \<mapsto> t)\<rparr>))"
| Release_call: "pcs s t = Holds k l \<Longrightarrow> lock_step s (goto t (WantMapR k) s)"
| Release_lock_map: "pcs s t = WantMapR k \<Longrightarrow> mapOwner s = None \<Longrightarrow>
    lock_step s (goto t (InRelease k) (s\<lparr>mapOwner := Some t\<rparr>))"
| Release_unlock_map: "pcs s t = InRelease k \<Longrightarrow> release_lookup k s = Inr l \<Longrightarrow>
    lock_step s (goto t (WantUnlock k l) (s\<lparr>mapOwner := None\<rparr>))"
| Release_error: "pcs s t = InRelease k \<Longrightarrow> release_lookup k s = Inl e \<Longrightarrow>
    lock_step s (goto t Idle (s\<lparr>mapOwner := None\<rparr>))"
| Release_unlock_key: "pcs s t = WantUnlock k l \<Longrightarrow>
    lock_step s (goto t Idle (s\<lparr>lockOwner := (lockOwner s)(l := None)\<rparr>))"

inductive lock_reachable :: "lock_state \<Rightarrow> bool" where
  init: "lock_reachable NewFetchLock"
| step: "lock_reachable s \<Longrightarrow> lock_step s s' \<Longrightarrow> lock_reachable s'"

text \<open>The key a thread holds: from the end of \<open>Acquire\<close> to the end of \<open>Release\<close>.\<close>

fun holding :: "pc \<Rightarrow> string option" where
  "holding (Holds k _) = Some k"
| "holding (WantMapR k) = Some k"
| "holding (InRelease k) = Some k"
| "holding (WantUnlock k _) = Some k"
| "holding _ = None"

fun in_map :: "pc \<Rightarrow> bool" where
  "in_map (InAcquire _) = True"
| "in_map (InRelease _) = True"
| "in_map _ = False"

section \<open>The invariant\<close>

definition owns :: "lock_state \<Rightarrow> thread \<Rightarrow> string \<Rightarrow> bool" where
  "owns s t k \<longleftrightarrow> (\<exists>l. locks s k = Some l \<and> lockOwner s l = Some t)"

definition pc_ok :: "lock_state \<Rightarrow> thread \<Rightarrow> pc \<Rightarrow> bool" where
  "pc_ok s t p \<longleftrightarrow> (case p of
       WantKey k l \<Rightarrow> locks s k = Some l
     | Holds k l \<Rightarrow> locks s k = Some l
     | WantUnlock k l \<Rightarrow> locks s k = Some l
     | _ \<Rightarrow> True) \<and> (\<forall>k. holding p = Some k \<longrightarrow> owns s t k)"

definition lock_inv :: "lock_state \<Rightarrow> bool" where
  "lock_inv s \<longleftrightarrow>
     (\<forall>k l. locks s k = Some l \<longrightarrow> l < nextLock s) \<and>
     (\<forall>j k l. locks s j = Some l \<longrightarrow> locks s k = Some l \<longrightarrow> j = k) \<and>
     (\<forall>t. mapOwner s = Some t \<longleftrightarrow> in_map (pcs s t)) \<and>
     (\<forall>t. pc_ok s t (pcs s t)) \<and>
     (\<forall>l t. lockOwner s l = Some t \<longrightarrow> (\<exists>k. locks s k = Some l \<and> holding (pcs s t) = Some k))"

lemma lock_invI:
  assumes "\<And>k l. locks s k = Some l \<Longrightarrow> l < nextLock s"
    and "\<And>j k l. locks s j = Some l \<Longrightarrow> locks s k = Some l \<Longrightarrow> j = k"
    and "\<And>t. mapOwner s = Some t \<longleftrightarrow> in_map (pcs s t)"
    and "\<And>t. pc_ok s t (pcs s t)"
    and "\<And>l t. lockOwner s l = Some t \<Longrightarrow> \<exists>k. locks s k = Some l \<and> holding (pcs s t) = Some k"
  shows "lock_inv s"
  using assms unfolding lock_inv_def by blast

lemma lock_inv_fresh: "lock_inv s \<Longrightarrow> locks s k = Some l \<Longrightarrow> l < nextLock s"
  by (simp add: lock_inv_def)

lemma lock_inv_inj: "lock_inv s \<Longrightarrow> locks s j = Some l \<Longrightarrow> locks s k = Some l \<Longrightarrow> j = k"
  unfolding lock_inv_def by blast

lemma lock_inv_map: "lock_inv s \<Longrightarrow> mapOwner s = Some t \<longleftrightarrow> in_map (pcs s t)"
  by (simp add: lock_inv_def)

lemma pc_ok_now: "lock_inv s \<Longrightarrow> pc_ok s t (pcs s t)"
  by (simp add: lock_inv_def)

lemma lock_inv_owner:
  assumes "lock_inv s" and "lockOwner s l = Some t"
  obtains k where "locks s k = Some l" and "holding (pcs s t) = Some k"
  using assms unfolding lock_inv_def by blast

lemma lock_inv_init: "lock_inv NewFetchLock"
  by (simp add: lock_inv_def NewFetchLock_def pc_ok_def)

lemma owns_frame [simp]:
  "owns (s\<lparr>pcs := f\<rparr>) t k = owns s t k" "owns (s\<lparr>mapOwner := m\<rparr>) t k = owns s t k"
  by (simp_all add: owns_def)

text \<open>A step of one thread that changes only its program counter and the owner of the map.\<close>

lemma lock_inv_goto:
  assumes inv: "lock_inv s" and map: "(m = None \<and> \<not> in_map p \<and> (in_map (pcs s t) \<or> mapOwner s = None)) \<or>
      (m = Some t \<and> in_map p \<and> mapOwner s = None) \<or> (m = mapOwner s \<and> \<not> in_map p \<and> \<not> in_map (pcs s t))"
    and holds: "holding p = holding (pcs s t)" and ok: "pc_ok s t p"
  shows "lock_inv (goto t p (s\<lparr>mapOwner := m\<rparr>))"
proof -
  let ?s = "goto t p (s\<lparr>mapOwner := m\<rparr>)"
  have fields [simp]: "locks ?s = locks s" "nextLock ?s = nextLock s" "lockOwner ?s = lockOwner s"
    "mapOwner ?s = m" "pcs ?s = (pcs s)(t := p)"
    by (simp_all add: goto_def)
  have pc_ok: "pc_ok ?s u q = pc_ok s u q" for u q
    by (cases q) (simp_all add: pc_ok_def owns_def)
  have one: "u = t" if "mapOwner s = Some t" "in_map (pcs s u)" for u
    using inv that by (auto simp: lock_inv_def)
  have owner: "mapOwner s = Some u \<longleftrightarrow> in_map (pcs s u)" for u
    using inv by (simp add: lock_inv_def)
  have "m = Some u \<longleftrightarrow> in_map (((pcs s)(t := p)) u)" for u
    using map owner [of t] owner [of u] one [of u] by (cases "u = t") auto
  moreover have "holding (((pcs s)(t := p)) u) = holding (pcs s u)" for u
    using holds by simp
  moreover have "pc_ok s u (((pcs s)(t := p)) u)" for u
    using inv ok by (simp add: lock_inv_def)
  ultimately show ?thesis using inv unfolding lock_inv_def by (simp only: fields pc_ok) simp
qed

lemma lock_inv_new:
  assumes inv: "lock_inv s" and k: "locks s k = None"
  shows "lock_inv (s\<lparr>locks := (locks s)(k \<mapsto> nextLock s), nextLock := Suc (nextLock s)\<rparr>)"
    (is "lock_inv ?s")
proof (rule lock_invI)
  have old: "j \<noteq> k" "l < nextLock s" if "locks s j = Some l" for j l
    using lock_inv_fresh [OF inv that] k that by auto
  have owns: "owns ?s t j" if "owns s t j" for t j
    using that old(1) by (auto simp: owns_def)
  show "l < nextLock ?s" if "locks ?s j = Some l" for j l
    using that old(2) by (auto split: if_splits simp: less_Suc_eq)
  show "i = j" if "locks ?s i = Some l" "locks ?s j = Some l" for i j l
    using that old lock_inv_inj [OF inv] by (auto split: if_splits dest: old(2))
  show "mapOwner ?s = Some t \<longleftrightarrow> in_map (pcs ?s t)" for t
    using lock_inv_map [OF inv] by simp
  show "pc_ok ?s t (pcs ?s t)" for t
    using pc_ok_now [OF inv, of t] owns old(1) by (cases "pcs s t") (auto simp: pc_ok_def)
  show "\<exists>j. locks ?s j = Some l \<and> holding (pcs ?s t) = Some j" if "lockOwner ?s l = Some t" for l t
  proof -
    from that have "lockOwner s l = Some t" by simp
    then obtain j where "locks s j = Some l" "holding (pcs s t) = Some j" by (rule lock_inv_owner [OF inv])
    with old(1) show ?thesis by auto
  qed
qed

lemma lock_inv_acquire_key:
  assumes inv: "lock_inv s" and pc: "pcs s t = WantKey k l" and free: "lockOwner s l = None"
  shows "lock_inv (goto t (Holds k l) (s\<lparr>lockOwner := (lockOwner s)(l \<mapsto> t)\<rparr>))" (is "lock_inv ?s")
proof (rule lock_invI)
  have fields [simp]: "locks ?s = locks s" "nextLock ?s = nextLock s" "mapOwner ?s = mapOwner s"
    "lockOwner ?s = (lockOwner s)(l \<mapsto> t)" "pcs ?s = (pcs s)(t := Holds k l)"
    by (simp_all add: goto_def)
  have kl: "locks s k = Some l" using pc_ok_now [OF inv, of t] pc by (simp add: pc_ok_def)
  have owns: "owns ?s u j" if "owns s u j" for u j
    using that free by (auto simp: owns_def)
  show "m < nextLock ?s" if "locks ?s j = Some m" for j m
    using that lock_inv_fresh [OF inv] by simp
  show "i = j" if "locks ?s i = Some m" "locks ?s j = Some m" for i j m
    using that lock_inv_inj [OF inv] by simp
  show "mapOwner ?s = Some u \<longleftrightarrow> in_map (pcs ?s u)" for u
    using lock_inv_map [OF inv, of u] pc by (cases "u = t") simp_all
  show "pc_ok ?s u (pcs ?s u)" for u
  proof (cases "u = t")
    case True
    then show ?thesis using kl by (simp add: pc_ok_def owns_def)
  next
    case False
    then show ?thesis using pc_ok_now [OF inv, of u] owns by (cases "pcs s u") (auto simp: pc_ok_def)
  qed
  show "\<exists>j. locks ?s j = Some m \<and> holding (pcs ?s u) = Some j" if m: "lockOwner ?s m = Some u" for m u
  proof (cases "m = l")
    case True
    with m have "u = t" by simp
    with True kl show ?thesis by (intro exI [of _ k]) simp
  next
    case False
    with m have "lockOwner s m = Some u" by simp
    then obtain j where j: "locks s j = Some m" "holding (pcs s u) = Some j"
      by (rule lock_inv_owner [OF inv])
    with pc have "u \<noteq> t" by auto
    with j show ?thesis by auto
  qed
qed

lemma lock_inv_release_key:
  assumes inv: "lock_inv s" and pc: "pcs s t = WantUnlock k l"
  shows "lock_inv (goto t Idle (s\<lparr>lockOwner := (lockOwner s)(l := None)\<rparr>))" (is "lock_inv ?s")
proof (rule lock_invI)
  have fields [simp]: "locks ?s = locks s" "nextLock ?s = nextLock s" "mapOwner ?s = mapOwner s"
    "lockOwner ?s = (lockOwner s)(l := None)" "pcs ?s = (pcs s)(t := Idle)"
    by (simp_all add: goto_def)
  have kl: "locks s k = Some l" and own: "owns s t k"
    using pc_ok_now [OF inv, of t] pc by (simp_all add: pc_ok_def)
  then have l: "lockOwner s l = Some t" by (simp add: owns_def)
  have other: "owns ?s u j" if "u \<noteq> t" "owns s u j" for u j
  proof -
    from that(2) obtain m where m: "locks s j = Some m" "lockOwner s m = Some u" by (auto simp: owns_def)
    with l that(1) have "m \<noteq> l" by auto
    with m show ?thesis by (simp add: owns_def)
  qed
  show "m < nextLock ?s" if "locks ?s j = Some m" for j m
    using that lock_inv_fresh [OF inv] by simp
  show "i = j" if "locks ?s i = Some m" "locks ?s j = Some m" for i j m
    using that lock_inv_inj [OF inv] by simp
  show "mapOwner ?s = Some u \<longleftrightarrow> in_map (pcs ?s u)" for u
    using lock_inv_map [OF inv, of u] pc by (cases "u = t") simp_all
  show "pc_ok ?s u (pcs ?s u)" for u
  proof (cases "u = t")
    case True
    then show ?thesis by (simp add: pc_ok_def)
  next
    case False
    then show ?thesis using pc_ok_now [OF inv, of u] other by (cases "pcs s u") (auto simp: pc_ok_def)
  qed
  show "\<exists>j. locks ?s j = Some m \<and> holding (pcs ?s u) = Some j" if m: "lockOwner ?s m = Some u" for m u
  proof -
    from m have m': "m \<noteq> l" "lockOwner s m = Some u" by (auto split: if_splits)
    from this(2) obtain j where j: "locks s j = Some m" "holding (pcs s u) = Some j"
      by (rule lock_inv_owner [OF inv])
    have "u \<noteq> t" using j pc kl m'(1) by auto
    with j show ?thesis by auto
  qed
qed

lemma lock_inv_step: "lock_step s s' \<Longrightarrow> lock_inv s \<Longrightarrow> lock_inv s'"
proof (induction rule: lock_step.induct)
  case (Acquire_call s t k)
  then show ?case using lock_inv_goto [of s "mapOwner s" "WantMap k" t] by (simp add: pc_ok_def)
next
  case (Acquire_lock_map s t k)
  then show ?case by (intro lock_inv_goto) (simp_all add: pc_ok_def)
next
  case (Acquire_unlock_map s t k l s')
  then have "lock_inv s'" "pcs s' t = InAcquire k" "locks s' k = Some l"
    using lock_inv_new by (auto simp: acquire_lookup_def split: option.splits)
  then show ?case by (intro lock_inv_goto) (simp_all add: pc_ok_def)
next
  case (Acquire_lock_key s t k l)
  then show ?case by (intro lock_inv_acquire_key)
next
  case (Release_call s t k l)
  then have "owns s t k" using pc_ok_now [of s t] by (simp add: pc_ok_def)
  with Release_call show ?case using lock_inv_goto [of s "mapOwner s" "WantMapR k" t] by (simp add: pc_ok_def)
next
  case (Release_lock_map s t k)
  then have "owns s t k" using pc_ok_now [of s t] by (simp add: pc_ok_def)
  with Release_lock_map show ?case by (intro lock_inv_goto) (simp_all add: pc_ok_def)
next
  case (Release_unlock_map s t k l)
  then have "owns s t k" using pc_ok_now [of s t] by (simp add: pc_ok_def)
  with Release_unlock_map show ?case
    by (intro lock_inv_goto) (auto simp: pc_ok_def release_lookup_def split: option.splits)
next
  case (Release_error s t k e)
  then have "owns s t k" using pc_ok_now [of s t] by (simp add: pc_ok_def)
  with Release_error show ?case by (simp add: release_lookup_def owns_def split: option.splits)
next
  case (Release_unlock_key s t k l)
  then show ?case by (intro lock_inv_release_key)
qed

lemma lock_inv_reachable: "lock_reachable s \<Longrightarrow> lock_inv s"
  by (induction rule: lock_reachable.induct) (auto intro: lock_inv_init lock_inv_step)

lemma owns_unique: "owns s t k \<Longrightarrow> owns s u k \<Longrightarrow> t = u"
  by (auto simp: owns_def)

lemma holding_owns: "lock_inv s \<Longrightarrow> holding (pcs s t) = Some k \<Longrightarrow> owns s t k"
  using pc_ok_now [of s t] by (simp add: pc_ok_def)

text \<open>
  Progress: a thread that waits for a key can go on, unless another thread holds that very key;
  a thread that waits for the map can go on, unless another one is inside, which itself can.
\<close>

lemma waiting_key:
  assumes "lock_inv s" and "pcs s t = WantKey k l"
  shows "lockOwner s l = None \<or> (\<exists>u. u \<noteq> t \<and> holding (pcs s u) = Some k)"
proof (cases "lockOwner s l")
  case (Some u)
  then obtain j where j: "locks s j = Some l" "holding (pcs s u) = Some j"
    by (rule lock_inv_owner [OF assms(1)])
  have "locks s k = Some l" using pc_ok_now [OF assms(1), of t] assms(2) by (simp add: pc_ok_def)
  with j(1) have "j = k" by (rule lock_inv_inj [OF assms(1)])
  moreover have "u \<noteq> t" using j(2) assms(2) by auto
  ultimately show ?thesis using j(2) by auto
qed simp

text \<open>The threads that can move: \<open>moves s u\<close> when \<open>u\<close> is not idle and has a step.\<close>

definition moves :: "lock_state \<Rightarrow> thread \<Rightarrow> bool" where
  "moves s u \<longleftrightarrow> (\<exists>s'. lock_step s s' \<and> pcs s u \<noteq> Idle \<and> pcs s' = (pcs s)(u := pcs s' u) \<and> pcs s' u \<noteq> pcs s u)"

lemma movesI: "lock_step s s' \<Longrightarrow> pcs s' = (pcs s)(u := p) \<Longrightarrow> pcs s u \<noteq> Idle \<Longrightarrow> p \<noteq> pcs s u \<Longrightarrow> moves s u"
  unfolding moves_def by (intro exI [of _ s']) auto

lemma acquire_lookup_pcs: "acquire_lookup k s = (l, s') \<Longrightarrow> pcs s' = pcs s"
  by (auto simp: acquire_lookup_def split: option.splits)

lemma moves_goto: "lock_step s (goto u p s') \<Longrightarrow> pcs s' = pcs s \<Longrightarrow> pcs s u \<noteq> Idle \<Longrightarrow> p \<noteq> pcs s u \<Longrightarrow> moves s u"
  by (rule movesI [of s "goto u p s'" u p]) (simp_all add: goto_def)

text \<open>The owner of the table can always go on.\<close>

lemma owner_moves:
  assumes "in_map (pcs s u)"
  shows "moves s u"
proof (cases "pcs s u")
  case (InAcquire k)
  obtain l s' where a: "acquire_lookup k s = (l, s')" by (cases "acquire_lookup k s")
  show ?thesis
    by (rule moves_goto [OF Acquire_unlock_map [OF InAcquire a]]) (simp_all add: InAcquire acquire_lookup_pcs [OF a])
next
  case (InRelease k)
  show ?thesis
  proof (cases "release_lookup k s")
    case (Inl e)
    show ?thesis by (rule moves_goto [OF Release_error [OF InRelease Inl]]) (simp_all add: InRelease)
  next
    case (Inr l)
    show ?thesis by (rule moves_goto [OF Release_unlock_map [OF InRelease Inr]]) (simp_all add: InRelease)
  qed
qed (use assms in auto)

text \<open>When the table is free, a thread that does not wait for a key can go on.\<close>

lemma free_moves:
  assumes "mapOwner s = None" and "pcs s u \<noteq> Idle" and "\<nexists>k l. pcs s u = WantKey k l" and "\<not> in_map (pcs s u)"
  shows "moves s u"
proof (cases "pcs s u")
  case (WantMap k)
  show ?thesis by (rule moves_goto [OF Acquire_lock_map [OF WantMap assms(1)]]) (simp_all add: WantMap)
next
  case (Holds k l)
  show ?thesis by (rule moves_goto [OF Release_call [OF Holds]]) (simp_all add: Holds)
next
  case (WantMapR k)
  show ?thesis by (rule moves_goto [OF Release_lock_map [OF WantMapR assms(1)]]) (simp_all add: WantMapR)
next
  case (WantUnlock k l)
  show ?thesis by (rule moves_goto [OF Release_unlock_key [OF WantUnlock]]) (simp_all add: WantUnlock)
qed (use assms in auto)

section \<open>What the lock guarantees\<close>

text \<open>
  C22: Mutual exclusion.  In every interleaving of \<open>Acquire\<close> and \<open>Release\<close>, at most one thread is
  between the two for the same key.
\<close>

theorem lock_exclusion:
  assumes "lock_reachable s" and "holding (pcs s t) = Some k" and "holding (pcs s u) = Some k"
  shows "t = u"
  using owns_unique holding_owns [OF lock_inv_reachable [OF assms(1)]] assms(2,3) by blast

definition sample_held :: lock_state where
  "sample_held = goto 7 (Holds ''k'' 0) (NewFetchLock\<lparr>locks := [''k'' \<mapsto> 0], nextLock := 1,
     lockOwner := [0 \<mapsto> 7]\<rparr>)"

lemma sample_held_reachable: "lock_reachable sample_held"
proof -
  let ?s1 = "goto 7 (WantMap ''k'') NewFetchLock"
  let ?s2 = "goto 7 (InAcquire ''k'') (?s1\<lparr>mapOwner := Some 7\<rparr>)"
  let ?s3 = "goto 7 (WantKey ''k'' 0) (?s2\<lparr>locks := [''k'' \<mapsto> 0], nextLock := 1, mapOwner := None\<rparr>)"
  have "lock_reachable ?s1"
    by (rule step [OF init Acquire_call]) (simp add: NewFetchLock_def)
  then have r2: "lock_reachable ?s2"
    by (rule step [OF _ Acquire_lock_map]) (simp_all add: goto_def NewFetchLock_def)
  have "acquire_lookup ''k'' ?s2 = (0, ?s2\<lparr>locks := [''k'' \<mapsto> 0], nextLock := 1\<rparr>)"
    by (simp add: acquire_lookup_def goto_def NewFetchLock_def)
  then have "lock_step ?s2 ?s3"
    using Acquire_unlock_map [of ?s2 7 "''k''" 0] by (simp add: goto_def)
  then have r3: "lock_reachable ?s3" by (rule step [OF r2])
  have pc: "pcs ?s3 7 = WantKey ''k'' 0" and free: "lockOwner ?s3 0 = None"
    by (simp_all add: goto_def NewFetchLock_def)
  have "lock_reachable (goto 7 (Holds ''k'' 0) (?s3\<lparr>lockOwner := (lockOwner ?s3)(0 \<mapsto> 7)\<rparr>))"
    by (rule step [OF r3 Acquire_lock_key [OF pc free]])
  moreover have "goto 7 (Holds ''k'' 0) (?s3\<lparr>lockOwner := (lockOwner ?s3)(0 \<mapsto> 7)\<rparr>) = sample_held"
    by (simp add: sample_held_def goto_def NewFetchLock_def)
  ultimately show ?thesis by simp
qed

lemma lock_exclusion_witness:
  "holding (pcs sample_held 7) = Some ''k'' \<and> holding (pcs sample_held 3) \<noteq> Some ''k''"
proof -
  have "holding (pcs sample_held 7) = Some ''k''" by (simp add: sample_held_def goto_def)
  with lock_exclusion [OF sample_held_reachable this, of 3] show ?thesis by auto
qed

text \<open>
  C24: \<open>Release\<close> never fails for a holder.  A thread that called \<open>Release\<close> after its \<open>Acquire\<close> finds
  the lock of the key in the table, and it is the one it locked.
\<close>

theorem release_finds_lock:
  assumes "lock_reachable s" and "pcs s t = InRelease k"
  shows "\<exists>l. release_lookup k s = Inr l \<and> lockOwner s l = Some t"
  using holding_owns [OF lock_inv_reachable [OF assms(1)], of t k] assms(2)
  by (auto simp: owns_def release_lookup_def)

lemma release_finds_lock_witness:
  "\<exists>s. lock_reachable s \<and> pcs s 7 = InRelease ''k'' \<and> (\<exists>l. release_lookup ''k'' s = Inr l \<and> lockOwner s l = Some 7)"
proof -
  let ?s1 = "goto 7 (WantMapR ''k'') sample_held"
  let ?s2 = "goto 7 (InRelease ''k'') (?s1\<lparr>mapOwner := Some 7\<rparr>)"
  have "lock_step sample_held ?s1" by (rule Release_call) (simp add: sample_held_def goto_def)
  moreover have "lock_step ?s1 ?s2"
    by (rule Release_lock_map) (simp_all add: goto_def sample_held_def NewFetchLock_def)
  ultimately have r: "lock_reachable ?s2" using sample_held_reachable lock_reachable.step by blast
  have "pcs ?s2 7 = InRelease ''k''" by (simp add: goto_def)
  with release_finds_lock [OF r this] r show ?thesis by blast
qed

text \<open>
  C23: No deadlock.  Whenever some thread is inside \<open>Acquire\<close> or \<open>Release\<close> or between the two, some
  such thread can take a step: a thread that waits for a key waits for a thread that holds it, and
  no holder of a key or of the table waits for another key.
\<close>

theorem lock_progress:
  assumes "lock_reachable s" and "pcs s t \<noteq> Idle"
  shows "\<exists>u s'. lock_step s s' \<and> pcs s u \<noteq> Idle \<and> pcs s' = (pcs s)(u := pcs s' u) \<and> pcs s' u \<noteq> pcs s u"
proof -
  note inv = lock_inv_reachable [OF assms(1)]
  have "\<exists>u. moves s u"
  proof (cases "\<exists>u. in_map (pcs s u)")
    case True
    then show ?thesis using owner_moves by blast
  next
    case False
    then have free: "mapOwner s = None" using lock_inv_map [OF inv] by (cases "mapOwner s") auto
    show ?thesis
    proof (cases "\<exists>k l. pcs s t = WantKey k l")
      case True
      then obtain k l where t: "pcs s t = WantKey k l" by blast
      from waiting_key [OF inv t] show ?thesis
      proof
        assume "lockOwner s l = None"
        have "moves s t"
          by (rule moves_goto [OF Acquire_lock_key [OF t \<open>lockOwner s l = None\<close>]]) (simp_all add: t)
        then show ?thesis ..
      next
        assume "\<exists>u. u \<noteq> t \<and> holding (pcs s u) = Some k"
        then obtain u where "holding (pcs s u) = Some k" by blast
        then have "moves s u" using free False by (intro free_moves) auto
        then show ?thesis ..
      qed
    qed (use free_moves [OF free assms(2)] False in blast)
  qed
  then show ?thesis unfolding moves_def by blast
qed

lemma lock_progress_witness: "\<exists>s'. lock_step sample_held s'"
  using lock_progress [OF sample_held_reachable, of 7] by (auto simp: sample_held_def goto_def)

end
