(* ===== verification/Test_Doubles.thy ===== *)
theory Test_Doubles
  imports Cake
begin

text \<open>
  The test doubles under \<open>fake_*\<close> and \<open>*fakes\<close> that \<open>counterfeiter\<close> generates for the repository's
  interfaces, in its newer form (with \<open>Invocations\<close> and \<open>ReturnsOnCall\<close>).

  A method of an interface becomes five methods of its double.  They share one piece of state, here a
  \<open>fake_method\<close>: the stub, the arguments of every call, the result to return and the results to
  return on particular calls.  \<open>double\<close> gives the five methods on a double, from where it keeps the
  piece; each definition below is one group of five in the generated code.  A stub is a program over
  the environment beside the double; one that calls the double again is not modelled.  The mutexes
  are left out: every method holds them for a single access to the state.
\<close>

section \<open>One method of a double\<close>

text \<open>Recorded arguments, as the empty interface keeps them; \<open>'x\<close> is for loggers, functions and the like.\<close>

datatype 'x go_arg =
    ArgString string
  | ArgInt64 int64
  | ArgID layer_id
  | ArgImage image
  | ArgReader "reader option"
  | ArgOther 'x

record 'x fake_base =
  invocations :: "string \<rightharpoonup> 'x go_arg list list"

record ('e, 'a, 'r) fake_method =
  Stub :: "('a \<Rightarrow> ('e, 'r) prog) option"
  ArgsForCall :: "'a list"
  Returns :: 'r
  ReturnsOnCall :: "int \<rightharpoonup> 'r"

definition recordInvocation :: "string \<Rightarrow> 'x go_arg list \<Rightarrow> ('x, 'z) fake_base_scheme \<Rightarrow> ('x, 'z) fake_base_scheme" where
  "recordInvocation key args fake =
     (let calls = (case invocations fake key of None \<Rightarrow> [] | Some l \<Rightarrow> l)
      in fake\<lparr>invocations := (invocations fake)(key \<mapsto> calls @ [args])\<rparr>)"

definition Invocations :: "('x, 'z) fake_base_scheme \<Rightarrow> string \<rightharpoonup> 'x go_arg list list" where
  "Invocations fake = invocations fake"

record ('f, 'e, 'a, 'r) double =
  call :: "'a \<Rightarrow> ('f \<times> 'e, 'r) prog"
  callCount :: "'f \<Rightarrow> nat"
  argsForCall :: "int \<Rightarrow> 'f \<Rightarrow> 'a outcome"
  setReturns :: "'r \<Rightarrow> 'f \<Rightarrow> 'f"
  setReturnsOnCall :: "int \<Rightarrow> 'r \<Rightarrow> 'f \<Rightarrow> 'f"

definition double ::
  "string \<Rightarrow> (('x, 'z) fake_base_scheme \<Rightarrow> ('e, 'a, 'r) fake_method) \<Rightarrow>
    ((('e, 'a, 'r) fake_method \<Rightarrow> ('e, 'a, 'r) fake_method) \<Rightarrow> ('x, 'z) fake_base_scheme \<Rightarrow> ('x, 'z) fake_base_scheme) \<Rightarrow>
    ('a \<Rightarrow> 'x go_arg list) \<Rightarrow> (('x, 'z) fake_base_scheme, 'e, 'a, 'r) double" where
  "double key get upd show_args = \<lparr>
     call = (\<lambda>a (fake, env).
       let specific = ReturnsOnCall (get fake) (int (length (ArgsForCall (get fake))));
           fake' = recordInvocation key (show_args a)
             (upd (\<lambda>m. m\<lparr>ArgsForCall := ArgsForCall m @ [a]\<rparr>) fake)
       in case Stub (get fake') of
            Some f \<Rightarrow> (case f a env of (r, env') \<Rightarrow> (r, (fake', env')))
          | None \<Rightarrow> (case specific of
              Some r \<Rightarrow> (Inr r, (fake', env))
            | None \<Rightarrow> (Inr (Returns (get fake')), (fake', env)))),
     callCount = (\<lambda>fake. length (ArgsForCall (get fake))),
     argsForCall = (\<lambda>i fake.
       if 0 \<le> i \<and> i < int (length (ArgsForCall (get fake))) then Inr (ArgsForCall (get fake) ! nat i)
       else Inl (Panic ''index out of range'')),
     setReturns = (\<lambda>r fake. upd (\<lambda>m. m\<lparr>Stub := None, Returns := r\<rparr>) fake),
     setReturnsOnCall = (\<lambda>i r fake.
       upd (\<lambda>m. m\<lparr>Stub := None, ReturnsOnCall := (ReturnsOnCall m)(i \<mapsto> r)\<rparr>) fake)\<rparr>"

text \<open>
  What a test relies on, for any method whose piece of state \<open>get\<close> and \<open>upd\<close> select: calls are
  recorded in order, in the method's own list and under its name in \<open>Invocations\<close>, and an
  unstubbed method answers with the result that was set for that call, or the general one.
\<close>

primrec each_call :: "('f, 'e, 'a, 'r) double \<Rightarrow> 'a list \<Rightarrow> ('f \<times> 'e, 'r list) prog" where
  "each_call d [] = ret []"
| "each_call d (a # as) = bindE (call d a) (\<lambda>r. bindE (each_call d as) (\<lambda>rs. ret (r # rs)))"

definition answer :: "('e, 'a, 'r) fake_method \<Rightarrow> nat \<Rightarrow> 'r" where
  "answer m n = (case ReturnsOnCall m (int n) of Some r \<Rightarrow> r | None \<Rightarrow> Returns m)"

lemma answer_arg: "answer (m\<lparr>ArgsForCall := xs\<rparr>) n = answer m n"
  by (simp add: answer_def split: option.split)

definition recorded :: "string \<Rightarrow> ('x, 'z) fake_base_scheme \<Rightarrow> 'x go_arg list list" where
  "recorded key fake = (case Invocations fake key of None \<Rightarrow> [] | Some l \<Rightarrow> l)"

locale spied =
  fixes get :: "('x, 'z) fake_base_scheme \<Rightarrow> ('e, 'a, 'r) fake_method"
    and upd :: "(('e, 'a, 'r) fake_method \<Rightarrow> ('e, 'a, 'r) fake_method) \<Rightarrow>
      ('x, 'z) fake_base_scheme \<Rightarrow> ('x, 'z) fake_base_scheme"
  assumes get_upd: "get (upd f fake) = f (get fake)"
    and invocations_upd: "invocations (upd f fake) = invocations fake"
    and get_invocations: "get (fake\<lparr>invocations := h\<rparr>) = get fake"
begin

lemma get_record: "get (recordInvocation key args fake) = get fake"
  by (simp add: recordInvocation_def Let_def get_invocations)

lemma call_unstubbed:
  assumes "Stub (get fake) = None"
  shows "\<exists>fake'. call (double key get upd show_args) a (fake, env) =
      (Inr (answer (get fake) (length (ArgsForCall (get fake)))), (fake', env)) \<and>
    get fake' = (get fake)\<lparr>ArgsForCall := ArgsForCall (get fake) @ [a]\<rparr> \<and>
    recorded key fake' = recorded key fake @ [show_args a]"
  using assms
  by (cases "ReturnsOnCall (get fake) (int (length (ArgsForCall (get fake))))")
    (simp_all add: double_def answer_def recorded_def Invocations_def get_upd invocations_upd
      recordInvocation_def Let_def get_invocations)

lemma calls_unstubbed:
  assumes "Stub (get fake) = None"
  shows "\<exists>fake'. each_call (double key get upd show_args) as (fake, env) =
      (Inr (map (\<lambda>i. answer (get fake) (length (ArgsForCall (get fake)) + i)) [0..<length as]), (fake', env)) \<and>
    get fake' = (get fake)\<lparr>ArgsForCall := ArgsForCall (get fake) @ as\<rparr> \<and>
    recorded key fake' = recorded key fake @ map show_args as"
  using assms
proof (induction as arbitrary: fake)
  case (Cons a as)
  let ?d = "double key get upd show_args" and ?m = "get fake"
  obtain f1 where one: "call ?d a (fake, env) = (Inr (answer ?m (length (ArgsForCall ?m))), (f1, env))"
    "get f1 = ?m\<lparr>ArgsForCall := ArgsForCall ?m @ [a]\<rparr>" "recorded key f1 = recorded key fake @ [show_args a]"
    using call_unstubbed [OF Cons.prems] by blast
  have "Stub (get f1) = None" using Cons.prems one(2) by simp
  from Cons.IH [OF this] obtain f2 where
    "each_call ?d as (f1, env) =
      (Inr (map (\<lambda>i. answer (get f1) (length (ArgsForCall (get f1)) + i)) [0..<length as]), (f2, env))"
    "get f2 = (get f1)\<lparr>ArgsForCall := ArgsForCall (get f1) @ as\<rparr>"
    "recorded key f2 = recorded key f1 @ map show_args as" by blast
  then show ?case using one
    by (simp add: bindE_def answer_arg upt_conv_Cons map_Suc_upt [symmetric] comp_def add.assoc del: upt_Suc)
qed simp

lemma stub_decides:
  assumes "Stub (get fake) = Some f"
  shows "\<exists>fake'. call (double key get upd show_args) a (fake, env) =
      (fst (f a env), (fake', snd (f a env))) \<and>
    get fake' = (get fake)\<lparr>ArgsForCall := ArgsForCall (get fake) @ [a]\<rparr>"
  using assms by (simp add: double_def get_record get_upd Let_def split: prod.split)

end

section \<open>The doubles\<close>

text \<open>
  \<open>FakeCake\<close> of \<open>src/layercake/fake_cake/fake_cake.go\<close>.  A result is what the Go method returns: an
  error that may be nil, or a value that may be nil with an error.
\<close>

record ('e, 'x) fake_cake = "'x fake_base" +
  fcDriverName :: "('e, unit, string) fake_method"
  fcCreate :: "('e, layer_id \<times> layer_id \<times> string, go_error option) fake_method"
  fcRegister :: "('e, image \<times> reader option, go_error option) fake_method"
  fcRegisterWithQuota :: "('e, image \<times> reader option \<times> int64, go_error option) fake_method"
  fcGet :: "('e, layer_id, image option \<times> go_error option) fake_method"
  fcUnmount :: "('e, layer_id, go_error option) fake_method"
  fcRemove :: "('e, layer_id, go_error option) fake_method"
  fcPath :: "('e, layer_id, string \<times> go_error option) fake_method"
  fcQuotaedPath :: "('e, layer_id \<times> int64, string \<times> go_error option) fake_method"
  fcIsLeaf :: "('e, layer_id, bool \<times> go_error option) fake_method"
  fcGetAllLeaves :: "('e, unit, layer_id list \<times> go_error option) fake_method"
  fcAll :: "('e, unit, image list) fake_method"

definition FakeCake_DriverName where
  "FakeCake_DriverName = double ''DriverName'' fcDriverName fcDriverName_update (\<lambda>_. [])"

definition FakeCake_Create where
  "FakeCake_Create = double ''Create'' fcCreate fcCreate_update
     (\<lambda>(layerID, parentID, containerID). [ArgID layerID, ArgID parentID, ArgString containerID])"

definition FakeCake_Register where
  "FakeCake_Register = double ''Register'' fcRegister fcRegister_update
     (\<lambda>(img, layer). [ArgImage img, ArgReader layer])"

definition FakeCake_RegisterWithQuota where
  "FakeCake_RegisterWithQuota = double ''RegisterWithQuota'' fcRegisterWithQuota fcRegisterWithQuota_update
     (\<lambda>(img, layer, quota). [ArgImage img, ArgReader layer, ArgInt64 quota])"

definition FakeCake_Get where
  "FakeCake_Get = double ''Get'' fcGet fcGet_update (\<lambda>i. [ArgID i])"

definition FakeCake_Unmount where
  "FakeCake_Unmount = double ''Unmount'' fcUnmount fcUnmount_update (\<lambda>i. [ArgID i])"

definition FakeCake_Remove where
  "FakeCake_Remove = double ''Remove'' fcRemove fcRemove_update (\<lambda>i. [ArgID i])"

definition FakeCake_Path where
  "FakeCake_Path = double ''Path'' fcPath fcPath_update (\<lambda>i. [ArgID i])"

definition FakeCake_QuotaedPath where
  "FakeCake_QuotaedPath = double ''QuotaedPath'' fcQuotaedPath fcQuotaedPath_update
     (\<lambda>(i, quota). [ArgID i, ArgInt64 quota])"

definition FakeCake_IsLeaf where
  "FakeCake_IsLeaf = double ''IsLeaf'' fcIsLeaf fcIsLeaf_update (\<lambda>i. [ArgID i])"

definition FakeCake_GetAllLeaves where
  "FakeCake_GetAllLeaves = double ''GetAllLeaves'' fcGetAllLeaves fcGetAllLeaves_update (\<lambda>_. [])"

definition FakeCake_All where
  "FakeCake_All = double ''All'' fcAll fcAll_update (\<lambda>_. [])"

lemmas FakeCake_defs = FakeCake_DriverName_def FakeCake_Create_def FakeCake_Register_def
  FakeCake_RegisterWithQuota_def FakeCake_Get_def FakeCake_Unmount_def FakeCake_Remove_def
  FakeCake_Path_def FakeCake_QuotaedPath_def FakeCake_IsLeaf_def FakeCake_GetAllLeaves_def FakeCake_All_def

text \<open>\<open>FakeGraphDriver\<close> of \<open>src/docker_drivers/aufs/aufsfakes/fake_graph_driver.go\<close>; \<open>'c\<close> is \<open>archive.Change\<close>.\<close>

record ('e, 'c, 'x) fake_graph_driver = "'x fake_base" +
  fgString :: "('e, unit, string) fake_method"
  fgCreate :: "('e, string \<times> string, go_error option) fake_method"
  fgRemove :: "('e, string, go_error option) fake_method"
  fgGet :: "('e, string \<times> string, string \<times> go_error option) fake_method"
  fgPut :: "('e, string, go_error option) fake_method"
  fgExists :: "('e, string, bool) fake_method"
  fgStatus :: "('e, unit, (string \<times> string) list) fake_method"
  fgGetMetadata :: "('e, string, (string \<rightharpoonup> string) \<times> go_error option) fake_method"
  fgCleanup :: "('e, unit, go_error option) fake_method"
  fgDiff :: "('e, string \<times> string, reader option \<times> go_error option) fake_method"
  fgChanges :: "('e, string \<times> string, 'c list \<times> go_error option) fake_method"
  fgApplyDiff :: "('e, string \<times> string \<times> reader option, int64 \<times> go_error option) fake_method"
  fgDiffSize :: "('e, string \<times> string, int64 \<times> go_error option) fake_method"

abbreviation two_strings :: "string \<times> string \<Rightarrow> 'x go_arg list" where
  "two_strings \<equiv> \<lambda>(s, t). [ArgString s, ArgString t]"

definition FakeGraphDriver_String where
  "FakeGraphDriver_String = double ''String'' fgString fgString_update (\<lambda>_. [])"

definition FakeGraphDriver_Create where
  "FakeGraphDriver_Create = double ''Create'' fgCreate fgCreate_update two_strings"

definition FakeGraphDriver_Remove where
  "FakeGraphDriver_Remove = double ''Remove'' fgRemove fgRemove_update (\<lambda>i. [ArgString i])"

definition FakeGraphDriver_Get where
  "FakeGraphDriver_Get = double ''Get'' fgGet fgGet_update two_strings"

definition FakeGraphDriver_Put where
  "FakeGraphDriver_Put = double ''Put'' fgPut fgPut_update (\<lambda>i. [ArgString i])"

definition FakeGraphDriver_Exists where
  "FakeGraphDriver_Exists = double ''Exists'' fgExists fgExists_update (\<lambda>i. [ArgString i])"

definition FakeGraphDriver_Status where
  "FakeGraphDriver_Status = double ''Status'' fgStatus fgStatus_update (\<lambda>_. [])"

definition FakeGraphDriver_GetMetadata where
  "FakeGraphDriver_GetMetadata = double ''GetMetadata'' fgGetMetadata fgGetMetadata_update (\<lambda>i. [ArgString i])"

definition FakeGraphDriver_Cleanup where
  "FakeGraphDriver_Cleanup = double ''Cleanup'' fgCleanup fgCleanup_update (\<lambda>_. [])"

definition FakeGraphDriver_Diff where
  "FakeGraphDriver_Diff = double ''Diff'' fgDiff fgDiff_update two_strings"

definition FakeGraphDriver_Changes where
  "FakeGraphDriver_Changes = double ''Changes'' fgChanges fgChanges_update two_strings"

definition FakeGraphDriver_ApplyDiff where
  "FakeGraphDriver_ApplyDiff = double ''ApplyDiff'' fgApplyDiff fgApplyDiff_update
     (\<lambda>(i, parent, diff). [ArgString i, ArgString parent, ArgReader diff])"

definition FakeGraphDriver_DiffSize where
  "FakeGraphDriver_DiffSize = double ''DiffSize'' fgDiffSize fgDiffSize_update two_strings"

text \<open>The doubles of the quotaed driver's other parts, beside \<open>FakeGraphDriver\<close>.\<close>

record ('e, 'x) fake_backing_store = "'x fake_base" +
  fbCreate :: "('e, string \<times> int64, string \<times> go_error option) fake_method"
  fbDelete :: "('e, string, go_error option) fake_method"

definition FakeBackingStoreMgr_Create where
  "FakeBackingStoreMgr_Create = double ''Create'' fbCreate fbCreate_update (\<lambda>(i, quota). [ArgString i, ArgInt64 quota])"

definition FakeBackingStoreMgr_Delete where
  "FakeBackingStoreMgr_Delete = double ''Delete'' fbDelete fbDelete_update (\<lambda>i. [ArgString i])"

record ('e, 'x) fake_loop_mounter = "'x fake_base" +
  flMountFile :: "('e, string \<times> string, go_error option) fake_method"
  flUnmount :: "('e, string, go_error option) fake_method"

definition FakeLoopMounter_MountFile where
  "FakeLoopMounter_MountFile = double ''MountFile'' flMountFile flMountFile_update two_strings"

definition FakeLoopMounter_Unmount where
  "FakeLoopMounter_Unmount = double ''Unmount'' flUnmount flUnmount_update (\<lambda>path. [ArgString path])"

text \<open>The doubles of the connection to a registry; \<open>'l\<close> is the logger.\<close>

record ('e, 'l) fake_conn = "'l fake_base" +
  fnGetManifest :: "('e, 'l \<times> string, (digest \<times> digest \<times> digest \<times> image) list option \<times> go_error option) fake_method"
  fnGetBlobReader :: "('e, 'l \<times> digest, reader option \<times> go_error option) fake_method"

definition FakeConn_GetManifest where
  "FakeConn_GetManifest = double ''GetManifest'' fnGetManifest fnGetManifest_update (\<lambda>(l, tag). [ArgOther l, ArgString tag])"

definition FakeConn_GetBlobReader where
  "FakeConn_GetBlobReader = double ''GetBlobReader'' fnGetBlobReader fnGetBlobReader_update (\<lambda>(l, d). [ArgOther l, ArgString d])"

section \<open>Every method of the doubles is a spy\<close>

interpretation fcDriverName_spied: spied fcDriverName fcDriverName_update
  by unfold_locales simp_all

interpretation fcCreate_spied: spied fcCreate fcCreate_update
  by unfold_locales simp_all

interpretation fcRegister_spied: spied fcRegister fcRegister_update
  by unfold_locales simp_all

interpretation fcRegisterWithQuota_spied: spied fcRegisterWithQuota fcRegisterWithQuota_update
  by unfold_locales simp_all

interpretation fcGet_spied: spied fcGet fcGet_update
  by unfold_locales simp_all

interpretation fcUnmount_spied: spied fcUnmount fcUnmount_update
  by unfold_locales simp_all

interpretation fcRemove_spied: spied fcRemove fcRemove_update
  by unfold_locales simp_all

interpretation fcPath_spied: spied fcPath fcPath_update
  by unfold_locales simp_all

interpretation fcQuotaedPath_spied: spied fcQuotaedPath fcQuotaedPath_update
  by unfold_locales simp_all

interpretation fcIsLeaf_spied: spied fcIsLeaf fcIsLeaf_update
  by unfold_locales simp_all

interpretation fcGetAllLeaves_spied: spied fcGetAllLeaves fcGetAllLeaves_update
  by unfold_locales simp_all

interpretation fcAll_spied: spied fcAll fcAll_update
  by unfold_locales simp_all

interpretation fgString_spied: spied fgString fgString_update
  by unfold_locales simp_all

interpretation fgCreate_spied: spied fgCreate fgCreate_update
  by unfold_locales simp_all

interpretation fgRemove_spied: spied fgRemove fgRemove_update
  by unfold_locales simp_all

interpretation fgGet_spied: spied fgGet fgGet_update
  by unfold_locales simp_all

interpretation fgPut_spied: spied fgPut fgPut_update
  by unfold_locales simp_all

interpretation fgExists_spied: spied fgExists fgExists_update
  by unfold_locales simp_all

interpretation fgStatus_spied: spied fgStatus fgStatus_update
  by unfold_locales simp_all

interpretation fgGetMetadata_spied: spied fgGetMetadata fgGetMetadata_update
  by unfold_locales simp_all

interpretation fgCleanup_spied: spied fgCleanup fgCleanup_update
  by unfold_locales simp_all

interpretation fgDiff_spied: spied fgDiff fgDiff_update
  by unfold_locales simp_all

interpretation fgChanges_spied: spied fgChanges fgChanges_update
  by unfold_locales simp_all

interpretation fgApplyDiff_spied: spied fgApplyDiff fgApplyDiff_update
  by unfold_locales simp_all

interpretation fgDiffSize_spied: spied fgDiffSize fgDiffSize_update
  by unfold_locales simp_all

interpretation fbCreate_spied: spied fbCreate fbCreate_update
  by unfold_locales simp_all

interpretation fbDelete_spied: spied fbDelete fbDelete_update
  by unfold_locales simp_all

interpretation flMountFile_spied: spied flMountFile flMountFile_update
  by unfold_locales simp_all

interpretation flUnmount_spied: spied flUnmount flUnmount_update
  by unfold_locales simp_all

interpretation fnGetManifest_spied: spied fnGetManifest fnGetManifest_update
  by unfold_locales simp_all

interpretation fnGetBlobReader_spied: spied fnGetBlobReader fnGetBlobReader_update
  by unfold_locales simp_all

text \<open>
  C40: A double records what it is called with.  Any sequence of calls of an unstubbed \<open>FakeCake.Create\<close>
  leaves its arguments, in order, in \<open>CreateArgsForCall\<close> and in \<open>Invocations\<close>, after those of the
  earlier calls; the n-th call returns the result set for it with \<open>CreateReturnsOnCall\<close>, or the one
  of \<open>CreateReturns\<close>.
\<close>

theorem FakeCake_records:
  assumes "Stub (fcCreate fake) = None" and "n = length (ArgsForCall (fcCreate fake))"
  shows "\<exists>fake'. each_call FakeCake_Create as (fake, env) =
      (Inr (map (\<lambda>i. answer (fcCreate fake) (n + i)) [0..<length as]), (fake', env)) \<and>
    callCount FakeCake_Create fake' = n + length as \<and>
    (\<forall>i < length as. argsForCall FakeCake_Create (int (n + i)) fake' = Inr (as ! i)) \<and>
    recorded ''Create'' fake' = recorded ''Create'' fake @
      map (\<lambda>(layerID, parentID, containerID). [ArgID layerID, ArgID parentID, ArgString containerID]) as"
proof -
  from fcCreate_spied.calls_unstubbed [OF assms(1)] obtain fake' where
    "each_call FakeCake_Create as (fake, env) =
      (Inr (map (\<lambda>i. answer (fcCreate fake) (n + i)) [0..<length as]), (fake', env))"
    and "fcCreate fake' = (fcCreate fake)\<lparr>ArgsForCall := ArgsForCall (fcCreate fake) @ as\<rparr>"
    and "recorded ''Create'' fake' = recorded ''Create'' fake @
      map (\<lambda>(layerID, parentID, containerID). [ArgID layerID, ArgID parentID, ArgString containerID]) as"
    unfolding FakeCake_Create_def assms(2) by blast
  then show ?thesis
    using assms(2) by (auto simp: FakeCake_Create_def double_def nth_append nat_int_add)
qed

definition unused :: "'r \<Rightarrow> ('e, 'a, 'r) fake_method" where
  "unused r = \<lparr>Stub = None, ArgsForCall = [], Returns = r, ReturnsOnCall = Map.empty\<rparr>"

definition new_FakeCake :: "(unit, unit) fake_cake" where
  "new_FakeCake = \<lparr>invocations = Map.empty, fcDriverName = unused [], fcCreate = unused None,
     fcRegister = unused None, fcRegisterWithQuota = unused None, fcGet = unused (None, None),
     fcUnmount = unused None, fcRemove = unused None, fcPath = unused ([], None),
     fcQuotaedPath = unused ([], None), fcIsLeaf = unused (False, None),
     fcGetAllLeaves = unused ([], None), fcAll = unused []\<rparr>"

lemma FakeCake_records_witness:
  "\<exists>fake'. each_call FakeCake_Create [(ContainerID ''a'', DockerImageID ''b'', ''c'')]
      (setReturnsOnCall FakeCake_Create 0 (Some EOF) new_FakeCake, ()) = (Inr [Some EOF], (fake', ())) \<and>
    argsForCall FakeCake_Create 0 fake' = Inr (ContainerID ''a'', DockerImageID ''b'', ''c'')"
proof -
  let ?f = "setReturnsOnCall FakeCake_Create 0 (Some EOF) new_FakeCake"
  have m: "fcCreate ?f = (unused None)\<lparr>ReturnsOnCall := [0 \<mapsto> Some EOF]\<rparr>"
    by (simp add: FakeCake_Create_def double_def new_FakeCake_def unused_def)
  then have "Stub (fcCreate ?f) = None" "0 = length (ArgsForCall (fcCreate ?f))"
    by (simp_all add: unused_def)
  from FakeCake_records [OF this, where as = "[(ContainerID ''a'', DockerImageID ''b'', ''c'')]" and env = "()"]
  show ?thesis by (simp add: m answer_def del: each_call.simps) blast
qed

end
