(* ===== verification/Component_Doubles.thy ===== *)
theory Component_Doubles
  imports Test_Doubles Container_Layers Quota_Manager
begin

text \<open>
  The test doubles of the single components' interfaces: the other packages \<open>fake_*\<close> and \<open>*fakes\<close>
  under \<open>src\<close>.  They are instances of \<open>double\<close> of \<open>Test_Doubles\<close>, with the types of the interface
  and the arguments that the method records under its name; the four doubles in counterfeiter's
  older form, without \<open>Invocations\<close> and \<open>ReturnsOnCall\<close>, are instances of \<open>plain_double\<close>.  Methods
  without results (\<open>Acquire\<close>, \<open>Retain\<close>) have the result \<open>()\<close>, and no generated method that sets it.
\<close>

section \<open>Recorded arguments\<close>

text \<open>
  What the interfaces pass besides strings, numbers and IDs.  \<open>'l\<close> stands for loggers, \<open>'c\<close> for
  values that the double only keeps (a callback, a cake, a connection).
\<close>

datatype ('l, 'c) passed =
    Logger 'l
  | Opaque 'c
  | Url "url option"
  | Fetched "fetched option"
  | Spec rootfs_spec
  | FileInfo "inode option"
  | Error "go_error option"

definition log_string :: "'l \<times> string \<Rightarrow> ('l, 'c) passed go_arg list" where
  "log_string = (\<lambda>(l, s). [ArgOther (Logger l), ArgString s])"

definition log_url :: "'l \<times> url option \<Rightarrow> ('l, 'c) passed go_arg list" where
  "log_url = (\<lambda>(l, u). [ArgOther (Logger l), ArgOther (Url u)])"

definition fetch_args ::
  "'l \<times> url option \<times> string \<times> string \<times> int64 \<Rightarrow> ('l, 'c) passed go_arg list" where
  "fetch_args = (\<lambda>(l, u, username, password, diskQuota).
     [ArgOther (Logger l), ArgOther (Url u), ArgString username, ArgString password, ArgInt64 diskQuota])"

section \<open>The doubles\<close>

record ('e, 'c, 'x) fake_retrier = "'x fake_base" +
  frtRun :: "('e, 'c, go_error option) fake_method"

definition FakeRetrier_Run where
  "FakeRetrier_Run = double ''Run'' frtRun frtRun_update
     (\<lambda>work. [ArgOther (Opaque work)])"

record ('e, 'c, 'l, 'x) fake_threshold = "'x fake_base" +
  fthExceeded :: "('e, 'l \<times> 'c, bool) fake_method"

definition FakeThreshold_Exceeded where
  "FakeThreshold_Exceeded = double ''Exceeded'' fthExceeded fthExceeded_update
     (\<lambda>(l, cake). [ArgOther (Logger l), ArgOther (Opaque cake)])"

record ('e, 'x) fake_id = "'x fake_base" +
  fiGraphID :: "('e, unit, string) fake_method"

definition FakeID_GraphID where
  "FakeID_GraphID = double ''GraphID'' fiGraphID fiGraphID_update (\<lambda>_. [])"

record ('e, 'x) fake_id_provider = "'x fake_base" +
  fipProvideID :: "('e, string, layer_id option \<times> go_error option) fake_method"

definition FakeIDProvider_ProvideID where
  "FakeIDProvider_ProvideID = double ''ProvideID'' fipProvideID fipProvideID_update
     (\<lambda>path. [ArgString path])"

record ('e, 'l, 'x) fake_retainer = "'x fake_base" +
  frnRetain :: "('e, 'l \<times> layer_id, unit) fake_method"

definition FakeRetainer_Retain where
  "FakeRetainer_Retain = double ''Retain'' frnRetain frnRetain_update
     (\<lambda>(l, i). [ArgOther (Logger l), ArgID i])"

record ('e, 'x) fake_diff_path_finder = "'x fake_base" +
  fdpGetDiffLayerPath :: "('e, string, string) fake_method"

definition FakeAUFSDiffPathFinder_GetDiffLayerPath where
  "FakeAUFSDiffPathFinder_GetDiffLayerPath = double ''GetDiffLayerPath'' fdpGetDiffLayerPath fdpGetDiffLayerPath_update
     (\<lambda>path. [ArgString path])"

record ('e, 'l, 'x) fake_base_sizer = "'x fake_base" +
  fbzBaseSize :: "('e, 'l \<times> string, 64 word \<times> go_error option) fake_method"

definition FakeBaseSizer_BaseSize where
  "FakeBaseSizer_BaseSize = double ''BaseSize'' fbzBaseSize fbzBaseSize_update log_string"

record ('e, 'l, 'x) fake_diff_sizer = "'x fake_base" +
  fdzDiffSize :: "('e, 'l \<times> string, 64 word \<times> go_error option) fake_method"

definition FakeDiffSizer_DiffSize where
  "FakeDiffSizer_DiffSize = double ''DiffSize'' fdzDiffSize fdzDiffSize_update log_string"

record ('e, 'x) fake_container_id_provider = "'x fake_base" +
  fciProvideID :: "('e, string, layer_id option) fake_method"

definition FakeContainerIDProvider_ProvideID where
  "FakeContainerIDProvider_ProvideID = double ''ProvideID'' fciProvideID fciProvideID_update
     (\<lambda>path. [ArgString path])"

record ('e, 'x) fake_lock = "'x fake_base" +
  flkAcquire :: "('e, string, unit) fake_method"
  flkRelease :: "('e, string, go_error option) fake_method"

definition FakeLock_Acquire where
  "FakeLock_Acquire = double ''Acquire'' flkAcquire flkAcquire_update
     (\<lambda>key. [ArgString key])"

definition FakeLock_Release where
  "FakeLock_Release = double ''Release'' flkRelease flkRelease_update
     (\<lambda>key. [ArgString key])"

record ('e, 'c, 'l, 'x) fake_dialer = "'x fake_base" +
  fdlDial :: "('e, 'l \<times> string \<times> string \<times> string \<times> string, 'c option \<times> go_error option) fake_method"

definition FakeDialer_Dial where
  "FakeDialer_Dial = double ''Dial'' fdlDial fdlDial_update
     (\<lambda>(l, host, repo, username, password). [ArgOther (Logger l), ArgString host, ArgString repo, ArgString username, ArgString password])"

record ('e, 'l, 'x) fake_image_id_fetcher = "'x fake_base" +
  friFetchID :: "('e, 'l \<times> url option, layer_id option \<times> go_error option) fake_method"

definition FakeRemoteImageIDFetcher_FetchID where
  "FakeRemoteImageIDFetcher_FetchID = double ''FetchID'' friFetchID friFetchID_update log_url"

record ('e, 'l, 'x) fake_repository_fetcher = "'x fake_base" +
  frfFetch :: "('e, 'l \<times> url option \<times> string \<times> string \<times> int64, fetched option \<times> go_error option) fake_method"
  frfFetchID :: "('e, 'l \<times> url option, layer_id option \<times> go_error option) fake_method"

definition FakeRepositoryFetcher_Fetch where
  "FakeRepositoryFetcher_Fetch = double ''Fetch'' frfFetch frfFetch_update fetch_args"

definition FakeRepositoryFetcher_FetchID where
  "FakeRepositoryFetcher_FetchID = double ''FetchID'' frfFetchID frfFetchID_update log_url"

record ('e, 'x) fake_verifier = "'x fake_base" +
  fvVerify :: "('e, reader option \<times> digest, reader option \<times> int64 \<times> go_error option) fake_method"

definition FakeVerifier_Verify where
  "FakeVerifier_Verify = double ''Verify'' fvVerify fvVerify_update
     (\<lambda>(r, d). [ArgReader r, ArgString d])"

record ('e, 'l, 'x) fake_namespacer = "'x fake_base" +
  fnsCacheKey :: "('e, unit, string) fake_method"
  fnsNamespace :: "('e, 'l \<times> string, go_error option) fake_method"

definition FakeNamespacer_CacheKey where
  "FakeNamespacer_CacheKey = double ''CacheKey'' fnsCacheKey fnsCacheKey_update (\<lambda>_. [])"

definition FakeNamespacer_Namespace where
  "FakeNamespacer_Namespace = double ''Namespace'' fnsNamespace fnsNamespace_update log_string"

record ('e, 'x) fake_translator = "'x fake_base" +
  ftrCacheKey :: "('e, unit, string) fake_method"
  ftrTranslate :: "('e, string \<times> inode option \<times> go_error option, go_error option) fake_method"

definition FakeTranslator_CacheKey where
  "FakeTranslator_CacheKey = double ''CacheKey'' ftrCacheKey ftrCacheKey_update (\<lambda>_. [])"

definition FakeTranslator_Translate where
  "FakeTranslator_Translate = double ''Translate'' ftrTranslate ftrTranslate_update
     (\<lambda>(path, info, err). [ArgString path, ArgOther (FileInfo info), ArgOther (Error err)])"

record ('e, 'c, 'l, 'x) fake_gcer = "'x fake_base" +
  fgcGC :: "('e, 'l \<times> 'c, go_error option) fake_method"

definition FakeGCer_GC where
  "FakeGCer_GC = double ''GC'' fgcGC fgcGC_update
     (\<lambda>(l, cake). [ArgOther (Logger l), ArgOther (Opaque cake)])"

record ('e, 'l, 'x) fake_layer_creator = "'x fake_base" +
  flcCreate :: "('e, 'l \<times> string \<times> fetched option \<times> rootfs_spec, string \<times> string list \<times> go_error option) fake_method"

definition FakeLayerCreator_Create where
  "FakeLayerCreator_Create = double ''Create'' flcCreate flcCreate_update
     (\<lambda>(l, i, img, spec). [ArgOther (Logger l), ArgString i, ArgOther (Fetched img), ArgOther (Spec spec)])"

record ('e, 'l, 'x) fake_metricser = "'x fake_base" +
  fmtMetrics :: "('e, 'l \<times> layer_id, disk_stat \<times> go_error option) fake_method"

definition FakeMetricser_Metrics where
  "FakeMetricser_Metrics = double ''Metrics'' fmtMetrics fmtMetrics_update
     (\<lambda>(l, i). [ArgOther (Logger l), ArgID i])"

record ('e, 'l, 'x) fake_provider_fetcher = "'x fake_base" +
  fpfFetch :: "('e, 'l \<times> url option \<times> string \<times> string \<times> int64, fetched option \<times> go_error option) fake_method"

definition ProviderFetcher_Fetch where
  "ProviderFetcher_Fetch = double ''Fetch'' fpfFetch fpfFetch_update fetch_args"
section \<open>Every method is a spy\<close>

interpretation frtRun_spied: spied frtRun frtRun_update
  by unfold_locales simp_all

interpretation fthExceeded_spied: spied fthExceeded fthExceeded_update
  by unfold_locales simp_all

interpretation fiGraphID_spied: spied fiGraphID fiGraphID_update
  by unfold_locales simp_all

interpretation fipProvideID_spied: spied fipProvideID fipProvideID_update
  by unfold_locales simp_all

interpretation frnRetain_spied: spied frnRetain frnRetain_update
  by unfold_locales simp_all

interpretation fdpGetDiffLayerPath_spied: spied fdpGetDiffLayerPath fdpGetDiffLayerPath_update
  by unfold_locales simp_all

interpretation fbzBaseSize_spied: spied fbzBaseSize fbzBaseSize_update
  by unfold_locales simp_all

interpretation fdzDiffSize_spied: spied fdzDiffSize fdzDiffSize_update
  by unfold_locales simp_all

interpretation fciProvideID_spied: spied fciProvideID fciProvideID_update
  by unfold_locales simp_all

interpretation flkAcquire_spied: spied flkAcquire flkAcquire_update
  by unfold_locales simp_all

interpretation flkRelease_spied: spied flkRelease flkRelease_update
  by unfold_locales simp_all

interpretation fdlDial_spied: spied fdlDial fdlDial_update
  by unfold_locales simp_all

interpretation friFetchID_spied: spied friFetchID friFetchID_update
  by unfold_locales simp_all

interpretation frfFetch_spied: spied frfFetch frfFetch_update
  by unfold_locales simp_all

interpretation frfFetchID_spied: spied frfFetchID frfFetchID_update
  by unfold_locales simp_all

interpretation fvVerify_spied: spied fvVerify fvVerify_update
  by unfold_locales simp_all

interpretation fnsCacheKey_spied: spied fnsCacheKey fnsCacheKey_update
  by unfold_locales simp_all

interpretation fnsNamespace_spied: spied fnsNamespace fnsNamespace_update
  by unfold_locales simp_all

interpretation ftrCacheKey_spied: spied ftrCacheKey ftrCacheKey_update
  by unfold_locales simp_all

interpretation ftrTranslate_spied: spied ftrTranslate ftrTranslate_update
  by unfold_locales simp_all

interpretation fgcGC_spied: spied fgcGC fgcGC_update
  by unfold_locales simp_all

interpretation flcCreate_spied: spied flcCreate flcCreate_update
  by unfold_locales simp_all

interpretation fmtMetrics_spied: spied fmtMetrics fmtMetrics_update
  by unfold_locales simp_all

interpretation fpfFetch_spied: spied fpfFetch fpfFetch_update
  by unfold_locales simp_all

text \<open>What a test of the collector relies on: the calls of \<open>Exceeded\<close> are counted and answered.\<close>

lemma FakeThreshold_answers:
  assumes "Stub (fthExceeded fake) = None"
  shows "\<exists>fake'. call FakeThreshold_Exceeded a (fake, env) =
      (Inr (answer (fthExceeded fake) (callCount FakeThreshold_Exceeded fake)), (fake', env)) \<and>
    callCount FakeThreshold_Exceeded fake' = Suc (callCount FakeThreshold_Exceeded fake)"
proof -
  have count: "callCount FakeThreshold_Exceeded f = length (ArgsForCall (fthExceeded f))" for f
    by (simp add: FakeThreshold_Exceeded_def double_def)
  obtain fake' where "call FakeThreshold_Exceeded a (fake, env) =
      (Inr (answer (fthExceeded fake) (length (ArgsForCall (fthExceeded fake)))), (fake', env))"
    "fthExceeded fake' = (fthExceeded fake)\<lparr>ArgsForCall := ArgsForCall (fthExceeded fake) @ [a]\<rparr>"
    using fthExceeded_spied.call_unstubbed [OF assms] unfolding FakeThreshold_Exceeded_def by blast
  then show ?thesis unfolding count by simp
qed

section \<open>The older form\<close>

record ('e, 'a, 'r) plain_fake =
  PlainStub :: "('a \<Rightarrow> ('e, 'r) prog) option"
  PlainArgs :: "'a list"
  PlainReturns :: 'r

record ('e, 'a, 'r) plain_double =
  plainCall :: "'a \<Rightarrow> (('e, 'a, 'r) plain_fake \<times> 'e, 'r) prog"
  plainCallCount :: "('e, 'a, 'r) plain_fake \<Rightarrow> nat"
  plainArgsForCall :: "int \<Rightarrow> ('e, 'a, 'r) plain_fake \<Rightarrow> 'a outcome"
  plainSetReturns :: "'r \<Rightarrow> ('e, 'a, 'r) plain_fake \<Rightarrow> ('e, 'a, 'r) plain_fake"

definition plain_double :: "('e, 'a, 'r) plain_double" where
  "plain_double = \<lparr>
     plainCall = (\<lambda>a (fake, env).
       let fake' = fake\<lparr>PlainArgs := PlainArgs fake @ [a]\<rparr>
       in case PlainStub fake' of
            Some f \<Rightarrow> (case f a env of (r, env') \<Rightarrow> (r, (fake', env')))
          | None \<Rightarrow> (Inr (PlainReturns fake'), (fake', env))),
     plainCallCount = (\<lambda>fake. length (PlainArgs fake)),
     plainArgsForCall = (\<lambda>i fake.
       if 0 \<le> i \<and> i < int (length (PlainArgs fake)) then Inr (PlainArgs fake ! nat i)
       else Inl (Panic ''index out of range'')),
     plainSetReturns = (\<lambda>r fake. fake\<lparr>PlainStub := None, PlainReturns := r\<rparr>)\<rparr>"

definition FakeFetcher_Fetch :: "('e, url option \<times> int64, image option \<times> go_error option) plain_double" where
  "FakeFetcher_Fetch = plain_double"

definition FakeRemoteV1MetadataProvider_ProvideMetadata :: "('e, 'q, 'm option \<times> go_error option) plain_double" where
  "FakeRemoteV1MetadataProvider_ProvideMetadata = plain_double"

definition FakeRemoteV2MetadataProvider_ProvideMetadata :: "('e, 'q, 'm option \<times> go_error option) plain_double" where
  "FakeRemoteV2MetadataProvider_ProvideMetadata = plain_double"

definition FakeMapper_Map :: "('e, int, int) plain_double" where
  "FakeMapper_Map = plain_double"

lemma plain_double_records:
  assumes "PlainStub fake = None" and "plainCall plain_double a (fake, env) = (x, (fake', env'))"
  shows "x = Inr (PlainReturns fake) \<and> env' = env \<and>
    plainArgsForCall plain_double (int (plainCallCount plain_double fake)) fake' = Inr a"
  using assms by (auto simp: plain_double_def)

end
