(* ===== verification/Spec2Isabelle.thy ===== *)
theory Spec2Isabelle
  imports Live_Server Volume_Escape Fetch_Lock Component_Doubles
begin

text \<open>
  garden-shed makes and removes the root file systems of containers.  A \<open>CakeOrdinator\<close>
  (\<open>src/rootfs_provider/cakeordinator.go\<close>) answers four calls.  \<open>Create\<close> fetches an image from a
  registry or a directory into the layer store, puts a layer for the container on top of it (on a
  copy whose file owners are translated, when the container has a user namespace), mounts that and
  makes its volumes; \<open>Destroy\<close> removes a container's layer; \<open>Metrics\<close> measures its disk use; and
  \<open>GC\<close> removes the layers that nothing needs.  The layer store, a \<open>Cake\<close>, is docker's graph over
  docker's aufs driver, wrapped twice: by a driver that puts a quotaed file system under a layer,
  and by a cake that records in files which namespaced copy was made from which layer.

  \<^bold>\<open>Programs.\<close>  A Go function is a function of the world that returns an outcome and the world it
  leaves (\<open>prog\<close> in \<open>Prelude\<close>); an outcome is a value, an error or a panic.  \<open>bindE\<close> is a sequence
  of statements with \<open>if err != nil { return err }\<close> after each, \<open>handleE\<close> looks at the error,
  \<open>deferE\<close> is \<open>defer\<close>, \<open>ignoreE\<close> drops the error.  The world is a record that grows with the
  components: files and the faults of file operations (\<open>Os_Files\<close>), the graph's index and image
  directories (\<open>Docker_Graph\<close>), mounts and the state of external commands (\<open>Aufs_Driver\<close>).  Every
  file operation may fail, by \<open>os_fault\<close>; the map orders that Go leaves open are the world's
  \<open>visitOrder\<close>.  \<open>int64\<close> values are words of 64 bits, read with \<open>sint\<close>.

  \<^bold>\<open>Theories\<close>, in the order of imports, with the code they model.
  \<^item> \<open>Prelude\<close>, \<open>Go_Strings\<close>, \<open>Sha256\<close>, \<open>Os_Files\<close>, \<open>Urls\<close>: outcomes and the logic of \<open>frame\<close>,
    \<open>calm\<close>, \<open>keeps\<close> and \<open>yields\<close>; Go's strings, SHA-256, files and URLs, as far as the code uses them.
  \<^item> \<open>Layer_Ids\<close>: the IDs of \<open>src/layercake/docker.go\<close>, \<open>ValidateID\<close> and digests.
  \<^item> \<open>Quotaed_Reader\<close>: \<open>src/quotaedreader\<close> and \<open>io.Copy\<close>.
  \<^item> \<open>Cake\<close>: the interface of \<open>src/layercake/cake.go\<close>, its specification by the locales
    \<open>layer_store\<close> (reading and removing) and \<open>creating_store\<close> (adding and mounting) over an
    abstract store, a map from graph IDs to images.
  \<^item> \<open>Docker_Graph\<close>, \<open>Docker_Cake\<close>, \<open>Aufs_Driver\<close>, \<open>Quotaed_Driver\<close>, \<open>Aufs_Cake\<close>: the vendored
    graph and aufs driver, and \<open>src/layercake/docker.go\<close>, \<open>src/docker_drivers/aufs\<close>,
    \<open>src/layercake/aufs.go\<close> on top of them.
  \<^item> \<open>Driver_Steps\<close>, \<open>Shed_Store\<close>, \<open>Aufs_Creation\<close>: the composition of these five refines the
    abstract store; \<open>shed_layers\<close> is the abstraction and \<open>shed_inv\<close> the invariant.
  \<^item> \<open>Cleaner\<close>, \<open>Collection\<close>: \<open>src/layercake/cleaner\<close>, first over any \<open>layer_store\<close>, then on the
    server's.
  \<^item> \<open>Dist_Client\<close>, \<open>Fetching\<close>, \<open>Fetch_Lock\<close>, \<open>Retaining\<close>, \<open>Fetch_Effects\<close>: \<open>src/distclient\<close> and
    \<open>src/repository_fetcher\<close>; what fetching returns, that it adds layers only, and the lock of a
    download under any interleaving.
  \<^item> \<open>Container_Layers\<close>, \<open>Layer_Creation\<close>, \<open>Uid_Namespace\<close>, \<open>Quota_Manager\<close>, \<open>Cakeordinator\<close>,
    \<open>Wire\<close>, \<open>Server\<close>: \<open>src/rootfs_provider\<close>, \<open>src/pkg/chown\<close> and \<open>src/quota_manager\<close>, and the server
    as a relation on worlds, one step for each call.
  \<^item> \<open>Layers_Files\<close>, \<open>Live_Server\<close>: the files of a layer when nothing fails, from the driver up
    to \<open>Create\<close>, \<open>Destroy\<close> and \<open>GC\<close>, and example hosts on which they succeed.
  \<^item> \<open>Volume_Escape\<close>: what an image volume with \<open>..\<close> in its name does to the store.
  \<^item> \<open>Retrying\<close>, \<open>Health_Check\<close>, \<open>Test_Doubles\<close>, \<open>Component_Doubles\<close>: \<open>src/pkg/retrier\<close>, \<open>src/layercake/healthcheck.go\<close>
    and the generated doubles.  \<open>Sample_Worlds\<close> and the end of \<open>Server\<close> hold the examples.

  \<^bold>\<open>What is shown.\<close>  The groups of lemmas follow the interfaces.  The interpretations of
  \<open>layer_store\<close> and \<open>creating_store\<close> show that removing, creating, copying and mounting have, on
  files, index and metadata, exactly the effect on the abstract store that the specification
  says, for every pattern of failing commands.  The collector, the layer creator, the fetchers and
  the sizes are verified once, inside the locales.  The properties in this theory are about the
  server that \<open>Wire\<close> builds: its invariant, what each call may change, that containers and retained
  images survive, that collection is complete, that destroying undoes creating, and that creations
  (without a user namespace and a quota, of a directory that is in the store), destructions and
  collections succeed on a host where mounting and unmounting work.  Those of the
  other theories are about one component each; \<open>Volume_Escape\<close> shows why the assumption on volumes
  below is needed.

  \<^bold>\<open>Hypotheses.\<close> Code that is not in the repository is a parameter: commands,
  mounting and unpacking (\<open>env\<close>), decompression, the registry protocol, archives,
  random file names and the clock. The properties of the server assume of them: the retrier runs
  its callback (\<open>server_graph\<close>; \<open>Retrying\<close> shows it of
  \<open>src/pkg/retrier\<close>), \<open>cp\<close> writes below its destination
  (\<open>copies_below\<close>), listing a directory gives names and depends on the files only
  (\<open>listing\<close>; with it the UID namespacer works below the directory it is given,
  \<open>works_below\<close>), the registry client and the archiver do not write to the store
  (\<open>registry_ok\<close>, \<open>http_ok\<close>) and temporary files of downloads are not in
  the store (\<open>tmp_apart\<close>). One premise of \<open>serves\<close> is about the images and not about
  libraries: the volumes of a manifest stay inside the container's root (\<open>plain_volumes\<close>; any
  name without a \<open>..\<close> that climbs above its start is fine, trailing slashes included). The code
  does not check this, and the theory \<open>Volume_Escape\<close> shows that the invariant fails without it. Instances
  (\<open>kernel_runner\<close>, \<open>kernel_http\<close>, \<open>kernel_tar\<close>) show that all these can hold together.
  \<open>shed_inv\<close> includes that file operations do not fail by themselves
  (\<open>no_faults\<close>): with a failing disk the removal of a record can stop half-way.
  External commands may fail at any time; only \<open>Create_succeeds\<close> assumes that mounting succeeds
  (\<open>healthy\<close>) and that no file is in the way of the layer (\<open>ready_for\<close>), and
  \<open>Destroy_succeeds\<close> and \<open>GC_succeeds\<close> that unmounting a mount point does (\<open>unmounts\<close>; unmounting
  any other path may fail) and that the retrier stops at a success (\<open>first_try\<close>).

  \<^bold>\<open>Bounds and fuel.\<close>  The loops of the code that need not end are \<open>partial_function\<close>s
  (\<open>removeRecursively\<close>, \<open>base_loop\<close>); that they return is part of the properties.  \<open>io.Copy\<close> has as
  fuel the number of pieces the stream still has, plus one, which \<open>scripted\<close> and \<open>quotaed_script\<close>
  show to be enough.  Walking a tree has as fuel a bound on its depth.  The 10000 names
  of \<open>ioutil.TempFile\<close>, the five tries of \<open>Docker.Path\<close>, the three attempts of a fetch and the 40
  links of a path are bounds of the code or of Go's library.

  \<^bold>\<open>Not modelled.\<close>  Calls that overlap: in \<open>calls\<close> each call of the ordinator is one step. The code
  does not enforce that: \<open>Create\<close> takes the read side of the ordinator's lock, so that creations may
  overlap, and \<open>Destroy\<close> and \<open>Metrics\<close> take no lock, so that they may run during any other call. The
  read-write lock and the fetch lock are verified by themselves, over all interleavings; the mutexes
  of the layer creator, the local fetcher and docker's graph are left out.  The text of JSON and tar files is abstracted to the
  values they stand for.  Logging is left out, and so are \<open>dockerImage\<close> and \<open>FetchError\<close> of
  \<open>composite.go\<close>, which nothing calls, the start-up loop of docker's graph, the
  parts of the vendored libraries that are not called through the cake, the stubs for other
  systems, tests and scripts.
\<close>

section \<open>Garbage collection of the server's store\<close>

text \<open>
  C2: Garbage collection is safe and returns.  On any store of the server that satisfies the
  invariant, \<open>CakeOrdinator.GC\<close> returns without a panic and keeps the invariant of graph and
  metadata; the layers it takes are neither held nor containers, and no layer that stays loses its
  parent.
\<close>

theorem GC_safe:
  assumes "server_graph r g" and "shed_inv g w"
  shows "\<exists>x w'. Cakeordinator_GC
      (wired_ordinator (wired_cake g runner r) fetcher ns usage id2path h megabytes) w = Some (x, w') \<and>
    shed_inv g w' \<and> collects (held h) (shed_layers g w) (shed_layers g w') \<and>
    (\<forall>s. x \<noteq> Inl (Panic s))"
  using GC_shed [OF assms] unfolding Cakeordinator_GC_wired by blast

lemma GC_safe_witness:
  "\<exists>x w'. Cakeordinator_GC (sample_ordinator (Retain NewRetainer (DockerImageID base_id)) 0) two_layers
      = Some (x, w') \<and> shed_inv sample_graph w' \<and>
    collects {base_id} [base_id \<mapsto> base_image, top_id \<mapsto> top_image] (shed_layers sample_graph w') \<and>
    (\<forall>s. x \<noteq> Inl (Panic s))"
  using GC_safe [OF sample_server, where w = two_layers and
    h = "Retain NewRetainer (DockerImageID base_id)"] by simp

text \<open>
  C3: Garbage collection is complete.  When the layers together are larger than the limit and the
  collection reports success, every leaf that is left is held or a container; when they are not,
  the collection changes nothing and succeeds.  The limit is compared with the sum of the sizes
  over all layers, as long as that sum fits in 63 bits.
\<close>

theorem GC_complete:
  assumes "server_graph r g" and "shed_inv g w"
    and "stored_bytes (shed_layers g w) \<le> max_int64" and "0 \<le> sint (megabytes * 1024 * 1024)"
    and "GC (Check h) (wired_threshold megabytes) (wired_cake g runner r) w = Some (x, w')"
  shows "if stored_bytes (shed_layers g w) > sint (megabytes * 1024 * 1024)
    then x = Inr () \<longrightarrow> (\<forall>j. leaf (shed_layers g w') j \<longrightarrow> pinned (held h) (shed_layers g w') j)
    else x = Inr () \<and> w' = w"
proof -
  have "Exceeded (wired_threshold megabytes) (wired_cake g runner r) w =
      (Inr (stored_bytes (shed_layers g w) > sint (megabytes * 1024 * 1024)), w)"
    unfolding wired_threshold_def by (rule Exceeded_exact [OF assms(1-4)])
  with GC_shed [OF assms(1-2), of h "wired_threshold megabytes" runner] assms(5)
  show ?thesis by auto
qed

lemma GC_complete_witness:
  "(\<exists>w'. GC (Check NewRetainer) (wired_threshold 0) sample_cake two_layers = Some (Inr (), w') \<and>
      shed_layers sample_graph w' = Map.empty) \<and>
    GC (Check NewRetainer) (wired_threshold 1) sample_cake two_layers = Some (Inr (), two_layers)"
proof -
  let ?L = "[base_id \<mapsto> base_image, top_id \<mapsto> top_image]"
  have bytes: "stored_bytes (shed_layers sample_graph two_layers) = 100"
    by (simp only: two_layers) (simp add: stored_bytes_def)
  obtain w' where run: "GC (Check NewRetainer) (wired_threshold 0) sample_cake two_layers = Some (Inr (), w')"
    using GC_works [OF sample_unmounting two_layers(1)] by blast
  obtain w1 where below: "GC (Check NewRetainer) (wired_threshold 1) sample_cake two_layers = Some (Inr (), w1)"
    using GC_works [OF sample_unmounting two_layers(1)] by blast
  let ?M = "shed_layers sample_graph w'"
  have "collects {} ?L ?M"
    using GC_shed [OF sample_server two_layers(1), of NewRetainer "wired_threshold 0" "\<lambda>_. ret ()"] run by auto
  then have sub: "?M \<subseteq>\<^sub>m ?L" by (simp add: collects_def)
  have left: "\<forall>j. leaf ?M j \<longrightarrow> pinned {} ?M j"
    using GC_complete [OF sample_server two_layers(1) _ _ run] bytes by (simp add: max_int64_def)
  have "?M base_id = None \<or> ?M base_id = Some base_image" using below_two_layers [OF sub, of base_id] by simp
  then have "\<not> pinned {} ?M base_id" by (auto simp: pinned_def)
  then have "?M = Map.empty" by (intro collected_two_layers(2) [OF sub left]) simp_all
  moreover have "w1 = two_layers"
    using GC_complete [OF sample_server two_layers(1) _ _ below] bytes by (simp add: max_int64_def)
  ultimately show ?thesis using run below by blast
qed

text \<open>
  C4: A collection succeeds.  When unmounting works and file operations do not fail, \<open>GC\<close> comes to an
  end without an error, keeps the invariant, and takes only layers that are neither held nor
  containers; if the store was over the threshold, every leaf that is left is held or a container.
\<close>

theorem GC_succeeds:
  assumes "unmounting_server r g" and "shed_inv g w"
    and "Exceeded th (wired_cake g runner r) w = (Inr exceeded, w)"
  shows "\<exists>w'. GC (Check h) th (wired_cake g runner r) w = Some (Inr (), w') \<and> shed_inv g w' \<and>
    collects (held h) (shed_layers g w) (shed_layers g w') \<and>
    (if exceeded then \<forall>j. leaf (shed_layers g w') j \<longrightarrow> pinned (held h) (shed_layers g w') j else w' = w)"
  using GC_works [OF assms(1,2), of h th runner] assms(3)
    GC_shed [OF unmounting_server_graph [OF assms(1)] assms(2), of h th runner] by auto

lemma GC_succeeds_witness:
  "\<exists>w'. GC (Check (Retain NewRetainer (DockerImageID base_id))) (wired_threshold 0) sample_cake two_layers =
      Some (Inr (), w') \<and> shed_layers sample_graph w' base_id = Some base_image \<and> leaf (shed_layers sample_graph w') base_id"
proof -
  let ?h = "Retain NewRetainer (DockerImageID base_id)" and ?L = "[base_id \<mapsto> base_image, top_id \<mapsto> top_image]"
  have "stored_bytes (shed_layers sample_graph two_layers) = 100"
    by (simp only: two_layers) (simp add: stored_bytes_def)
  then have "Exceeded (wired_threshold 0) sample_cake two_layers = (Inr True, two_layers)"
    unfolding wired_threshold_def
    using Exceeded_exact [OF sample_server two_layers(1), of 0 "\<lambda>_. ret ()"] by (simp add: max_int64_def)
  from GC_succeeds [OF sample_unmounting two_layers(1) this, of ?h] obtain w' where
    run: "GC (Check ?h) (wired_threshold 0) sample_cake two_layers = Some (Inr (), w')"
    and eff: "collects {base_id} ?L (shed_layers sample_graph w')"
      "\<forall>j. leaf (shed_layers sample_graph w') j \<longrightarrow> pinned {base_id} (shed_layers sample_graph w') j" by auto
  let ?M = "shed_layers sample_graph w'"
  have sub: "?M \<subseteq>\<^sub>m ?L" using eff(1) by (simp add: collects_def)
  have "?L base_id = Some base_image" by simp
  with eff(1) have "?M base_id \<noteq> None" unfolding collects_def by blast
  with below_two_layers [OF sub, of base_id] have base: "?M base_id = Some base_image" by simp
  with collected_two_layers(3) [OF sub eff(2)] have "leaf ?M base_id" by simp
  with run base show ?thesis by blast
qed

text \<open>
  C6: Retained images survive.  The images that the retainer finds for its configuration, the
  namespaced copies of them, and all ancestors of either up the chain of parents, are in the store
  after any collection, unchanged.
\<close>

theorem retained_images_survive:
  assumes "server_graph r g" and "shed_inv g w"
    and "wired_retain fetcher ns persistentImages h0 w0 = (Inr h, w1)"
    and "GC (Check h) th (wired_cake g runner r) w = Some (x, w')"
    and "i \<in> held_for (CacheKey ns) (found_ids (FetchID fetcher) ProvideID persistentImages w0)"
    and "i \<in> dom (shed_layers g w)" and "ancestor (shed_layers g w) i j"
  shows "j \<in> dom (shed_layers g w') \<and> shed_layers g w' j = shed_layers g w j"
proof (rule collects_keeps_ancestors [OF _ _ assms(6,7)])
  show "collects (held h) (shed_layers g w) (shed_layers g w')"
    using GC_shed [OF assms(1-2), of h th runner] assms(4) by auto
  have "i \<in> held h"
    using Retain_images_held [OF assms(3) [unfolded wired_retain_def]] assms(5) by blast
  then show "pinned (held h) (shed_layers g w) i" by (simp add: pinned_def)
qed

lemma retained_images_survive_witness:
  "\<exists>h w1. wired_retain sample_fetcher sample_namespacer [''docker:///busybox''] NewRetainer two_layers = (Inr h, w1) \<and>
    (\<exists>x w'. GC (Check h) (wired_threshold 0) sample_cake two_layers = Some (x, w') \<and>
      shed_layers sample_graph w' base_id = Some base_image)"
proof -
  have p: "url_Parse ''docker:///busybox'' =
      Inr \<lparr>Scheme = ''docker'', Host = [], UrlPath = ''/busybox'', Fragment = []\<rparr>"
    by code_simp
  let ?h = "Retain (Retain NewRetainer (DockerImageID top_id)) (NamespacedID (DockerImageID top_id) ''key'')"
  have retain: "wired_retain sample_fetcher sample_namespacer [''docker:///busybox''] NewRetainer two_layers
      = (Inr ?h, two_layers)"
    by (simp add: wired_retain_def sample_fetcher_def sample_namespacer_def toID_def p)
  have found: "top_id \<in> held_for (CacheKey sample_namespacer)
      (found_ids (FetchID sample_fetcher) ProvideID [''docker:///busybox''] two_layers)"
    by (simp add: sample_fetcher_def toID_def p)
  obtain x w' where run: "GC (Check ?h) (wired_threshold 0) sample_cake two_layers = Some (x, w')"
    using GC_shed [OF sample_server, where w = two_layers] two_layers(1) by blast
  have "ancestor (shed_layers sample_graph two_layers) top_id (Parent top_image)"
    by (rule ancestor.up [OF ancestor.self]) simp_all
  then have "shed_layers sample_graph w' base_id = Some base_image"
    using retained_images_survive [OF sample_server two_layers(1) retain run found, of base_id]
    by simp
  with retain run show ?thesis by blast
qed

section \<open>The server's calls\<close>



text \<open>
  C7: A creation only adds.  Whatever a creation does (fetching layers from a registry or a
  directory, copying and translating a base layer, mounting, making volumes) and wherever it fails,
  every layer that was in the store is still there, unchanged; when it succeeds, the container has
  a layer, and the root path it answers with is a directory of one layer below the graph's root.
\<close>

theorem Create_adds:
  assumes "serves r g h c" and "shed_inv g w" and "i \<noteq> []"
    and "Cakeordinator_Create c i spec w = (x, w')"
  shows "shed_inv g w' \<and> grows UNIV (shed_layers g w) (shed_layers g w') \<and>
    (\<forall>b. x = Inr b \<longrightarrow> layer_dir r (specRoot b) \<and> shaID i \<in> dom (shed_layers g w'))"
  by (rule Create_server [OF assms])

lemma Create_adds_witness:
  "shed_layers sample_graph (snd (Cakeordinator_Create sample_service ''web'' sample_spec two_layers)) top_id
    = Some top_image"
proof -
  obtain x w' where run: "Cakeordinator_Create sample_service ''web'' sample_spec two_layers = (x, w')"
    by (cases "Cakeordinator_Create sample_service ''web'' sample_spec two_layers")
  have "grows UNIV [base_id \<mapsto> base_image, top_id \<mapsto> top_image] (shed_layers sample_graph w')"
    using Create_adds [OF sample_serves two_layers(1) _ run] by simp
  then have "shed_layers sample_graph w' top_id = [base_id \<mapsto> base_image, top_id \<mapsto> top_image] top_id"
    unfolding grows_def by (metis fun_upd_same option.distinct(1))
  with run show ?thesis by simp
qed

text \<open>
  C5: A container keeps its whole chain.  A layer that belongs to a container, and all its ancestors
  up the chain of parents (those that only the metadata records included), are in the store,
  unchanged, after any sequence of calls that does not destroy one of them: creations, collections,
  metrics and destructions of other containers leave them alone.
\<close>

theorem container_survives_calls:
  assumes "serves r g h c" and "shed_inv g w" and "calls c evs w w'"
    and "shed_layers g w i = Some img" and "Container img \<noteq> []"
    and "\<forall>j. DestroyCall j \<in> set evs \<longrightarrow> \<not> ancestor (shed_layers g w) i (shaID j)"
    and "ancestor (shed_layers g w) i k"
  shows "k \<in> dom (shed_layers g w') \<and> shed_layers g w' k = shed_layers g w k"
proof -
  have "shed_layers g w' k = shed_layers g w k"
    by (rule calls_keep_container [OF assms(3,1,2,4-7)])
  moreover have "k \<in> dom (shed_layers g w)" using ancestor_dom [OF assms(7)] assms(4) by blast
  ultimately show ?thesis by (simp add: domIff)
qed

lemma container_survives_calls_witness:
  "\<exists>w'. calls sample_service [GCCall] one_container w' \<and> shed_layers sample_graph w' base_id = Some base_image"
proof -
  obtain x w' where gc: "Cakeordinator_GC sample_service one_container = Some (x, w')"
    using GC_server [OF sample_serves one_container(1)] by blast
  have run: "calls sample_service [GCCall] one_container w'"
    using calls.more [OF calls.none call.collect [OF gc]] by simp
  have "ancestor (shed_layers sample_graph one_container) run_id (Parent run_image)"
    by (rule ancestor.up [OF ancestor.self]) simp_all
  then have "shed_layers sample_graph w' base_id = Some base_image"
    using container_survives_calls [OF sample_serves one_container(1) run, of run_id run_image base_id]
    by simp
  with run show ?thesis by blast
qed

text \<open>
  C8: A creation without a user namespace and without a quota succeeds.  On a host whose mounts succeed
  and whose file operations do not fail, with the directory of the container's root file system in
  the store (its list of ancestors included), no layer for the container yet and nothing in the way
  of the layer's directories, \<open>Create\<close> comes to an end without an error; the bundle's root is the mount
  point of the container's layer, and the store has that one new layer, on top of the directory's.
\<close>

theorem Create_succeeds:
  assumes "serves r g h c" and "g = wired_graph env run decompress r" and "healthy env"
    and "shed_inv g w" and "i \<noteq> []"
    and "\<not> Namespaced spec" and "sint (QuotaSize spec) \<le> 0" and "Scheme (RootFS spec) = []"
    and "clean_abs (UrlPath (RootFS spec))" and "files w (UrlPath (RootFS spec)) = Some d" and "kind d = Directory"
    and "b = LocalImageID (UrlPath (RootFS spec)) (mtime d)" and "GraphID b \<in> dom (shed_layers g w)"
    and "shaID i \<notin> dom (shed_layers g w)"
    and "ready_for (path_join [r, ''aufs'']) (GraphID b) (lines_text ids) (shaID i) w"
    and "list_all ValidateID ids"
  shows "\<exists>w'. Cakeordinator_Create c i spec w =
      (Inr \<lparr>specRoot = path_join [path_join [r, ''aufs''], ''mnt'', shaID i], specEnv = []\<rparr>, w') \<and>
    shed_inv g w' \<and>
    shed_layers g w' = (shed_layers g w)(shaID i \<mapsto> new_layer (ContainerID i) (DockerImageID (GraphID b)) i)"
  by (rule Create_ready [OF assms])

lemma Create_succeeds_witness:
  "\<exists>w'. Cakeordinator_Create sample_service ''abc'' plain_spec live_host =
      (Inr \<lparr>specRoot = path_join [garden_aufs, ''mnt'', shaID ''abc''], specEnv = []\<rparr>, w') \<and>
    shed_layers sample_graph w' =
      [rootfs_id \<mapsto> rootfs_image, shaID ''abc'' \<mapsto> new_layer (ContainerID ''abc'') (DockerImageID rootfs_id) ''abc'']"
proof -
  have valid: "ValidateID (shaID ''abc'')" by (simp add: ValidateID_shaID_iff)
  have dir: "live_files ''/rootfs'' = Some (new_inode Directory)"
    using live_rootfs .
  have id: "GraphID (LocalImageID ''/rootfs'' (mtime (new_inode Directory))) = rootfs_id"
    by (simp add: rootfs_id_def new_inode_def)
  have "clean_abs ''/rootfs''" by code_simp
  then show ?thesis
    using Create_succeeds [OF sample_serves refl healthy_sample live_store(1),
        of "''abc''" plain_spec "new_inode Directory" _ "[]", OF _ _ _ _ _ _ _ refl]
      live_ready [OF valid abc_not_rootfs] abc_not_rootfs dir id
    by (auto simp: live_store(2) plain_spec_def sample_spec_def empty_url_def new_inode_def)
qed

section \<open>Creating the layers of a container\<close>

text \<open>
  C9: The layers of a container.  \<open>ContainerLayerCreator.Create\<close> touches at most two layers.  When it
  succeeds, the store has the container's layer on top of the image, or on top of the image's copy
  for the namespacer's key, which it made unless the store had it; the path it gives is the mounted
  directory of a layer and the environment is the image's.
\<close>

theorem LayerCreator_exact:
  assumes "server_graph r g" and "copies_below runner" and "works_below n"
    and "shed_inv g w" and "ValidateID (ImageID img)" and "i \<noteq> []"
    and "list_all volume_name (ImgVolumes img)"
    and "LayerCreator_Create (wired_creator (wired_cake g runner r) n) i img spec w = (x, w')"
  shows "shed_inv g w' \<and>
    grows {GraphID (base_layer (CacheKey n) spec img), shaID i} (shed_layers g w) (shed_layers g w') \<and>
    (\<forall>p e. x = Inr (p, e) \<longrightarrow> layer_dir r p \<and> e = ImgEnv img \<and>
       shed_layers g w' = with_container (CacheKey n) i spec img (shed_layers g w))"
  using LayerCreator_shed [OF assms(1-7) assms(8) [unfolded wired_cake_shed [OF assms(1)]]] by simp

lemma LayerCreator_exact_witness:
  "shed_inv sample_graph (snd (LayerCreator_Create (wired_creator sample_cake sample_namespacer) ''web''
     sample_fetched sample_spec two_layers))"
proof -
  let ?m = "LayerCreator_Create (wired_creator sample_cake sample_namespacer) ''web'' sample_fetched sample_spec"
  obtain x w' where run: "?m two_layers = (x, w')" by (cases "?m two_layers")
  show ?thesis
    using LayerCreator_exact [OF sample_server sample_copies sample_works two_layers(1) _ _ _ run]
    by (simp add: run)
qed

text \<open>
  C10: Destroying undoes creating.  When the layers of a container were created and the container was
  destroyed, both with success, the store has the layers it had before, and beyond them only the
  namespaced copy of the image, which stays for the next container; in between, the container's
  layer was in the store, on top of the image or of its copy.
\<close>

theorem Create_Destroy_inverse:
  assumes "server_graph r g" and "copies_below runner" and "works_below n"
    and "shed_inv g w" and "ValidateID (ImageID img)" and "i \<noteq> []"
    and "list_all volume_name (ImgVolumes img)"
    and "LayerCreator_Create (wired_creator (wired_cake g runner r) n) i img spec w = (Inr b, w1)"
    and "ordCake c = wired_cake g runner r" and "Destroy c i w1 = (Inr (), w2)"
    and "shaID i \<notin> dom (with_copy (CacheKey n) spec img (shed_layers g w))"
  shows "shed_layers g w1 (shaID i) = Some (new_layer (ContainerID i) (base_layer (CacheKey n) spec img) i) \<and>
    shed_layers g w2 = with_copy (CacheKey n) spec img (shed_layers g w)"
proof -
  let ?L = "with_copy (CacheKey n) spec img (shed_layers g w)"
  let ?img = "new_layer (ContainerID i) (base_layer (CacheKey n) spec img) i"
  have inv1: "shed_inv g w1" and made: "shed_layers g w1 = with_container (CacheKey n) i spec img (shed_layers g w)"
    using LayerCreator_shed [OF assms(1-7) assms(8) [unfolded wired_cake_shed [OF assms(1)]]] by (cases b; simp)+
  then have layers: "shed_layers g w1 = ?L(shaID i \<mapsto> ?img)"
    using assms(11) by (simp add: with_container_def add_layer_def)
  from Destroy_shed [OF assms(1) inv1 assms(9,6,10)]
  have "shed_layers g w2 = (shed_layers g w1)(shaID i := None)" by simp
  also have "\<dots> = ?L" using assms(11) by (simp add: layers fun_upd_idem domIff)
  finally show ?thesis by (simp add: layers)
qed

lemma Create_Destroy_inverse_witness:
  "\<exists>b w1 w2. LayerCreator_Create (wired_creator sample_cake sample_namespacer) ''abc'' live_fetched plain_spec live_host =
      (Inr b, w1) \<and> Destroy (sample_ordinator NewRetainer 0) ''abc'' w1 = (Inr (), w2) \<and>
    shaID ''abc'' \<in> dom (shed_layers sample_graph w1) \<and> shed_layers sample_graph w2 = [rootfs_id \<mapsto> rootfs_image]"
proof -
  let ?c = "sample_ordinator NewRetainer 0"
  have o: "ordCake ?c = sample_cake" by (simp add: wired_ordinator_def)
  obtain w1 where create: "LayerCreator_Create (wired_creator sample_cake sample_namespacer) ''abc'' live_fetched plain_spec
      live_host = (Inr (path_join [garden_aufs, ''mnt'', shaID ''abc''], []), w1)"
    using live_creation by blast
  have inv1: "shed_inv sample_graph w1"
    using LayerCreator_shed [OF sample_server sample_copies sample_works live_store(1) _ _ _
        create [unfolded wired_cake_shed [OF sample_server]]] by simp
  obtain w2 where destroy: "Destroy ?c ''abc'' w1 = (Inr (), w2)"
    using Destroy_works [OF sample_unmounting inv1 o, of "''abc''"] by auto
  have copy: "with_copy k plain_spec f L = L" for k f L by (simp add: with_copy_def plain_spec_def)
  from Create_Destroy_inverse [OF sample_server sample_copies sample_works live_store(1) _ _ _ create o destroy]
  have "shaID ''abc'' \<in> dom (shed_layers sample_graph w1)" "shed_layers sample_graph w2 = [rootfs_id \<mapsto> rootfs_image]"
    using abc_not_rootfs by (auto simp: copy live_store(2))
  with create destroy show ?thesis by blast
qed

section \<open>The layers of the server's store\<close>

text \<open>
  C12: Removing a layer.  \<open>Remove\<close> of a valid ID, registered or not, does not panic and keeps the
  invariant; on success exactly this layer is gone, its record and its line in the parent's record
  with it, and on an error every layer is still there with the same parent.
\<close>

theorem Remove_exact:
  assumes "server_graph r g" and "shed_inv g w"
    and "ValidateID (GraphID i)" and "Remove (wired_cake g runner r) i w = (x, w')"
  shows "shed_inv g w' \<and> (case x of
      Inr _ \<Rightarrow> shed_layers g w' = (shed_layers g w)(GraphID i := None)
    | Inl (Err _) \<Rightarrow> shed_layers g w' = shed_layers g w
    | Inl (Panic _) \<Rightarrow> False)"
  using Remove_shed [OF assms] by blast

lemma Remove_exact_witness:
  "shed_inv sample_graph (snd (Remove sample_cake (DockerImageID top_id) two_layers))"
proof -
  obtain x w' where run: "Remove sample_cake (DockerImageID top_id) two_layers = (x, w')"
    by (cases "Remove sample_cake (DockerImageID top_id) two_layers")
  show ?thesis using Remove_exact [OF sample_server two_layers(1) _ run] run by simp
qed

text \<open>
  C13: \<open>IsLeaf\<close> and \<open>GetAllLeaves\<close> are exact.  Both answer without changing the store, and what they
  answer are the layers that are in the store and that no layer has as its parent, whether the
  parent is the graph's or the one that the metadata records.
\<close>

theorem leaves_exact:
  assumes "server_graph r g" and "shed_inv g w"
  shows "IsLeaf (wired_cake g runner r) i w = (Inr (leaf (shed_layers g w) (GraphID i)), w) \<and>
    (\<exists>ids. GetAllLeaves (wired_cake g runner r) w = (Inr ids, w) \<and> distinct (map GraphID ids) \<and>
       set (map GraphID ids) = {s. leaf (shed_layers g w) s})"
  using layer_store.IsLeaf_exact [OF shed_store [OF assms(1)] assms(2)]
    layer_store.GetAllLeaves_exact [OF shed_store [OF assms(1)] assms(2)] by blast

lemma leaves_exact_witness:
  "IsLeaf sample_cake (DockerImageID top_id) two_layers = (Inr True, two_layers) \<and>
    IsLeaf sample_cake (DockerImageID base_id) two_layers = (Inr False, two_layers)"
  using leaves_exact [OF sample_server two_layers(1)] by simp

text \<open>
  C14: \<open>Get\<close> is exact.  It gives the image of a layer that is in the store, with the parent that the
  metadata records when the graph has none, an error for a valid ID that is not, and it changes
  nothing.
\<close>

theorem Get_exact:
  assumes "server_graph r g" and "shed_inv g w"
    and "ValidateID (GraphID i)"
  shows "case shed_layers g w (GraphID i) of
      Some img \<Rightarrow> Get (wired_cake g runner r) i w = (Inr img, w) \<and> ID img = GraphID i
    | None \<Rightarrow> \<exists>e. Get (wired_cake g runner r) i w = (Inl (Err e), w)"
  using layer_store.Get_present [OF shed_store [OF assms(1)] assms(2), of i]
    layer_store.Get_absent [OF shed_store [OF assms(1)] assms(2,3)]
    layer_store.valid_layers [OF shed_store [OF assms(1)] assms(2), of "GraphID i"]
  by (cases "shed_layers g w (GraphID i)") auto

lemma Get_exact_witness:
  "Get sample_cake (DockerImageID top_id) two_layers = (Inr top_image, two_layers)"
  using Get_exact [OF sample_server two_layers(1), of "DockerImageID top_id"] by simp

text \<open>
  C15: Destroying a container.  \<open>Destroy\<close> does not panic.  For a container without a layer it succeeds
  and changes nothing at all.  On success the container has no layer and every other layer is as
  before, so that a second call succeeds without an effect; on an error every layer is still there,
  as before (the mount and the backing store may be gone, since \<open>Put\<close> comes first).
\<close>

theorem Destroy_exact:
  assumes "server_graph r g" and "shed_inv g w"
    and "ordCake c = wired_cake g runner r" and "i \<noteq> []"
    and "Destroy c i w = (x, w')"
  shows "shed_inv g w' \<and> (shed_layers g w (shaID i) = None \<longrightarrow> x = Inr () \<and> w' = w) \<and> (case x of
       Inr _ \<Rightarrow> shed_layers g w' = (shed_layers g w)(shaID i := None) \<and> Destroy c i w' = (Inr (), w')
     | Inl (Err _) \<Rightarrow> shed_layers g w' = shed_layers g w
     | Inl (Panic _) \<Rightarrow> False)"
proof -
  note store = shed_store [OF assms(1), of runner]
  note eff = Destroy_shed [OF assms(1,2,3,4,5)]
  have absent: "Destroy c i v = (Inr (), v)" if "shed_inv g v" "shed_layers g v (shaID i) = None" for v
  proof -
    have "ValidateID (GraphID (ContainerID i))" using assms(4) by (simp add: ValidateID_shaID_iff)
    from layer_store.Get_absent [OF store that(1) this] that(2) assms(3) show ?thesis
      by (auto simp: Destroy_def handleE_def)
  qed
  have "shed_layers g w (shaID i) = None \<longrightarrow> x = Inr () \<and> w' = w" using absent [OF assms(2)] assms(5) by auto
  with eff absent show ?thesis by (auto split: sum.splits failure.splits)
qed

lemma Destroy_exact_witness:
  "Destroy (sample_ordinator NewRetainer 0) ''web'' no_layers = (Inr (), no_layers) \<and>
    (\<exists>w'. Destroy (sample_ordinator NewRetainer 0) ''web'' web_container = (Inr (), w') \<and>
      shed_layers sample_graph w' = Map.empty \<and> Destroy (sample_ordinator NewRetainer 0) ''web'' w' = (Inr (), w'))"
proof -
  let ?c = "sample_ordinator NewRetainer 0"
  have o: "ordCake ?c = sample_cake" by (simp add: wired_ordinator_def)
  obtain x w1 where none: "Destroy ?c ''web'' no_layers = (x, w1)" by (cases "Destroy ?c ''web'' no_layers")
  obtain w' where run: "Destroy ?c ''web'' web_container = (Inr (), w')"
    using Destroy_works [OF sample_unmounting web_container(1) o] by blast
  show ?thesis
    using Destroy_exact [OF sample_server no_layers(1) o _ none] none no_layers(2)
      Destroy_exact [OF sample_server web_container(1) o _ run] run by simp
qed

text \<open>
  C11: A destruction succeeds.  When unmounting works and file operations do not fail, \<open>Destroy\<close> of any
  container, mounted or not, with a layer or without, comes to an end without an error and leaves the
  store without the container's layer and with every other.
\<close>

theorem Destroy_succeeds:
  assumes "clean_abs r" and "g = wired_graph env run decompress r" and "unmounts env"
    and "first_try run" and "retrier_ok hview run" and "shed_inv g w"
    and "ordCake c = wired_cake g runner r" and "i \<noteq> []"
  shows "\<exists>w'. Destroy c i w = (Inr (), w') \<and> shed_inv g w' \<and>
    shed_layers g w' = (shed_layers g w)(shaID i := None)"
proof -
  have "unmounting_server r g" unfolding unmounting_server_def using assms(1-5) by blast
  then show ?thesis by (rule Destroy_works [OF _ assms(6-8)])
qed

lemma Destroy_succeeds_witness:
  "\<exists>w'. Destroy sample_service ''web'' web_container = (Inr (), w') \<and> shed_layers sample_graph w' = Map.empty"
proof -
  have "ordCake sample_service = sample_cake" by (simp add: sample_service_def wired_ordinator_def)
  from Destroy_succeeds [OF clean_garden_root refl unmounts_sample first_try_shed [of id] shed_retrier_ok
      web_container(1) this, of "''web''"] show ?thesis by auto
qed

section \<open>Usage\<close>

text \<open>
  C26: The size of a container's image.  For the mount path of a layer whose chain of parents ends in
  the store, \<open>BaseSize\<close> returns, without changing the store, the sum of the recorded sizes along
  the chain, through the parents that only the metadata records as well (modulo 2 to the 64).
\<close>

theorem BaseSize_chain:
  assumes "server_graph r g" and "shed_inv g w"
    and "ValidateID (GraphID i)" and "chain (shed_layers g w) (GraphID i) imgs" and "RootPath cfg = r"
  shows "BaseSize (wired_cake g runner r) (GetMntPath cfg i) w =
    Some (Inr (sum_sizes imgs), w)"
  using layer_store.base_loop_chain [OF shed_store [OF assms(1)] assms(2,4), of runner 0]
  by (simp add: BaseSize_def path_base_wired [OF assms(1,5,3)])

lemma BaseSize_chain_witness:
  "BaseSize sample_cake (GetMntPath sample_cfg (DockerImageID top_id)) two_layers =
    Some (Inr 100, two_layers)"
  using BaseSize_chain [OF sample_server two_layers(1), where i = "DockerImageID top_id"
    and imgs = "[top_image, base_image]" and cfg = sample_cfg]
  by (simp add: sum_sizes_def sample_cfg_def wired_cfg_def)

text \<open>
  A broken chain is an error.  When the chain of parents leads to a valid ID that is not in the
  store, \<open>BaseSize\<close> returns an error and changes nothing; it does not report a partial sum.
\<close>

theorem BaseSize_broken:
  assumes "server_graph r g" and "shed_inv g w"
    and "ValidateID (GraphID i)" and "broken_chain (shed_layers g w) (GraphID i) imgs j" and "RootPath cfg = r"
  shows "\<exists>e. BaseSize (wired_cake g runner r) (GetMntPath cfg i) w =
    Some (Inl (Err e), w)"
  using layer_store.base_loop_broken [OF shed_store [OF assms(1)] assms(2,4), of runner 0]
  by (simp add: BaseSize_def path_base_wired [OF assms(1,5,3)])

lemma BaseSize_broken_witness:
  "\<exists>e. BaseSize sample_cake (GetMntPath sample_cfg (DockerImageID run_id)) two_layers =
    Some (Inl (Err e), two_layers)"
  using BaseSize_broken [OF sample_server two_layers(1), where i = "DockerImageID run_id"
    and imgs = "[]" and j = run_id and cfg = sample_cfg] by (simp add: sample_cfg_def wired_cfg_def)

end
